(* ===== verification/Prelude.thy ===== *)
theory Prelude
  imports Main "HOL-Library.Word" "HOL-Library.Monad_Syntax"
begin

text \<open>
  Shared vocabulary of the development: the machine types of the C code, C strings and raw
  memory as byte lists, the bookkeeping of \<^verbatim>\<open>size_t\<close> arithmetic, and the generic list and
  option lemmas the component theories use.

  \<^item> A byte buffer is a \<open>byte list\<close>; a C string is the list of bytes before its terminating
    NUL, and a string literal of the source is written \<open>cstr ''...''\<close>.
  \<^item> \<open>'a ub\<close> is the type of a computation that may read or write outside the memory it was
    given: \<open>None\<close> stands for that undefined behaviour, so that memory safety of a routine is
    the statement that its result is never \<open>None\<close>.
  \<^item> \<^verbatim>\<open>size_t\<close> and \<^verbatim>\<open>unsigned long\<close> are natural numbers below \<open>2 ^ 64\<close>; subtraction on them
    wraps around and is written \<open>size_sub\<close>.
\<close>

unbundle bit_operations_syntax

type_synonym byte = "8 word"
type_synonym u32 = "32 word"
type_synonym u64 = "64 word"
type_synonym 'a ub = "'a option"

named_theorems wire_simps "byte order and wire format rewrites"
named_theorems cstr_simps "C string and memory rewrites"
named_theorems sess_simps "how session updates commute with field reads"

section \<open>C strings and memory\<close>

definition cstr :: "string \<Rightarrow> byte list" where
  "cstr s = map of_char s"

lemma cstr_Nil [simp]: "cstr [] = []"
  by (simp add: cstr_def)

lemma cstr_Cons [simp]: "cstr (c # s) = of_char c # cstr s"
  by (simp add: cstr_def)

lemma length_cstr [simp]: "length (cstr s) = length s"
  by (simp add: cstr_def)

text \<open>\<^verbatim>\<open>strlen\<close> of a buffer: the number of bytes before the first NUL (the whole list when it
  holds none, that is when the terminator is the byte right after it).\<close>

definition strlen :: "byte list \<Rightarrow> nat" where
  "strlen s = length (takeWhile (\<lambda>c. c \<noteq> 0) s)"

definition cstring :: "byte list \<Rightarrow> byte list" where
  "cstring s = takeWhile (\<lambda>c. c \<noteq> 0) s"

definition nul_free :: "byte list \<Rightarrow> bool" where
  "nul_free s \<longleftrightarrow> 0 \<notin> set s"

lemma cstring_nul_free [simp]: "nul_free s \<Longrightarrow> cstring s = s"
  by (auto simp: cstring_def nul_free_def takeWhile_eq_all_conv)

lemma nul_free_cstring [simp]: "nul_free (cstring s)"
  by (auto simp: cstring_def nul_free_def dest: set_takeWhileD)

lemma strlen_nul_free [simp]: "nul_free s \<Longrightarrow> strlen s = length s"
  by (induction s) (auto simp: strlen_def nul_free_def)

lemma length_cstring [simp]: "length (cstring s) = strlen s"
  by (simp add: cstring_def strlen_def)

lemma nul_free_append [simp]: "nul_free (a @ b) \<longleftrightarrow> nul_free a \<and> nul_free b"
  by (auto simp: nul_free_def)

lemma nul_free_Nil [simp]: "nul_free []"
  by (simp add: nul_free_def)

lemma nul_free_Cons [simp]: "nul_free (c # s) \<longleftrightarrow> c \<noteq> 0 \<and> nul_free s"
  by (auto simp: nul_free_def)

lemma cstring_append_nul: "nul_free s \<Longrightarrow> cstring (s @ 0 # r) = s"
  by (induction s) (auto simp: cstring_def nul_free_def)

text \<open>\<^verbatim>\<open>*p\<close> for a pointer into a NUL-terminated string, given as the rest of that string.\<close>

definition deref :: "byte list \<Rightarrow> byte" where
  "deref p = (case p of [] \<Rightarrow> 0 | c # _ \<Rightarrow> c)"

lemma deref_simps [simp]: "deref [] = 0" "deref (c # p) = c"
  by (simp_all add: deref_def)

text \<open>A read of \<open>n\<close> bytes at offset \<open>i\<close> of a buffer, \<open>None\<close> when it leaves the buffer.\<close>

definition rdn :: "byte list \<Rightarrow> nat \<Rightarrow> nat \<Rightarrow> byte list ub" where
  "rdn b i n = (if i + n \<le> length b then Some (take n (drop i b)) else None)"

definition rd8 :: "byte list \<Rightarrow> nat \<Rightarrow> byte ub" where
  "rd8 b i = (if i < length b then Some (b ! i) else None)"

lemma rdn_eq_Some: "rdn b i n = Some x \<longleftrightarrow> i + n \<le> length b \<and> x = take n (drop i b)"
  by (auto simp: rdn_def)

lemma rd8_eq_Some: "rd8 b i = Some x \<longleftrightarrow> i < length b \<and> x = b ! i"
  by (auto simp: rd8_def)

section \<open>Unsigned long and size\_t arithmetic\<close>

definition size_sub :: "nat \<Rightarrow> nat \<Rightarrow> nat" where
  "size_sub a b = (a + 2 ^ 64 - b) mod 2 ^ 64"

lemma size_sub_exact: "b \<le> a \<Longrightarrow> a < 2 ^ 64 \<Longrightarrow> size_sub a b = a - b"
proof -
  assume le: "b \<le> a" and lt: "a < 2 ^ 64"
  have "a + 2 ^ 64 - b = (a - b) + 2 ^ 64" using le by linarith
  then have "(a + 2 ^ 64 - b) mod 2 ^ 64 = (a - b) mod 2 ^ 64" by (simp only: mod_add_self2)
  also have "\<dots> = a - b" using lt by (intro mod_less) (rule le_less_trans [OF diff_le_self])
  finally show ?thesis by (simp only: size_sub_def)
qed

lemma size_sub_wraps: "a < b \<Longrightarrow> b \<le> 2 ^ 64 \<Longrightarrow> size_sub a b = 2 ^ 64 - (b - a)"
proof -
  assume "a < b" "b \<le> 2 ^ 64"
  then have "a + 2 ^ 64 - b = 2 ^ 64 - (b - a)" "2 ^ 64 - (b - a) < (2::nat) ^ 64" by linarith+
  then show ?thesis by (simp only: size_sub_def mod_less)
qed

lemma unat_byte_less [simp]: "unat (b :: byte) < 256"
  using unsigned_less [of b] by simp

lemma unat_u32_less [simp]: "unat (v :: u32) < 4294967296"
  using unsigned_less [of v] by simp

lemma unat_u32_of_nat: "n < 2 ^ 32 \<Longrightarrow> unat (word_of_nat n :: u32) = n"
  by (simp add: unsigned_of_nat take_bit_nat_eq_self)

section \<open>Generic lemmas on lists\<close>

lemma take_append_length [simp]: "length a = n \<Longrightarrow> take n (a @ b) = a"
  by simp

lemma drop_append_length [simp]: "length a = n \<Longrightarrow> drop n (a @ b) = b"
  by simp

lemma takeWhile_all_app:
  "(\<And>x. x \<in> set a \<Longrightarrow> P x) \<Longrightarrow> b = [] \<or> \<not> P (hd b) \<Longrightarrow> takeWhile P (a @ b) = a"
  by (cases b) (auto simp: takeWhile_tail)

lemma dropWhile_all_app:
  "(\<And>x. x \<in> set a \<Longrightarrow> P x) \<Longrightarrow> b = [] \<or> \<not> P (hd b) \<Longrightarrow> dropWhile P (a @ b) = b"
  by (cases b) (auto simp: dropWhile_append3)

lemma dropWhile_Cons_shorter: "dropWhile P s = c # r \<Longrightarrow> length r < length s"
  using length_dropWhile_le [of P s] by simp

lemma length_takeWhile_mem: "c \<in> set s \<Longrightarrow> length (takeWhile (\<lambda>x. x \<noteq> c) s) < length s"
  by (induction s) auto

lemma list_induct_triples [case_names Nil one two three]:
  assumes "P []" "\<And>a. P [a]" "\<And>a b. P [a, b]" "\<And>a b c r. P r \<Longrightarrow> P (a # b # c # r)"
  shows "P xs"
proof (induction xs rule: length_induct)
  case (1 xs)
  show ?case
  proof (cases "length xs < 3")
    case True
    then consider "xs = []" | a where "xs = [a]" | a b where "xs = [a, b]"
      by (auto simp: less_Suc_eq numeral_3_eq_3 length_Suc_conv)
    then show ?thesis using assms(1-3) by cases auto
  next
    case False
    then obtain a b c r where "xs = a # b # c # r"
      by (auto simp: not_less numeral_3_eq_3 Suc_le_length_iff)
    with 1 assms(4) show ?thesis by simp
  qed
qed

lemma find_append: "find P (xs @ ys) = (case find P xs of None \<Rightarrow> find P ys | Some x \<Rightarrow> Some x)"
  by (induction xs) auto

lemma filter_eq_Nil_find: "(\<forall>x\<in>set xs. \<not> P x) \<longleftrightarrow> find P xs = None"
  by (auto simp: find_None_iff)

lemma option_bind_eq_Some: "Option.bind m f = Some y \<longleftrightarrow> (\<exists>x. m = Some x \<and> f x = Some y)"
  by (cases m) auto

lemma bind_SomeE:
  assumes "Option.bind m f = Some y"
  obtains x where "m = Some x" "f x = Some y"
  using assms by (cases m) auto

lemmas asm_splits = sum.split_asm if_split_asm option.split_asm prod.split_asm list.split_asm

end
