(* ===== verification/Wire.thy ===== *)
theory Wire
  imports Prelude
begin

text \<open>
  The byte-order helpers of \<^verbatim>\<open>libssh2/src/misc.c\<close>: reading and writing big-endian integers
  and length-prefixed strings. A store helper advances a write pointer in C; here it returns
  the bytes it appends at that pointer.
\<close>

section \<open>Definitions\<close>

definition libssh2_ntohu32 :: "byte \<Rightarrow> byte \<Rightarrow> byte \<Rightarrow> byte \<Rightarrow> u32" where
  "libssh2_ntohu32 b0 b1 b2 b3 =
     push_bit 24 (ucast b0) OR push_bit 16 (ucast b1) OR push_bit 8 (ucast b2) OR ucast b3"

definition libssh2_ntohu64 ::
  "byte \<Rightarrow> byte \<Rightarrow> byte \<Rightarrow> byte \<Rightarrow> byte \<Rightarrow> byte \<Rightarrow> byte \<Rightarrow> byte \<Rightarrow> u64" where
  "libssh2_ntohu64 b0 b1 b2 b3 b4 b5 b6 b7 =
     (let msl = push_bit 24 (ucast b0) OR push_bit 16 (ucast b1) OR push_bit 8 (ucast b2)
                OR ucast b3 :: u64;
          lsl = push_bit 24 (ucast b4) OR push_bit 16 (ucast b5) OR push_bit 8 (ucast b6)
                OR ucast b7 :: u64
      in push_bit 32 msl OR lsl)"

definition libssh2_htonu32 :: "u32 \<Rightarrow> byte list" where
  "libssh2_htonu32 v =
     [ucast (drop_bit 24 v AND 0xFF), ucast (drop_bit 16 v AND 0xFF),
      ucast (drop_bit 8 v AND 0xFF), ucast (v AND 0xFF)]"

definition libssh2_store_u32 :: "u32 \<Rightarrow> byte list" where
  "libssh2_store_u32 v = libssh2_htonu32 v"

definition libssh2_store_str :: "byte list \<Rightarrow> nat \<Rightarrow> byte list" where
  "libssh2_store_str str len =
     libssh2_store_u32 (word_of_nat len) @ (if len \<noteq> 0 then take len str else [])"

text \<open>A bounds-checked \<^verbatim>\<open>_libssh2_ntohu32(buf + i)\<close>.\<close>

definition rd32 :: "byte list \<Rightarrow> nat \<Rightarrow> u32 ub" where
  "rd32 b i =
     (if i + 4 \<le> length b
      then Some (libssh2_ntohu32 (b ! i) (b ! (i + 1)) (b ! (i + 2)) (b ! (i + 3)))
      else None)"

section \<open>Facts\<close>

lemma length_htonu32 [simp]: "length (libssh2_htonu32 v) = 4"
  by (simp add: libssh2_htonu32_def)

lemma length_store_u32 [simp]: "length (libssh2_store_u32 v) = 4"
  by (simp add: libssh2_store_u32_def)

lemma and_0xFF: "(x :: u32) AND 0xFF = take_bit 8 x"
  by (simp add: take_bit_eq_mask mask_eq_exp_minus_1)

lemma bit_ntohu32:
  "bit (libssh2_ntohu32 a b c d) n =
     (if n < 8 then bit d n else if n < 16 then bit c (n - 8)
      else if n < 24 then bit b (n - 16) else n < 32 \<and> bit a (n - 24))"
  by (auto simp: libssh2_ntohu32_def bit_simps dest: bit_imp_le_length)

lemma ntohu32_htonu32_bytes [wire_simps]:
  "libssh2_ntohu32 (ucast (drop_bit 24 v AND 0xFF)) (ucast (drop_bit 16 v AND 0xFF))
     (ucast (drop_bit 8 v AND 0xFF)) (ucast (v AND 0xFF)) = v"
  by (rule bit_word_eqI) (simp add: and_0xFF bit_ntohu32 bit_simps not_less, arith)

lemma htonu32_ntohu32_bytes [wire_simps]:
  "libssh2_htonu32 (libssh2_ntohu32 a b c d) = [a, b, c, d]"
proof -
  have "ucast (drop_bit 24 (libssh2_ntohu32 a b c d) AND 0xFF) = a"
    "ucast (drop_bit 16 (libssh2_ntohu32 a b c d) AND 0xFF) = b"
    "ucast (drop_bit 8 (libssh2_ntohu32 a b c d) AND 0xFF) = c"
    "ucast (libssh2_ntohu32 a b c d AND 0xFF) = d"
    unfolding and_0xFF by (rule bit_word_eqI; auto simp: bit_simps bit_ntohu32)+
  then show ?thesis by (simp add: libssh2_htonu32_def)
qed

text \<open>The value read is the big-endian value of the four bytes.\<close>

lemma unat_ntohu32:
  "unat (libssh2_ntohu32 a b c d) =
     unat a * 2 ^ 24 + unat b * 2 ^ 16 + unat c * 2 ^ 8 + unat d" (is "_ = ?N")
proof -
  have 1: "push_bit 8 (ucast c) OR ucast d = push_bit 8 (ucast c) + (ucast d :: u32)"
    by (rule disjunctive_add_eq_or [symmetric], rule bit_word_eqI)
      (auto simp: bit_simps dest: bit_imp_le_length)
  have 2: "push_bit 16 (ucast b) OR (push_bit 8 (ucast c) OR ucast d)
      = push_bit 16 (ucast b) + (push_bit 8 (ucast c) OR (ucast d :: u32))"
    by (rule disjunctive_add_eq_or [symmetric], rule bit_word_eqI)
      (auto simp: bit_simps dest: bit_imp_le_length)
  have 3: "push_bit 24 (ucast a) OR (push_bit 16 (ucast b) OR (push_bit 8 (ucast c) OR ucast d))
      = push_bit 24 (ucast a) +
        (push_bit 16 (ucast b) OR (push_bit 8 (ucast c) OR (ucast d :: u32)))"
    by (rule disjunctive_add_eq_or [symmetric], rule bit_word_eqI)
      (auto simp: bit_simps dest: bit_imp_le_length)
  have sum: "push_bit 24 (ucast a) + (push_bit 16 (ucast b) +
      (push_bit 8 (ucast c) + (ucast d :: u32))) = word_of_nat ?N"
    by (simp add: push_bit_eq_mult)
  have "?N < 2 ^ 32"
    using unat_byte_less [of a] unat_byte_less [of b] unat_byte_less [of c] unat_byte_less [of d]
    by (simp del: unat_byte_less)
  then have "unat (word_of_nat ?N :: u32) = ?N"
    by (simp only: unat_of_nat len_of_numeral_defs mod_less) simp
  moreover have "libssh2_ntohu32 a b c d = word_of_nat ?N"
    unfolding libssh2_ntohu32_def or.assoc unfolding 3 unfolding 2 unfolding 1 by (rule sum)
  ultimately show ?thesis by simp
qed

lemma be32_64:
  "(push_bit 24 (ucast a) OR push_bit 16 (ucast b) OR push_bit 8 (ucast c) OR ucast d :: u64)
     = ucast (libssh2_ntohu32 a b c d)"
  by (rule bit_word_eqI) (auto simp: bit_ntohu32 bit_simps dest: bit_imp_le_length)

lemma ntohu64_split:
  "libssh2_ntohu64 a b c d e f g h =
     push_bit 32 (ucast (libssh2_ntohu32 a b c d)) OR ucast (libssh2_ntohu32 e f g h)"
  by (simp only: libssh2_ntohu64_def Let_def be32_64)

section \<open>Reading back what was stored\<close>

lemma rd32_htonu32_app [wire_simps]: "rd32 (libssh2_htonu32 v @ r) 0 = Some v"
  by (simp add: rd32_def libssh2_htonu32_def ntohu32_htonu32_bytes)

lemma rd32_shift [wire_simps]: "length p = n \<Longrightarrow> rd32 (p @ b) (n + i) = rd32 b i"
  by (auto simp: rd32_def nth_append)

lemma rd32_app: "rd32 b i = Some v \<Longrightarrow> rd32 (b @ r) i = Some v"
  by (auto simp: rd32_def nth_append split: if_splits)

lemma rd32_at [wire_simps]: "length p = n \<Longrightarrow> rd32 (p @ libssh2_htonu32 v @ r) n = Some v"
  using rd32_shift [of p n "libssh2_htonu32 v @ r" 0] by (simp add: rd32_htonu32_app)

lemma length_store_str:
  "len \<le> length s \<Longrightarrow> length (libssh2_store_str s len) = 4 + len"
  by (simp add: libssh2_store_str_def)

lemma rd32_None: "rd32 b i = None \<longleftrightarrow> length b < i + 4"
  by (auto simp: rd32_def)

text \<open>Big-endian 32-bit integers round-trip both ways: reading what
  \<^verbatim>\<open>_libssh2_htonu32\<close> wrote gives the value back, and writing what
  \<^verbatim>\<open>_libssh2_ntohu32\<close> read gives the four bytes back; the value read is the base-256
  value of the bytes, most significant first.\<close>

lemma ntohu32_htonu32_roundtrip:
  "(\<exists>a b c d. libssh2_htonu32 v = [a, b, c, d] \<and> libssh2_ntohu32 a b c d = v) \<and>
   libssh2_htonu32 (libssh2_ntohu32 w x y z) = [w, x, y, z] \<and>
   unat (libssh2_ntohu32 w x y z) = ((unat w * 256 + unat x) * 256 + unat y) * 256 + unat z"
  by (simp add: libssh2_htonu32_def [of v] ntohu32_htonu32_bytes htonu32_ntohu32_bytes
      unat_ntohu32)

end
