(* ===== verification/Session.thy ===== *)
theory Session
  imports Wire
begin

text \<open>
  The state every component of the SSH session shares: \<^verbatim>\<open>struct _LIBSSH2_SESSION\<close> of
  \<^verbatim>\<open>libssh2/src/libssh2_priv.h\<close> with the structures it embeds, restricted to the members the
  modelled code reads or writes, and \<^verbatim>\<open>_libssh2_error\<close> of \<^verbatim>\<open>misc.c\<close>.

  Code outside the repository enters as data of the session:
  \<^item> the application's callbacks and the operating system are the record \<open>env\<close>: the outcomes
    of the coming allocations, socket sends and receives, clock and random-number calls, each
    consumed in call order, and a log of what was sent and which callbacks ran;
  \<^item> the ciphers, MACs and compressors (OpenSSL, zlib) are the function members of the method
    records, as they are function pointers of the method structures in C.
\<close>

section \<open>Methods negotiated by the key exchange\<close>

text \<open>\<^verbatim>\<open>void *abstract\<close>, the private state of a cipher, MAC or compressor.\<close>

type_synonym abstract_state = "byte list"

record kex_method =
  km_name :: "byte list"
  km_flags :: u32

record hostkey_method =
  hm_name :: "byte list"
  hm_encrypt :: bool     \<comment> \<open>the \<^verbatim>\<open>encrypt\<close> pointer is not NULL\<close>
  hm_sig_verify :: bool  \<comment> \<open>the \<^verbatim>\<open>sig_verify\<close> pointer is not NULL\<close>

record crypt_method =
  cm_name :: "byte list"
  blocksize :: nat
  iv_len :: nat
  secret_len :: nat
  cm_crypt :: "abstract_state \<Rightarrow> byte list \<Rightarrow> (abstract_state \<times> byte list) option"
    \<comment> \<open>one block in place; \<open>None\<close> is a non-zero return\<close>

record mac_method =
  mm_name :: "byte list"
  mac_len :: nat
  mac_key_len :: nat
  mm_hash :: "abstract_state \<Rightarrow> u32 \<Rightarrow> byte list \<Rightarrow> byte list \<Rightarrow> byte list"
    \<comment> \<open>sequence number, packet, additional data\<close>

record comp_method =
  pm_name :: "byte list"
  pm_compress :: bool
  pm_comp :: "abstract_state option \<Rightarrow> nat \<Rightarrow> byte list \<Rightarrow> int \<times> byte list \<times> abstract_state option"
    \<comment> \<open>room in the destination, source\<close>
  pm_decomp :: "abstract_state option \<Rightarrow> nat \<Rightarrow> byte list \<Rightarrow> int \<times> byte list \<times> abstract_state option"
    \<comment> \<open>payload limit, source\<close>

record endpoint =
  kexinit_buf :: "byte list option"
  crypt :: "crypt_method option"
  crypt_abstract :: abstract_state
  mac :: "mac_method option"
  seqno :: u32
  mac_abstract :: abstract_state
  comp :: "comp_method option"
  comp_abstract :: "abstract_state option"
  crypt_prefs :: "byte list option"
  mac_prefs :: "byte list option"
  comp_prefs :: "byte list option"
  lang_prefs :: "byte list option"

section \<open>Packets, channels and listeners\<close>

datatype nb_state =
  NB_idle | NB_allocated | NB_created | NB_sent | NB_sent1 | NB_sent2 | NB_sent3 | NB_sent4
  | NB_sent5 | NB_sent6 | NB_sent7 | NB_jump1 | NB_jump2 | NB_jump3 | NB_jump4 | NB_jump5

text \<open>\<^verbatim>\<open>struct transportpacket\<close>. The receive buffer \<open>buf\<close> holds the bytes between the start of
  the array and \<^verbatim>\<open>writeidx\<close>, so \<^verbatim>\<open>writeidx\<close> is its length; \<open>payload\<close> holds the bytes written so
  far through \<^verbatim>\<open>wptr\<close>, so \<^verbatim>\<open>data_num\<close> is its length.\<close>

record transportpacket =
  buf :: "byte list"
  init5 :: "byte list"
  readidx :: nat
  packet_length :: u32
  padding_length :: byte
  total_num :: nat
  payload :: "byte list"
  outbuf :: "byte list"
  ototal_num :: nat
  odata :: nat          \<comment> \<open>the address of the data, 0 for NULL\<close>
  olen :: nat
  osent :: nat

text \<open>\<^verbatim>\<open>struct _LIBSSH2_PACKET\<close>: \<open>pk_data\<close> is the allocated area, \<open>pk_data_len\<close> its used length.\<close>

record ssh_packet =
  pk_data :: "byte list"
  pk_data_len :: nat
  pk_data_head :: nat

record channel_data =
  cd_id :: u32
  window_size_initial :: u32
  window_size :: u32
  packet_size :: u32
  cd_close :: bool
  cd_eof :: bool
  extended_data_ignore_mode :: nat

record channel =
  channel_type :: "byte list"
  exit_status :: u32
  exit_signal :: "byte list option"
  ch_local :: channel_data
  ch_remote :: channel_data
  adjust_queue :: u32
  has_close_cb :: bool          \<comment> \<open>\<^verbatim>\<open>close_cb\<close> is set\<close>
  flush_state :: nb_state
  flush_refund_bytes :: nat
  flush_flush_bytes :: nat
  adjust_state :: nb_state
  adjust_adjust :: "byte list"
  read_state :: nb_state
  write_state :: nb_state
  write_packet :: "byte list"   \<comment> \<open>its first \<^verbatim>\<open>write_packet_len\<close> bytes\<close>
  write_bufwrite :: nat
  close_state :: nb_state
  close_packet :: "byte list"
  wait_eof_state :: nb_state
  wait_closed_state :: nb_state
  free_state :: nb_state
  extData2_state :: nb_state
  process_state :: nb_state
  process_packet :: "byte list option"
  process_local_channel :: "byte list"
  process_start :: int          \<comment> \<open>\<^verbatim>\<open>process_packet_requirev_state.start\<close>\<close>
  setenv_state :: nb_state
  setenv_packet :: "byte list option"
  setenv_local_channel :: "byte list"
  setenv_start :: int
  reqPTY_state :: nb_state
  reqPTY_packet :: "byte list"  \<comment> \<open>its first \<^verbatim>\<open>reqPTY_packet_len\<close> bytes\<close>
  reqPTY_local_channel :: "byte list"
  reqPTY_start :: int
  reqX11_state :: nb_state
  reqX11_packet :: "byte list option"
  reqX11_local_channel :: "byte list"
  reqX11_start :: int

record listener =
  ln_host :: "byte list"
  ln_port :: int
  ln_queue :: "channel list"
  queue_size :: int
  queue_maxsize :: int
  chanFwdCncl_state :: nb_state
  chanFwdCncl_data :: "byte list option"

text \<open>The states kept while a forwarded connection is being answered. The host pointers into the
  packet are offsets here.\<close>

record packet_queue_listener_state =
  ql_state :: nb_state
  ql_packet :: "byte list"
  ql_host :: nat
  ql_sender_channel :: u32
  ql_initial_window_size :: u32
  ql_packet_size :: u32
  ql_port :: u32
  ql_host_len :: u32
  ql_channel :: "channel option"

record packet_x11_open_state =
  xo_state :: nb_state
  xo_packet :: "byte list"
  xo_shost :: nat
  xo_sender_channel :: u32
  xo_initial_window_size :: u32
  xo_packet_size :: u32
  xo_sport :: u32
  xo_channel :: "channel option"

text \<open>The state of a key exchange, but for the part private to the Diffie-Hellman exchange.\<close>

record key_exchange_state =
  ke_state :: nb_state
  ke_req_start :: int
  ke_data :: "byte list option"
  ke_oldlocal :: "byte list option"

section \<open>The outside world\<close>

text \<open>What \<^verbatim>\<open>recv\<close> does: deliver bytes (none when the peer closed the connection) or fail with an
  \<^verbatim>\<open>errno\<close>.\<close>

datatype recv_result = Received "byte list" | RecvError nat

datatype callback =
  CB_disconnect u32 "(byte list \<times> byte list) option"
  | CB_ignore "byte list"
  | CB_debug byte "byte list option \<times> nat" "byte list option \<times> nat"
  | CB_x11_open u32 "byte list" u32
  | CB_channel_close u32

record env =
  allocs :: "bool list"       \<comment> \<open>outcome of the coming allocations, success when exhausted\<close>
  sends :: "int list"         \<comment> \<open>return values of the coming socket sends, all bytes when exhausted\<close>
  recvs :: "recv_result list" \<comment> \<open>results of the coming socket receives, \<^verbatim>\<open>-EAGAIN\<close> when exhausted\<close>
  clock :: "int list"         \<comment> \<open>the coming values of \<^verbatim>\<open>time(NULL)\<close>, 0 when exhausted\<close>
  randoms :: "byte list"      \<comment> \<open>the coming random bytes, 0 when exhausted\<close>
  macerrors :: "bool list"    \<comment> \<open>non-zero results of the \<^verbatim>\<open>macerror\<close> callback, zero when exhausted\<close>
  wire_out :: "byte list"     \<comment> \<open>bytes the socket accepted\<close>
  cb_log :: "callback list"   \<comment> \<open>application callbacks made\<close>

record session =
  err_code :: int
  err_msg :: string
  env :: env
  sstate :: u32
  flag_compress :: bool
  kex_prefs :: "byte list option"
  hostkey_prefs :: "byte list option"
  kex :: "kex_method option"
  hostkey :: "hostkey_method option"
  burn_optimistic_kexinit :: bool
  remote_ep :: endpoint
  local_ep :: endpoint
  packets :: "ssh_packet list"
  channels :: "channel list"
  next_channel :: u32
  listeners :: "listener list"
  has_disconnect_cb :: bool   \<comment> \<open>\<^verbatim>\<open>ssh_msg_disconnect\<close> is set\<close>
  has_ignore_cb :: bool       \<comment> \<open>\<^verbatim>\<open>ssh_msg_ignore\<close> is set\<close>
  has_debug_cb :: bool        \<comment> \<open>\<^verbatim>\<open>ssh_msg_debug\<close> is set\<close>
  has_macerror_cb :: bool     \<comment> \<open>\<^verbatim>\<open>macerror\<close> is set\<close>
  has_x11_cb :: bool          \<comment> \<open>\<^verbatim>\<open>x11\<close> is set\<close>
  socket_state :: int
  socket_block_directions :: u32
  packet :: transportpacket
  kexinit_state :: nb_state
  kexinit_data :: "byte list option"
  readPack_state :: nb_state
  readPack_encrypted :: bool
  startup_key_state :: key_exchange_state
  open_state :: nb_state
  open_channel :: "u32 option"       \<comment> \<open>the channel, by its local id\<close>
  open_packet :: "byte list option"
  open_local_channel :: u32
  open_start :: int                  \<comment> \<open>\<^verbatim>\<open>open_packet_requirev_state.start\<close>\<close>
  direct_state :: nb_state
  direct_message :: "byte list option"
  fwdLstn_state :: nb_state
  fwdLstn_packet :: "byte list option"
  fwdLstn_host_len :: nat
  fwdLstn_start :: int               \<comment> \<open>\<^verbatim>\<open>fwdLstn_packet_requirev_state.start\<close>\<close>
  packAdd_state :: nb_state
  packAdd_channelp :: "u32 option"   \<comment> \<open>the channel, by its local id\<close>
  packAdd_Qlstn_state :: packet_queue_listener_state
  packAdd_x11open_state :: packet_x11_open_state
  fullpacket_state :: nb_state
  fullpacket_macstate :: bool   \<comment> \<open>\<^verbatim>\<open>LIBSSH2_MAC_CONFIRMED\<close>\<close>
  fullpacket_payload_len :: nat
  fullpacket_packet_type :: byte

section \<open>Error codes\<close>

abbreviation (input) "LIBSSH2_ERROR_NONE \<equiv> 0 :: int"
abbreviation (input) "LIBSSH2_ERROR_INVALID_MAC \<equiv> -4 :: int"
abbreviation (input) "LIBSSH2_ERROR_KEX_FAILURE \<equiv> -5 :: int"
abbreviation (input) "LIBSSH2_ERROR_ALLOC \<equiv> -6 :: int"
abbreviation (input) "LIBSSH2_ERROR_SOCKET_SEND \<equiv> -7 :: int"
abbreviation (input) "LIBSSH2_ERROR_KEY_EXCHANGE_FAILURE \<equiv> -8 :: int"
abbreviation (input) "LIBSSH2_ERROR_TIMEOUT \<equiv> -9 :: int"
abbreviation (input) "LIBSSH2_ERROR_DECRYPT \<equiv> -12 :: int"
abbreviation (input) "LIBSSH2_ERROR_SOCKET_DISCONNECT \<equiv> -13 :: int"
abbreviation (input) "LIBSSH2_ERROR_PROTO \<equiv> -14 :: int"
abbreviation (input) "LIBSSH2_ERROR_FILE \<equiv> -16 :: int"
abbreviation (input) "LIBSSH2_ERROR_CHANNEL_FAILURE \<equiv> -21 :: int"
abbreviation (input) "LIBSSH2_ERROR_CHANNEL_REQUEST_DENIED \<equiv> -22 :: int"
abbreviation (input) "LIBSSH2_ERROR_CHANNEL_UNKNOWN \<equiv> -23 :: int"
abbreviation (input) "LIBSSH2_ERROR_CHANNEL_WINDOW_EXCEEDED \<equiv> -24 :: int"
abbreviation (input) "LIBSSH2_ERROR_CHANNEL_PACKET_EXCEEDED \<equiv> -25 :: int"
abbreviation (input) "LIBSSH2_ERROR_CHANNEL_CLOSED \<equiv> -26 :: int"
abbreviation (input) "LIBSSH2_ERROR_CHANNEL_EOF_SENT \<equiv> -27 :: int"
abbreviation (input) "LIBSSH2_ERROR_REQUEST_DENIED \<equiv> -32 :: int"
abbreviation (input) "LIBSSH2_ERROR_METHOD_NOT_SUPPORTED \<equiv> -33 :: int"
abbreviation (input) "LIBSSH2_ERROR_INVAL \<equiv> -34 :: int"
abbreviation (input) "LIBSSH2_ERROR_EAGAIN \<equiv> -37 :: int"
abbreviation (input) "LIBSSH2_ERROR_BUFFER_TOO_SMALL \<equiv> -38 :: int"
abbreviation (input) "LIBSSH2_ERROR_BAD_USE \<equiv> -39 :: int"
abbreviation (input) "LIBSSH2_ERROR_OUT_OF_BOUNDARY \<equiv> -41 :: int"
abbreviation (input) "LIBSSH2_ERROR_SOCKET_RECV \<equiv> -43 :: int"
abbreviation (input) "LIBSSH2_ERROR_ENCRYPT \<equiv> -44 :: int"

definition libssh2_error :: "session \<Rightarrow> int \<Rightarrow> string \<Rightarrow> int \<times> session" where
  "libssh2_error s errcode errmsg = (errcode, s\<lparr>err_msg := errmsg, err_code := errcode\<rparr>)"

text \<open>\<^verbatim>\<open>LIBSSH2_ALLOC\<close>: whether the application's allocator returned memory.\<close>

definition libssh2_alloc :: "session \<Rightarrow> bool \<times> session" where
  "libssh2_alloc s =
     (case allocs (env s) of
        [] \<Rightarrow> (True, s)
      | ok # oks \<Rightarrow> (ok, s\<lparr>env := (env s)\<lparr>allocs := oks\<rparr>\<rparr>))"

definition libssh2_random :: "session \<Rightarrow> nat \<Rightarrow> byte list \<times> session" where
  "libssh2_random s n =
     (take n (randoms (env s) @ replicate n 0),
      s\<lparr>env := (env s)\<lparr>randoms := drop n (randoms (env s))\<rparr>\<rparr>)"

definition libssh2_time :: "session \<Rightarrow> int \<times> session" where
  "libssh2_time s =
     (case clock (env s) of
        [] \<Rightarrow> (0, s)
      | t # ts \<Rightarrow> (t, s\<lparr>env := (env s)\<lparr>clock := ts\<rparr>\<rparr>))"

section \<open>A new session\<close>

text \<open>The cleared structure: every pointer is NULL, every list empty, every state
  \<^verbatim>\<open>libssh2_NB_state_idle\<close> and the socket state \<^verbatim>\<open>LIBSSH2_SOCKET_CONNECTED\<close>. The argument is
  the world the session runs in.\<close>

definition endpoint0 :: endpoint where
  "endpoint0 = \<lparr>kexinit_buf = None, crypt = None, crypt_abstract = [], mac = None, seqno = 0,
     mac_abstract = [], comp = None, comp_abstract = None, crypt_prefs = None, mac_prefs = None,
     comp_prefs = None, lang_prefs = None\<rparr>"

definition transportpacket0 :: transportpacket where
  "transportpacket0 = \<lparr>buf = [], init5 = [], readidx = 0, packet_length = 0, padding_length = 0,
     total_num = 0, payload = [], outbuf = [], ototal_num = 0, odata = 0, olen = 0, osent = 0\<rparr>"

definition packet_queue_listener_state0 :: packet_queue_listener_state where
  "packet_queue_listener_state0 = \<lparr>ql_state = NB_idle, ql_packet = [], ql_host = 0,
     ql_sender_channel = 0, ql_initial_window_size = 0, ql_packet_size = 0, ql_port = 0,
     ql_host_len = 0, ql_channel = None\<rparr>"

definition packet_x11_open_state0 :: packet_x11_open_state where
  "packet_x11_open_state0 = \<lparr>xo_state = NB_idle, xo_packet = [], xo_shost = 0,
     xo_sender_channel = 0, xo_initial_window_size = 0, xo_packet_size = 0, xo_sport = 0,
     xo_channel = None\<rparr>"

definition key_exchange_state0 :: key_exchange_state where
  "key_exchange_state0 = \<lparr>ke_state = NB_idle, ke_req_start = 0, ke_data = None, ke_oldlocal = None\<rparr>"

definition session_cleared :: "env \<Rightarrow> session" where
  "session_cleared e = \<lparr>err_code = 0, err_msg = [], env = e, sstate = 0,
     flag_compress = False, kex_prefs = None, hostkey_prefs = None, kex = None, hostkey = None,
     burn_optimistic_kexinit = False, remote_ep = endpoint0, local_ep = endpoint0, packets = [],
     channels = [], next_channel = 0, listeners = [],
     has_disconnect_cb = False, has_ignore_cb = False, has_debug_cb = False,
     has_macerror_cb = False, has_x11_cb = False, socket_state = 0,
     socket_block_directions = 0, packet = transportpacket0, kexinit_state = NB_idle,
     kexinit_data = None, readPack_state = NB_idle, readPack_encrypted = False,
     startup_key_state = key_exchange_state0, open_state = NB_idle, open_channel = None,
     open_packet = None, open_local_channel = 0, open_start = 0,
     direct_state = NB_idle, direct_message = None, fwdLstn_state = NB_idle, fwdLstn_packet = None,
     fwdLstn_host_len = 0, fwdLstn_start = 0, packAdd_state = NB_idle, packAdd_channelp = None,
     packAdd_Qlstn_state = packet_queue_listener_state0,
     packAdd_x11open_state = packet_x11_open_state0, fullpacket_state = NB_idle, fullpacket_macstate = True,
     fullpacket_payload_len = 0, fullpacket_packet_type = 0\<rparr>"

text \<open>\<open>None\<close> when the application's allocator fails for the session itself.\<close>

definition libssh2_session_init_ex :: "env \<Rightarrow> session option" where
  "libssh2_session_init_ex e =
     (case allocs e of
        [] \<Rightarrow> Some (session_cleared e)
      | ok # oks \<Rightarrow> if ok then Some (session_cleared (e\<lparr>allocs := oks\<rparr>)) else None)"

text \<open>A world in which nothing fails and the peer is silent.\<close>

definition env0 :: env where
  "env0 = \<lparr>allocs = [], sends = [], recvs = [], clock = [], randoms = [], macerrors = [],
     wire_out = [], cb_log = []\<rparr>"

section \<open>Facts\<close>

lemma allocs_env0 [simp]: "allocs (env (session_cleared env0)) = []"
  by (simp add: session_cleared_def env0_def)

lemma libssh2_error_simps [sess_simps]:
  "fst (libssh2_error s c m) = c"
  "err_code (snd (libssh2_error s c m)) = c"
  "err_msg (snd (libssh2_error s c m)) = m"
  "env (snd (libssh2_error s c m)) = env s"
  by (simp_all add: libssh2_error_def)

lemma libssh2_alloc_cases:
  obtains (ok) s' where "libssh2_alloc s = (True, s')"
  | (fail) s' where "libssh2_alloc s = (False, s')"
  by (cases "fst (libssh2_alloc s)") (metis prod.collapse)+

lemma libssh2_alloc_frame [sess_simps]:
  "err_code (snd (libssh2_alloc s)) = err_code s"
  "err_msg (snd (libssh2_alloc s)) = err_msg s"
  by (auto simp: libssh2_alloc_def split: list.splits)

lemma libssh2_alloc_unlimited [sess_simps]: "allocs (env s) = [] \<Longrightarrow> libssh2_alloc s = (True, s)"
  by (simp add: libssh2_alloc_def)

lemma length_libssh2_random [simp]: "length (fst (libssh2_random s n)) = n"
  by (simp add: libssh2_random_def)

end
