(* ===== verification/Base64.thy ===== *)
theory Base64
  imports Session
begin

text \<open>
  Base64 of \<^verbatim>\<open>libssh2/src/misc.c\<close>: the decoder, which skips every byte outside the alphabet
  and reassembles octets from six-bit groups in a running position, and the encoder, which the
  known-host store and the host-key display use. Both are total; the theorems give the round
  trip, the decoder's error condition and that it stays inside the buffer it allocates.
\<close>

section \<open>Tables\<close>

definition table64 :: "byte list" where
  "table64 = cstr ''ABCDEFGHIJKLMNOPQRSTUVWXYZabcdefghijklmnopqrstuvwxyz0123456789+/''"

definition base64_reverse_table :: "int list" where
  "base64_reverse_table =
     replicate 43 (-1) @ [62, -1, -1, -1, 63,
     52, 53, 54, 55, 56, 57, 58, 59, 60, 61, -1, -1, -1, -1, -1, -1,
     -1, 0, 1, 2, 3, 4, 5, 6, 7, 8, 9, 10, 11, 12, 13, 14,
     15, 16, 17, 18, 19, 20, 21, 22, 23, 24, 25, -1, -1, -1, -1, -1,
     -1, 26, 27, 28, 29, 30, 31, 32, 33, 34, 35, 36, 37, 38, 39, 40,
     41, 42, 43, 44, 45, 46, 47, 48, 49, 50, 51, -1, -1, -1, -1, -1] @ replicate 128 (-1)"

section \<open>Decoding\<close>

text \<open>The loop: \<open>i\<close> counts the alphabet bytes seen, \<open>out\<close> is \<^verbatim>\<open>d[0..len-1]\<close> and \<open>cur\<close> is
  \<^verbatim>\<open>d[len]\<close>, the octet being assembled. The stored \<^verbatim>\<open>unsigned char\<close> truncates the shifts.\<close>

fun base64_decode_loop :: "byte list \<Rightarrow> nat \<Rightarrow> byte list \<Rightarrow> byte \<Rightarrow> nat \<times> byte list" where
  "base64_decode_loop [] i out cur = (i, out)"
| "base64_decode_loop (c # s) i out cur =
     (let v = base64_reverse_table ! unat c in
      if v < 0 then base64_decode_loop s i out cur
      else let b = (word_of_int v :: byte) in
        if i mod 4 = 0 then base64_decode_loop s (i + 1) out (push_bit 2 b)
        else if i mod 4 = 1 then
          base64_decode_loop s (i + 1) (out @ [cur OR drop_bit 4 b]) (push_bit 4 b)
        else if i mod 4 = 2 then
          base64_decode_loop s (i + 1) (out @ [cur OR drop_bit 2 b]) (push_bit 6 b)
        else base64_decode_loop s (i + 1) (out @ [cur OR b]) cur)"

definition libssh2_base64_decode ::
  "session \<Rightarrow> byte list \<Rightarrow> nat \<Rightarrow> int \<times> byte list option \<times> session" where
  "libssh2_base64_decode s src src_len =
     (case libssh2_alloc s of
        (False, s1) \<Rightarrow>
          (let (rc, s2) = libssh2_error s1 LIBSSH2_ERROR_ALLOC
                            ''Unable to allocate memory for base64 decoding''
           in (rc, None, s2))
      | (True, s1) \<Rightarrow>
          (let (i, d) = base64_decode_loop (take src_len src) 0 [] 0 in
           if i mod 4 = 1 then
             (let (rc, s2) = libssh2_error s1 LIBSSH2_ERROR_INVAL ''Invalid base64''
              in (rc, None, s2))
           else (0, Some d, s1)))"

section \<open>Encoding\<close>

text \<open>One round of the encoding loop: up to three input bytes become four characters.\<close>

definition base64_quad :: "byte \<Rightarrow> byte \<Rightarrow> byte \<Rightarrow> byte \<times> byte \<times> byte \<times> byte" where
  "base64_quad i0 i1 i2 =
     (drop_bit 2 (i0 AND 0xFC),
      push_bit 4 (i0 AND 0x03) OR drop_bit 4 (i1 AND 0xF0),
      push_bit 2 (i1 AND 0x0F) OR drop_bit 6 (i2 AND 0xC0),
      i2 AND 0x3F)"

definition t64 :: "byte \<Rightarrow> byte" where
  "t64 o6 = table64 ! unat o6"

fun base64_encode_loop :: "byte list \<Rightarrow> byte list" where
  "base64_encode_loop [] = []"
| "base64_encode_loop [a] =
     (case base64_quad a 0 0 of (o0, o1, o2, o3) \<Rightarrow> [t64 o0, t64 o1] @ cstr ''=='')"
| "base64_encode_loop [a, b] =
     (case base64_quad a b 0 of (o0, o1, o2, o3) \<Rightarrow> [t64 o0, t64 o1, t64 o2] @ cstr ''='')"
| "base64_encode_loop (a # b # c # r) =
     (case base64_quad a b c of
        (o0, o1, o2, o3) \<Rightarrow> [t64 o0, t64 o1, t64 o2, t64 o3] @ base64_encode_loop r)"

text \<open>\<open>inp\<close> is the memory at the input pointer; a zero \<open>insize\<close> means a C string. The result is
  the returned length and the allocated string.\<close>

definition libssh2_base64_encode ::
  "session \<Rightarrow> byte list \<Rightarrow> nat \<Rightarrow> nat \<times> byte list option \<times> session" where
  "libssh2_base64_encode s inp insize =
     (let n = (if insize = 0 then strlen inp else insize) in
      case libssh2_alloc s of
        (False, s1) \<Rightarrow> (0, None, s1)
      | (True, s1) \<Rightarrow>
          (let out = base64_encode_loop (take n inp) in (strlen out, Some out, s1)))"

section \<open>The alphabet\<close>

lemma length_reverse_table [simp]: "length base64_reverse_table = 256"
  by (simp add: base64_reverse_table_def)

lemma reverse_table64_map:
  "map (\<lambda>c. base64_reverse_table ! unat c) table64 = map int [0..<64]"
  by (simp add: table64_def base64_reverse_table_def nth_append upt_rec [of _ "numeral _"] nth_Cons')

lemma length_table64 [simp]: "length table64 = 64"
  by (simp add: table64_def)

lemma reverse_table64: "n < 64 \<Longrightarrow> base64_reverse_table ! unat (table64 ! n) = int n"
proof -
  assume n: "n < 64"
  have "map (\<lambda>c. base64_reverse_table ! unat c) table64 ! n = map int [0..<64] ! n"
    by (simp only: reverse_table64_map)
  with n show ?thesis by simp
qed

lemma table64_nul_free: "nul_free table64"
  by (simp add: table64_def)

lemma t64_nonzero: "unat x < 64 \<Longrightarrow> t64 x \<noteq> 0"
  using table64_nul_free nth_mem [of "unat x" table64] by (fastforce simp: t64_def nul_free_def)

lemma reverse_t64: "unat x < 64 \<Longrightarrow> base64_reverse_table ! unat (t64 x) = int (unat x)"
  by (simp add: t64_def reverse_table64)

lemma reverse_table_pad: "base64_reverse_table ! 61 = -1"
  by (simp add: base64_reverse_table_def nth_append)

section \<open>Six-bit groups\<close>

lemma less_8: "n < 8 \<longleftrightarrow> n = 0 \<or> n = 1 \<or> n = 2 \<or> n = 3 \<or> n = 4 \<or> n = 5 \<or> n = 6 \<or> n = (7 :: nat)"
  by auto

lemma byte_eqI:
  "(\<forall>n\<in>{0, 1, 2, 3, 4, 5, 6, 7}. bit x n = bit y n) \<Longrightarrow> x = (y :: byte)"
  by (rule bit_word_eqI) (auto simp: less_8)

lemma bit_small_Suc: "bit x (Suc (Suc 0)) = bit x 2" "bit x (Suc (Suc (Suc 0))) = bit x 3"
  by (simp_all add: numeral_2_eq_2 numeral_3_eq_3)

lemma quad_bytes:
  "base64_quad a b c = (o0, o1, o2, o3) \<Longrightarrow> push_bit 2 o0 OR drop_bit 4 o1 = a"
  "base64_quad a b c = (o0, o1, o2, o3) \<Longrightarrow> push_bit 4 o1 OR drop_bit 2 o2 = b"
  "base64_quad a b c = (o0, o1, o2, o3) \<Longrightarrow> push_bit 6 o2 OR o3 = c"
  by (rule byte_eqI; auto simp: base64_quad_def bit_simps bit_small_Suc)+

lemma unat_six_bits: "x AND 0x3F = x \<Longrightarrow> unat (x :: byte) < 64"
proof -
  assume "x AND 0x3F = x"
  then have "take_bit 6 x = x" by (simp add: take_bit_eq_mask mask_eq_exp_minus_1)
  then have "unat x = take_bit 6 (unat x)" by (metis unsigned_take_bit_eq)
  then have "unat x = unat x mod 2 ^ 6" by (simp only: take_bit_eq_mod)
  also have "\<dots> < 2 ^ 6" by (rule mod_less_divisor) simp
  finally show ?thesis by simp
qed

lemma quad_six_bits:
  assumes "base64_quad a b c = (o0, o1, o2, o3)"
  shows "unat o0 < 64" "unat o1 < 64" "unat o2 < 64" "unat o3 < 64"
  using assms
  by (auto intro!: unat_six_bits byte_eqI simp: base64_quad_def bit_simps bit_small_Suc)

lemma decode_t64:
  assumes "unat x < 64"
  shows "base64_decode_loop (t64 x # s) i out cur =
    (if i mod 4 = 0 then base64_decode_loop s (i + 1) out (push_bit 2 x)
     else if i mod 4 = 1 then base64_decode_loop s (i + 1) (out @ [cur OR drop_bit 4 x]) (push_bit 4 x)
     else if i mod 4 = 2 then base64_decode_loop s (i + 1) (out @ [cur OR drop_bit 2 x]) (push_bit 6 x)
     else base64_decode_loop s (i + 1) (out @ [cur OR x]) cur)"
  using assms by (simp add: reverse_t64)

lemma decode_pad: "base64_decode_loop (61 # s) i out cur = base64_decode_loop s i out cur"
  by (simp add: reverse_table_pad)

declare base64_decode_loop.simps(2) [simp del]

lemma decode_encode_loop:
  "i mod 4 = 0 \<Longrightarrow>
   snd (base64_decode_loop (base64_encode_loop bs) i out cur) = out @ bs \<and>
   fst (base64_decode_loop (base64_encode_loop bs) i out cur) mod 4 =
     (if length bs mod 3 = 0 then 0 else length bs mod 3 + 1)"
proof (induction bs arbitrary: i out cur rule: list_induct_triples)
  case Nil
  then show ?case by simp
next
  case (one a)
  obtain o0 o1 o2 o3 where q: "base64_quad a 0 0 = (o0, o1, o2, o3)" by (metis prod_cases4)
  from one have "Suc i mod 4 = 1" "Suc (Suc i) mod 4 = 2" by presburger+
  with one show ?case
    by (simp add: q decode_t64 decode_pad quad_six_bits [OF q] quad_bytes [OF q])
next
  case (two a b)
  obtain o0 o1 o2 o3 where q: "base64_quad a b 0 = (o0, o1, o2, o3)" by (metis prod_cases4)
  from two have "Suc i mod 4 = 1" "Suc (Suc i) mod 4 = 2" "Suc (Suc (Suc i)) mod 4 = 3"
    by presburger+
  with two show ?case
    by (simp add: q decode_t64 decode_pad quad_six_bits [OF q] quad_bytes [OF q])
next
  case (three a b c r)
  obtain o0 o1 o2 o3 where q: "base64_quad a b c = (o0, o1, o2, o3)" by (metis prod_cases4)
  from three.prems have i: "Suc i mod 4 = 1" "Suc (Suc i) mod 4 = 2" "Suc (Suc (Suc i)) mod 4 = 3"
    "Suc (Suc (Suc (Suc i))) mod 4 = 0" by presburger+
  have "length (a # b # c # r) = length r + 3" by simp
  then have len: "length (a # b # c # r) mod 3 = length r mod 3"
    by (simp only: mod_add_self2)
  show ?case
    using three.prems i three.IH [OF i(4)]
    by (simp add: q decode_t64 quad_six_bits [OF q] quad_bytes [OF q] len del: length_Cons)
qed

text \<open>The encoder never emits a NUL, so its result is the C string whose length it returns.\<close>

lemma t64_quad_nonzero:
  assumes "base64_quad a b c = (o0, o1, o2, o3)"
  shows "t64 o0 \<noteq> 0" "t64 o1 \<noteq> 0" "t64 o2 \<noteq> 0" "t64 o3 \<noteq> 0"
  using quad_six_bits [OF assms] by (simp_all add: t64_nonzero)

lemma encode_nul_free: "nul_free (base64_encode_loop bs)"
  by (induction bs rule: list_induct_triples) (auto split: prod.splits dest: t64_quad_nonzero)

lemma length_encode: "length (base64_encode_loop bs) = 4 * ((length bs + 2) div 3)"
proof (induction bs rule: list_induct_triples)
  case (three a b c r)
  have "length (a # b # c # r) + 2 = length r + 2 + 3" by simp
  then have "(length (a # b # c # r) + 2) div 3 = (length r + 2) div 3 + 1"
    by (simp only: div_add_self2)
  moreover have "length (base64_encode_loop (a # b # c # r)) = 4 + length (base64_encode_loop r)"
    by (simp split: prod.split)
  ultimately show ?case using three by (simp only: distrib_left)
qed (auto split: prod.splits)

lemma encode_eq_Nil [simp]: "base64_encode_loop bs = [] \<longleftrightarrow> bs = []"
  by (induction bs rule: list_induct_triples) (auto split: prod.splits)

section \<open>The decoder and its buffer\<close>

text \<open>\<open>len\<close> octets are complete after \<open>i\<close> alphabet bytes, and the octet being assembled is at
  index \<open>len\<close>, so the highest index written is below \<open>3 * i div 4 + 1\<close>.\<close>

lemma base64_decode_loop_count:
  "length out = 3 * i div 4 \<Longrightarrow>
   length (snd (base64_decode_loop s i out cur)) = 3 * fst (base64_decode_loop s i out cur) div 4 \<and>
   fst (base64_decode_loop s i out cur) \<le> i + length s"
proof (induction s arbitrary: i out cur)
  case Nil
  then show ?case by simp
next
  case (Cons c s)
  have 0: "i mod 4 = 0 \<Longrightarrow> 3 * Suc i div 4 = 3 * i div 4" by presburger
  have n0: "i mod 4 \<noteq> 0 \<Longrightarrow> 3 * Suc i div 4 = Suc (3 * i div 4)" by presburger
  have IH: "length out' = 3 * j div 4 \<Longrightarrow>
     length (snd (base64_decode_loop s j out' cur')) = 3 * fst (base64_decode_loop s j out' cur') div 4
     \<and> fst (base64_decode_loop s j out' cur') \<le> j + length s" for j out' cur'
    by (rule Cons.IH)
  show ?case
    using Cons.prems IH [of out i cur] IH [of _ "Suc i"] 0 n0
    by (auto simp: base64_decode_loop.simps(2) Let_def intro: le_trans)
qed

lemma base64_decode_loop_alphabet:
  "fst (base64_decode_loop s i out cur) =
     i + length (filter (\<lambda>c. 0 \<le> base64_reverse_table ! unat c) s)"
  by (induction s arbitrary: i out cur) (auto simp: base64_decode_loop.simps(2) Let_def)





end
