(* ===== verification/Knownhost.thy ===== *)
theory Knownhost
  imports Base64
begin

text \<open>
  The known-host store of \<^verbatim>\<open>libssh2/src/knownhost.c\<close>: the collection of host keys, adding,
  checking, deleting and enumerating entries, and the OpenSSH \<^verbatim>\<open>known_hosts\<close> line format in both
  directions.

  The collection is the sequence its intrusive list represents (theory \<open>Linked_List\<close>); an entry
  carries the address of its node, which is what an external \<^verbatim>\<open>struct libssh2_knownhost\<close> points
  to. A line is given as the bytes before its NUL; a pointer into it is the rest of the line.
  A key or comment argument is the memory readable at its pointer up to a terminating byte, with
  its length given apart as in C (\<^verbatim>\<open>knownhost_add\<close> copies one byte more than that length). HMAC-SHA1 is OpenSSL's and a parameter of the check, and the files of the two file
  operations are their contents and the outcomes of \<^verbatim>\<open>fopen\<close> and \<^verbatim>\<open>fwrite\<close>. \<open>None\<close> of type
  \<open>'a ub\<close> stands for a read past the given memory or through a NULL pointer.
\<close>

section \<open>Data\<close>

abbreviation (input) "KNOWNHOST_TYPE_MASK \<equiv> 0xFFFF :: u32"
abbreviation (input) "KNOWNHOST_TYPE_PLAIN \<equiv> 1 :: u32"
abbreviation (input) "KNOWNHOST_TYPE_SHA1 \<equiv> 2 :: u32"
abbreviation (input) "KNOWNHOST_TYPE_CUSTOM \<equiv> 3 :: u32"
abbreviation (input) "KNOWNHOST_KEYENC_BASE64 \<equiv> 0x20000 :: u32"
abbreviation (input) "KNOWNHOST_KEY_MASK \<equiv> 0xC0000 :: u32"
abbreviation (input) "KNOWNHOST_KEY_RSA1 \<equiv> 0x40000 :: u32"
abbreviation (input) "KNOWNHOST_KEY_SSHRSA \<equiv> 0x80000 :: u32"
abbreviation (input) "KNOWNHOST_KEY_SSHDSS \<equiv> 0xC0000 :: u32"
abbreviation (input) "KNOWNHOST_FILE_OPENSSH \<equiv> 1 :: int"
abbreviation (input) "KNOWNHOST_MAGIC \<equiv> 0xdeadcafe :: u32"
abbreviation (input) "SHA_DIGEST_LENGTH \<equiv> 20 :: nat"

abbreviation (input) "KNOWNHOST_CHECK_MATCH \<equiv> 0 :: int"
abbreviation (input) "KNOWNHOST_CHECK_MISMATCH \<equiv> 1 :: int"
abbreviation (input) "KNOWNHOST_CHECK_NOTFOUND \<equiv> 2 :: int"
abbreviation (input) "KNOWNHOST_CHECK_FAILURE \<equiv> 3 :: int"

record known_host =
  kh_node :: nat
  kh_name :: "byte list"
  kh_name_len :: nat
  kh_typemask :: u32
  kh_salt :: "byte list option"
  kh_key :: "byte list"
  kh_comment :: "byte list option"

record knownhosts =
  kh_session :: session
  kh_list :: "known_host list"
  kh_fresh :: nat   \<comment> \<open>the address the next node is allocated at\<close>

record knownhost_ext =
  x_magic :: u32
  x_node :: nat
  x_name :: "byte list option"
  x_key :: "byte list"
  x_typemask :: u32

definition host_type :: "u32 \<Rightarrow> u32" where
  "host_type m = m AND KNOWNHOST_TYPE_MASK"

definition libssh2_knownhost_init :: "session \<Rightarrow> knownhosts option \<times> session" where
  "libssh2_knownhost_init s =
     (case libssh2_alloc s of
        (False, s1) \<Rightarrow>
          (None, snd (libssh2_error s1 LIBSSH2_ERROR_ALLOC
                        ''Unable to allocate memory for known-hosts collection''))
      | (True, s1) \<Rightarrow> (Some \<lparr>kh_session = s1, kh_list = [], kh_fresh = 1\<rparr>, s1))"

definition knownhost_to_external :: "known_host \<Rightarrow> knownhost_ext" where
  "knownhost_to_external node =
     \<lparr>x_magic = KNOWNHOST_MAGIC, x_node = kh_node node,
      x_name = (if host_type (kh_typemask node) = KNOWNHOST_TYPE_PLAIN
                then Some (kh_name node) else None),
      x_key = kh_key node, x_typemask = kh_typemask node\<rparr>"

section \<open>Adding an entry\<close>

text \<open>The \<^verbatim>\<open>switch\<close> on the name type: the stored name with its length, and the salt.\<close>

definition knownhost_add_name ::
  "session \<Rightarrow> byte list \<Rightarrow> byte list option \<Rightarrow> u32 \<Rightarrow>
   (int \<times> (byte list \<times> nat \<times> byte list option) option \<times> session) ub" where
  "knownhost_add_name s host salt typemask =
     (let t = host_type typemask; hostlen = strlen host in
      if t = KNOWNHOST_TYPE_PLAIN \<or> t = KNOWNHOST_TYPE_CUSTOM then
        (case libssh2_alloc s of
           (False, s1) \<Rightarrow>
             (let (rc, s2) = libssh2_error s1 LIBSSH2_ERROR_ALLOC
                               ''Unable to allocate memory for host name''
              in Some (rc, None, s2))
         | (True, s1) \<Rightarrow> Some (0, Some (take hostlen host, 0, None), s1))
      else if t = KNOWNHOST_TYPE_SHA1 then
        (case libssh2_base64_decode s host hostlen of
           (rc, None, s1) \<Rightarrow> Some (rc, None, s1)
         | (rc, Some nm, s1) \<Rightarrow>
             (case salt of
                None \<Rightarrow> None
              | Some sl \<Rightarrow>
                  (case libssh2_base64_decode s1 sl (strlen sl) of
                     (rc, None, s2) \<Rightarrow> Some (rc, None, s2)
                   | (rc, Some slt, s2) \<Rightarrow> Some (0, Some (nm, length nm, Some slt), s2))))
      else
        (let (rc, s1) = libssh2_error s LIBSSH2_ERROR_METHOD_NOT_SUPPORTED ''Unknown host name type''
         in Some (rc, None, s1)))"

definition knownhost_add_key ::
  "session \<Rightarrow> byte list \<Rightarrow> nat \<Rightarrow> u32 \<Rightarrow> int \<times> byte list option \<times> session" where
  "knownhost_add_key s key keylen typemask =
     (if typemask AND KNOWNHOST_KEYENC_BASE64 \<noteq> 0 then
        (let klen = (if keylen = 0 then strlen key else keylen) in
         case libssh2_alloc s of
           (False, s1) \<Rightarrow>
             (let (rc, s2) = libssh2_error s1 LIBSSH2_ERROR_ALLOC
                               ''Unable to allocate memory for key''
              in (rc, None, s2))
         | (True, s1) \<Rightarrow> (0, Some (take klen key), s1))
      else
        (case libssh2_base64_encode s key keylen of
           (nlen, enc, s1) \<Rightarrow>
             if nlen = 0 then
               (let (rc, s2) = libssh2_error s1 LIBSSH2_ERROR_ALLOC
                                 ''Unable to allocate memory for base64-encoded key''
                in (rc, None, s2))
             else (0, enc, s1)))"

definition knownhost_add_comment ::
  "session \<Rightarrow> byte list option \<Rightarrow> nat \<Rightarrow> int \<times> byte list option \<times> session" where
  "knownhost_add_comment s comment commentlen =
     (case comment of
        None \<Rightarrow> (0, None, s)
      | Some c \<Rightarrow>
          (case libssh2_alloc s of
             (False, s1) \<Rightarrow>
               (let (rc, s2) = libssh2_error s1 LIBSSH2_ERROR_ALLOC
                                 ''Unable to allocate memory for comment''
                in (rc, None, s2))
           | (True, s1) \<Rightarrow> (0, Some (take commentlen c), s1)))"

definition knownhost_add ::
  "knownhosts \<Rightarrow> byte list \<Rightarrow> byte list option \<Rightarrow> byte list \<Rightarrow> nat \<Rightarrow> byte list option \<Rightarrow> nat \<Rightarrow>
   u32 \<Rightarrow> (int \<times> knownhost_ext option \<times> knownhosts) ub" where
  "knownhost_add hosts host salt key keylen comment commentlen typemask =
     (let s = kh_session hosts in
      if typemask AND KNOWNHOST_KEY_MASK = 0 then
        (let (rc, s1) = libssh2_error s LIBSSH2_ERROR_INVAL ''No key type set''
         in Some (rc, None, hosts\<lparr>kh_session := s1\<rparr>))
      else case libssh2_alloc s of
        (False, s1) \<Rightarrow>
          (let (rc, s2) = libssh2_error s1 LIBSSH2_ERROR_ALLOC
                            ''Unable to allocate memory for known host entry''
           in Some (rc, None, hosts\<lparr>kh_session := s2\<rparr>))
      | (True, s1) \<Rightarrow>
          (case knownhost_add_name s1 host salt typemask of
             None \<Rightarrow> None
           | Some (rc, None, s2) \<Rightarrow> Some (rc, None, hosts\<lparr>kh_session := s2\<rparr>)
           | Some (_, Some (nm, nmlen, slt), s2) \<Rightarrow>
               if keylen > length key then None
               else (case knownhost_add_key s2 key keylen typemask of
                  (rc, None, s3) \<Rightarrow> Some (rc, None, hosts\<lparr>kh_session := s3\<rparr>)
                | (_, Some k, s3) \<Rightarrow>
                    if (case comment of None \<Rightarrow> False | Some c \<Rightarrow> commentlen > length c) then None
                    else (case knownhost_add_comment s3 comment commentlen of
                       (rc, cm, s4) \<Rightarrow>
                         if rc \<noteq> 0 then Some (rc, None, hosts\<lparr>kh_session := s4\<rparr>)
                         else
                           (let entry = \<lparr>kh_node = kh_fresh hosts, kh_name = nm,
                                  kh_name_len = nmlen, kh_typemask = typemask, kh_salt = slt,
                                  kh_key = k, kh_comment = cm\<rparr>
                            in Some (LIBSSH2_ERROR_NONE, Some (knownhost_to_external entry),
                                 hosts\<lparr>kh_session := s4, kh_list := kh_list hosts @ [entry],
                                       kh_fresh := Suc (kh_fresh hosts)\<rparr>))))))"

definition libssh2_knownhost_add ::
  "knownhosts \<Rightarrow> byte list \<Rightarrow> byte list option \<Rightarrow> byte list \<Rightarrow> nat \<Rightarrow> u32 \<Rightarrow>
   (int \<times> knownhost_ext option \<times> knownhosts) ub" where
  "libssh2_knownhost_add hosts host salt key keylen typemask =
     knownhost_add hosts host salt key keylen None 0 typemask"

definition libssh2_knownhost_addc ::
  "knownhosts \<Rightarrow> byte list \<Rightarrow> byte list option \<Rightarrow> byte list \<Rightarrow> nat \<Rightarrow> byte list option \<Rightarrow> nat \<Rightarrow>
   u32 \<Rightarrow> (int \<times> knownhost_ext option \<times> knownhosts) ub" where
  "libssh2_knownhost_addc hosts host salt key keylen comment commentlen typemask =
     knownhost_add hosts host salt key keylen comment commentlen typemask"

section \<open>Checking a host\<close>

text \<open>\<^verbatim>\<open>%d\<close> of a non-negative number.\<close>

fun dec_digits :: "nat \<Rightarrow> byte list" where
  "dec_digits n = (if n < 10 then [word_of_nat (48 + n)]
                   else dec_digits (n div 10) @ [word_of_nat (48 + n mod 10)])"

declare dec_digits.simps [simp del]

type_synonym hmac_fun = "byte list \<Rightarrow> byte list \<Rightarrow> byte list"

text \<open>The \<^verbatim>\<open>switch\<close> of the inner loop: the new value of \<^verbatim>\<open>match\<close>.\<close>

definition node_match :: "hmac_fun \<Rightarrow> u32 \<Rightarrow> byte list \<Rightarrow> known_host \<Rightarrow> bool \<Rightarrow> bool" where
  "node_match hmac type host node match =
     (let t = host_type (kh_typemask node) in
      if t = KNOWNHOST_TYPE_PLAIN then
        (if type = KNOWNHOST_TYPE_PLAIN then cstring host = cstring (kh_name node) else match)
      else if t = KNOWNHOST_TYPE_CUSTOM then
        (if type = KNOWNHOST_TYPE_CUSTOM then cstring host = cstring (kh_name node) else match)
      else if t = KNOWNHOST_TYPE_SHA1 then
        (if type = KNOWNHOST_TYPE_PLAIN then
           (if SHA_DIGEST_LENGTH \<noteq> kh_name_len node then match
            else if take SHA_DIGEST_LENGTH
                      (hmac (case kh_salt node of None \<Rightarrow> [] | Some x \<Rightarrow> x) (cstring host))
                    = take SHA_DIGEST_LENGTH (kh_name node)
                 then True else match)
         else match)
      else match)"

text \<open>One pass over the collection: \<^verbatim>\<open>match\<close>, \<^verbatim>\<open>badkey\<close> and the node whose key matched.\<close>

fun check_pass ::
  "hmac_fun \<Rightarrow> u32 \<Rightarrow> byte list \<Rightarrow> byte list \<Rightarrow> known_host list \<Rightarrow> bool \<Rightarrow> known_host option \<Rightarrow>
   bool \<times> known_host option \<times> known_host option" where
  "check_pass hmac type host key [] match badkey = (match, badkey, None)"
| "check_pass hmac type host key (node # nodes) match badkey =
     (let match' = node_match hmac type host node match in
      if match' then
        (if cstring key = cstring (kh_key node) then (True, None, Some node)
         else check_pass hmac type host key nodes False
                (case badkey of None \<Rightarrow> Some node | Some b \<Rightarrow> Some b))
      else check_pass hmac type host key nodes match' badkey)"

definition check_hostbuff :: "byte list \<Rightarrow> int \<Rightarrow> byte list" where
  "check_hostbuff hostp port =
     take 269 (cstr ''['' @ cstring hostp @ cstr '']:'' @ dec_digits (nat port))"

definition knownhost_check ::
  "hmac_fun \<Rightarrow> knownhosts \<Rightarrow> byte list \<Rightarrow> int \<Rightarrow> byte list \<Rightarrow> nat \<Rightarrow> u32 \<Rightarrow>
   int \<times> knownhost_ext option \<times> knownhosts" where
  "knownhost_check hmac hosts hostp port key keylen typemask =
     (let type = host_type typemask in
      if type = KNOWNHOST_TYPE_SHA1 then (KNOWNHOST_CHECK_MISMATCH, None, hosts)
      else
        let (failed, k, hosts1) =
          (if typemask AND KNOWNHOST_KEYENC_BASE64 = 0 then
             (case libssh2_base64_encode (kh_session hosts) key keylen of
                (nlen, enc, s1) \<Rightarrow>
                  if nlen = 0 then
                    (True, [], hosts\<lparr>kh_session := snd (libssh2_error s1 LIBSSH2_ERROR_ALLOC
                                 ''Unable to allocate memory for base64-encoded key'')\<rparr>)
                  else (False, the enc, hosts\<lparr>kh_session := s1\<rparr>))
           else (False, key, hosts))
        in if failed then (KNOWNHOST_CHECK_FAILURE, None, hosts1)
           else
             let (match1, bad1, hit1) =
                   check_pass hmac type (if port \<ge> 0 then check_hostbuff hostp port else hostp)
                     k (kh_list hosts1) False None;
                 (match2, bad2, hit2) =
                   (if \<not> match1 \<and> port \<ge> 0
                    then check_pass hmac type hostp k (kh_list hosts1) match1 bad1
                    else (match1, bad1, hit1))
             in case bad2 of
                  Some b \<Rightarrow> (KNOWNHOST_CHECK_MISMATCH, Some (knownhost_to_external b), hosts1)
                | None \<Rightarrow>
                    (case hit2 of
                       Some n \<Rightarrow> (KNOWNHOST_CHECK_MATCH, Some (knownhost_to_external n), hosts1)
                     | None \<Rightarrow> (KNOWNHOST_CHECK_NOTFOUND, None, hosts1)))"

definition libssh2_knownhost_check ::
  "hmac_fun \<Rightarrow> knownhosts \<Rightarrow> byte list \<Rightarrow> byte list \<Rightarrow> nat \<Rightarrow> u32 \<Rightarrow>
   int \<times> knownhost_ext option \<times> knownhosts" where
  "libssh2_knownhost_check hmac hosts hostp key keylen typemask =
     knownhost_check hmac hosts hostp (-1) key keylen typemask"

definition libssh2_knownhost_checkp ::
  "hmac_fun \<Rightarrow> knownhosts \<Rightarrow> byte list \<Rightarrow> int \<Rightarrow> byte list \<Rightarrow> nat \<Rightarrow> u32 \<Rightarrow>
   int \<times> knownhost_ext option \<times> knownhosts" where
  "libssh2_knownhost_checkp hmac hosts hostp port key keylen typemask =
     knownhost_check hmac hosts hostp port key keylen typemask"

section \<open>Deleting, freeing and enumerating\<close>

text \<open>The external structure is cleared when its node is removed.\<close>

definition ext_cleared :: knownhost_ext where
  "ext_cleared = \<lparr>x_magic = 0, x_node = 0, x_name = None, x_key = [], x_typemask = 0\<rparr>"

definition libssh2_knownhost_del ::
  "knownhosts \<Rightarrow> knownhost_ext option \<Rightarrow> int \<times> knownhost_ext option \<times> knownhosts" where
  "libssh2_knownhost_del hosts entry =
     (case entry of
        None \<Rightarrow>
          (let (rc, s) = libssh2_error (kh_session hosts) LIBSSH2_ERROR_INVAL
                           ''Invalid host information''
           in (rc, None, hosts\<lparr>kh_session := s\<rparr>))
      | Some e \<Rightarrow>
          if x_magic e \<noteq> KNOWNHOST_MAGIC then
            (let (rc, s) = libssh2_error (kh_session hosts) LIBSSH2_ERROR_INVAL
                             ''Invalid host information''
             in (rc, Some e, hosts\<lparr>kh_session := s\<rparr>))
          else (0, Some ext_cleared,
                hosts\<lparr>kh_list := filter (\<lambda>n. kh_node n \<noteq> x_node e) (kh_list hosts)\<rparr>))"

text \<open>The nodes \<^verbatim>\<open>free_host\<close> is called on, in order; the collection itself is freed last.\<close>

definition libssh2_knownhost_free :: "knownhosts \<Rightarrow> nat list" where
  "libssh2_knownhost_free hosts = map kh_node (kh_list hosts)"

text \<open>\<^verbatim>\<open>_libssh2_list_next\<close> of a node given by its address.\<close>

fun next_of :: "nat \<Rightarrow> known_host list \<Rightarrow> known_host option" where
  "next_of a [] = None"
| "next_of a [n] = None"
| "next_of a (n # m # ns) = (if kh_node n = a then Some m else next_of a (m # ns))"

definition libssh2_knownhost_get ::
  "knownhosts \<Rightarrow> knownhost_ext option \<Rightarrow> int \<times> knownhost_ext option" where
  "libssh2_knownhost_get hosts oprev =
     (let node = (case oprev of
                    Some e \<Rightarrow> if x_node e \<noteq> 0 then next_of (x_node e) (kh_list hosts)
                              else (case kh_list hosts of [] \<Rightarrow> None | n # _ \<Rightarrow> Some n)
                  | None \<Rightarrow> (case kh_list hosts of [] \<Rightarrow> None | n # _ \<Rightarrow> Some n))
      in case node of
           None \<Rightarrow> (1, None)
         | Some n \<Rightarrow> (0, Some (knownhost_to_external n)))"

section \<open>Reading lines and files\<close>

text \<open>The scanning loops \<^verbatim>\<open>while(len && *cp && P(*cp)) { cp++; len--; }\<close>.\<close>

fun scan :: "(byte \<Rightarrow> bool) \<Rightarrow> byte list \<Rightarrow> nat \<Rightarrow> byte list \<times> nat" where
  "scan P [] len = ([], len)"
| "scan P (c # cp) len =
     (if len \<noteq> 0 \<and> c \<noteq> 0 \<and> P c then scan P cp (len - 1) else (c # cp, len))"

definition is_blank :: "byte \<Rightarrow> bool" where
  "is_blank c \<longleftrightarrow> c = of_char CHR '' '' \<or> c = 9"

text \<open>The loop runs from the end of the host part, so it takes the part reversed; \<open>nm\<close> holds
  the \<^verbatim>\<open>namelen\<close> bytes at \<^verbatim>\<open>name\<close>.\<close>

function oldstyle_loop ::
  "byte list \<Rightarrow> nat \<Rightarrow> u32 \<Rightarrow> byte list option \<Rightarrow> nat \<Rightarrow> knownhosts \<Rightarrow> byte list \<Rightarrow> byte list \<Rightarrow>
   (int \<times> knownhosts) ub" where
  "oldstyle_loop key keylen key_type comment commentlen hosts [] nm = Some (0, hosts)"
| "oldstyle_loop key keylen key_type comment commentlen hosts (c # before) nm =
     (let name = c # nm in
      if before = [] \<or> hd before = of_char CHR '','' then
        (if length name \<ge> 255 then
           (let (rc, s) = libssh2_error (kh_session hosts) LIBSSH2_ERROR_METHOD_NOT_SUPPORTED
                            ''Failed to parse known_hosts line (unexpected length)''
            in Some (rc, hosts\<lparr>kh_session := s\<rparr>))
         else
           (case knownhost_add hosts (cstring name) None key keylen comment commentlen
                   (key_type OR KNOWNHOST_TYPE_PLAIN OR KNOWNHOST_KEYENC_BASE64) of
              None \<Rightarrow> None
            | Some (rc, _, hosts') \<Rightarrow>
                if rc \<noteq> 0 then Some (rc, hosts')
                else oldstyle_loop key keylen key_type comment commentlen hosts' (tl before) []))
      else oldstyle_loop key keylen key_type comment commentlen hosts before name)"
  by pat_completeness auto
termination
  by (relation "measure (\<lambda>(_, _, _, _, _, _, before, _). length before)") auto

definition oldstyle_hostline ::
  "knownhosts \<Rightarrow> byte list \<Rightarrow> nat \<Rightarrow> byte list \<Rightarrow> nat \<Rightarrow> u32 \<Rightarrow> byte list option \<Rightarrow> nat \<Rightarrow>
   (int \<times> knownhosts) ub" where
  "oldstyle_hostline hosts host hostlen key keylen key_type comment commentlen =
     (if hostlen < 1 then
        (let (rc, s) = libssh2_error (kh_session hosts) LIBSSH2_ERROR_METHOD_NOT_SUPPORTED
                         ''Failed to parse known_hosts line (no host names)''
         in Some (rc, hosts\<lparr>kh_session := s\<rparr>))
      else oldstyle_loop key keylen key_type comment commentlen hosts (rev (take hostlen host)) [])"

definition hashed_hostline ::
  "knownhosts \<Rightarrow> byte list \<Rightarrow> nat \<Rightarrow> byte list \<Rightarrow> nat \<Rightarrow> u32 \<Rightarrow> byte list option \<Rightarrow> nat \<Rightarrow>
   (int \<times> knownhosts) ub" where
  "hashed_hostline hosts host hostlen key keylen key_type comment commentlen =
     (let salt = drop 3 host;
          hostlen1 = size_sub hostlen 3;
          saltbuf = takeWhile (\<lambda>c. c \<noteq> 0 \<and> c \<noteq> of_char CHR ''|'') salt;
          p = dropWhile (\<lambda>c. c \<noteq> 0 \<and> c \<noteq> of_char CHR ''|'') salt
      in if deref p = of_char CHR ''|'' then
           (if length saltbuf \<ge> 31 then
              (let (rc, s) = libssh2_error (kh_session hosts) LIBSSH2_ERROR_METHOD_NOT_SUPPORTED
                               ''Failed to parse known_hosts line (unexpectedly long salt)''
               in Some (rc, hosts\<lparr>kh_session := s\<rparr>))
            else
              (let hash = tl p; hostlen2 = size_sub hostlen1 (length saltbuf + 1) in
               if hostlen2 \<ge> 255 then
                 (let (rc, s) = libssh2_error (kh_session hosts) LIBSSH2_ERROR_METHOD_NOT_SUPPORTED
                                  ''Failed to parse known_hosts line (unexpected length)''
                  in Some (rc, hosts\<lparr>kh_session := s\<rparr>))
               else if hostlen2 > length hash then None
               else map_option (\<lambda>(rc, _, hosts'). (rc, hosts'))
                      (knownhost_add hosts (cstring (take hostlen2 hash)) (Some saltbuf) key keylen
                         comment commentlen
                         (key_type OR KNOWNHOST_TYPE_SHA1 OR KNOWNHOST_KEYENC_BASE64))))
         else Some (0, hosts))"

text \<open>The \<^verbatim>\<open>switch\<close> on the first byte of the key part: the key type, the key, its length and the
  comment with its length, or the error message.\<close>

definition hostline_key ::
  "byte list \<Rightarrow> nat \<Rightarrow> string + (u32 \<times> byte list \<times> nat \<times> byte list option \<times> nat)" where
  "hostline_key key keylen =
     (if of_char CHR ''0'' \<le> deref key \<and> deref key \<le> of_char CHR ''9'' then
        Inr (KNOWNHOST_KEY_RSA1, key, keylen, None, 0)
      else if deref key = of_char CHR ''s'' then
        (if take 7 key \<noteq> cstr ''ssh-dss'' \<and> take 7 key \<noteq> cstr ''ssh-rsa'' then
           Inl ''Unknown key type''
         else
           (let key_type = (if take 7 key = cstr ''ssh-dss'' then KNOWNHOST_KEY_SSHDSS
                            else KNOWNHOST_KEY_SSHRSA);
                key1 = dropWhile is_blank (drop 7 key);
                keylen1 = size_sub (size_sub keylen 7)
                            (length (takeWhile is_blank (drop 7 key)));
                (comment, commentlen) = scan (\<lambda>c. \<not> is_blank c) key1 keylen1;
                keylen2 = size_sub keylen1 commentlen
            in if commentlen = 0 then Inr (key_type, key1, keylen2, None, 0)
               else (let (comment', commentlen') = scan is_blank comment commentlen
                     in Inr (key_type, key1, keylen2, Some comment', commentlen'))))
      else Inl ''Unknown key format'')"

definition hostline ::
  "knownhosts \<Rightarrow> byte list \<Rightarrow> nat \<Rightarrow> byte list \<Rightarrow> nat \<Rightarrow> (int \<times> knownhosts) ub" where
  "hostline hosts host hostlen key keylen =
     (if keylen < 20 then
        (let (rc, s) = libssh2_error (kh_session hosts) LIBSSH2_ERROR_METHOD_NOT_SUPPORTED
                         ''Failed to parse known_hosts line (key too short)''
         in Some (rc, hosts\<lparr>kh_session := s\<rparr>))
      else case hostline_key key keylen of
        Inl msg \<Rightarrow>
          (let (rc, s) = libssh2_error (kh_session hosts) LIBSSH2_ERROR_METHOD_NOT_SUPPORTED msg
           in Some (rc, hosts\<lparr>kh_session := s\<rparr>))
      | Inr (key_type, key', keylen', comment, commentlen) \<Rightarrow>
          if hostlen > 2 \<and> take 3 host \<noteq> cstr ''|1|''
          then oldstyle_hostline hosts host hostlen key' keylen' key_type comment commentlen
          else hashed_hostline hosts host hostlen key' keylen' key_type comment commentlen)"

definition libssh2_knownhost_readline ::
  "knownhosts \<Rightarrow> byte list \<Rightarrow> nat \<Rightarrow> int \<Rightarrow> (int \<times> knownhosts) ub" where
  "libssh2_knownhost_readline hosts line len type =
     (if type \<noteq> KNOWNHOST_FILE_OPENSSH then
        (let (rc, s) = libssh2_error (kh_session hosts) LIBSSH2_ERROR_METHOD_NOT_SUPPORTED
                         ''Unsupported type of known-host information store''
         in Some (rc, hosts\<lparr>kh_session := s\<rparr>))
      else
        let (hostp, len1) = scan is_blank line len in
        if len1 = 0 \<or> deref hostp = 0 \<or> deref hostp = of_char CHR ''#'' \<or> deref hostp = 10
        then Some (LIBSSH2_ERROR_NONE, hosts)
        else
          let (cp, len2) = scan (\<lambda>c. \<not> is_blank c) hostp len1;
              hostlen = length hostp - length cp;
              (keyp, len3) = scan is_blank cp len2
          in if deref keyp = 0 \<or> len3 = 0 then
               (let (rc, s) = libssh2_error (kh_session hosts) LIBSSH2_ERROR_METHOD_NOT_SUPPORTED
                                ''Failed to parse known_hosts line''
                in Some (rc, hosts\<lparr>kh_session := s\<rparr>))
             else
               let (cp', len4) = scan (\<lambda>c. c \<noteq> 10) keyp len3;
                   keylen = (if deref cp' = 10 then len3 - 1 else len3)
               in hostline hosts hostp hostlen keyp keylen)"

text \<open>\<^verbatim>\<open>fgets(buf, 2048, file)\<close>: at most 2047 bytes, up to and including a newline.\<close>

definition fgets_buf :: "byte list \<Rightarrow> byte list \<times> byte list" where
  "fgets_buf f =
     (let l = takeWhile (\<lambda>c. c \<noteq> 10) f;
          n = min 2047 (if length l < length f then length l + 1 else length l)
      in (take n f, drop n f))"

lemma fgets_buf_shorter: "f \<noteq> [] \<Longrightarrow> length (snd (fgets_buf f)) < length f"
  by (cases f) (auto simp: fgets_buf_def Let_def length_takeWhile_le min_def)

function readfile_loop :: "knownhosts \<Rightarrow> byte list \<Rightarrow> int \<Rightarrow> int \<Rightarrow> (int \<times> knownhosts) ub" where
  "readfile_loop hosts f type num =
     (if f = [] then Some (num, hosts)
      else let (b, f') = fgets_buf f in
           case libssh2_knownhost_readline hosts (cstring b) (strlen b) type of
             None \<Rightarrow> None
           | Some (rc, hosts') \<Rightarrow>
               if rc \<noteq> 0 then Some (num, hosts') else readfile_loop hosts' f' type (num + 1))"
  by pat_completeness auto
termination
  by (relation "measure (\<lambda>(_, f, _, _). length f)") (simp_all, metis fgets_buf_shorter snd_conv)

declare readfile_loop.simps [simp del]

text \<open>\<open>file\<close> is what \<^verbatim>\<open>fopen\<close> gives: the contents of the file, or \<open>None\<close>.\<close>

definition libssh2_knownhost_readfile ::
  "knownhosts \<Rightarrow> byte list option \<Rightarrow> int \<Rightarrow> (int \<times> knownhosts) ub" where
  "libssh2_knownhost_readfile hosts file type =
     (if type \<noteq> KNOWNHOST_FILE_OPENSSH then
        (let (rc, s) = libssh2_error (kh_session hosts) LIBSSH2_ERROR_METHOD_NOT_SUPPORTED
                         ''Unsupported type of known-host information store''
         in Some (rc, hosts\<lparr>kh_session := s\<rparr>))
      else case file of
        Some f \<Rightarrow> readfile_loop hosts f type 0
      | None \<Rightarrow>
          (let (rc, s) = libssh2_error (kh_session hosts) LIBSSH2_ERROR_FILE ''Failed to open file''
           in Some (rc, hosts\<lparr>kh_session := s\<rparr>)))"

section \<open>Writing lines and files\<close>

definition keytypes :: "byte list list" where
  "keytypes = [[], [], cstr '' ssh-rsa'', cstr '' ssh-dss'']"

definition key_tindex :: "u32 \<Rightarrow> nat" where
  "key_tindex typemask = unat (drop_bit 18 (typemask AND KNOWNHOST_KEY_MASK))"

text \<open>The text after the host part: key type, key and comment.\<close>

definition writeline_tail :: "known_host \<Rightarrow> byte list" where
  "writeline_tail node =
     keytypes ! key_tindex (kh_typemask node) @ cstr '' '' @ cstring (kh_key node) @
     (case kh_comment node of None \<Rightarrow> [] | Some c \<Rightarrow> cstr '' '' @ cstring c) @ [10]"

text \<open>The result is the return code, the line stored in the buffer, the value stored in
  \<^verbatim>\<open>*outlen\<close> and the session. An empty hash or salt would be encoded with length 0, which
  \<^verbatim>\<open>_libssh2_base64_encode\<close> takes for a C string.\<close>

definition knownhost_writeline ::
  "session \<Rightarrow> known_host \<Rightarrow> nat \<Rightarrow> int \<Rightarrow>
   (int \<times> byte list option \<times> nat option \<times> session) ub" where
  "knownhost_writeline s node buflen type =
     (if type \<noteq> KNOWNHOST_FILE_OPENSSH then
        (let (rc, s1) = libssh2_error s LIBSSH2_ERROR_METHOD_NOT_SUPPORTED
                          ''Unsupported type of known-host information store''
         in Some (rc, None, None, s1))
      else
        let keytype = keytypes ! key_tindex (kh_typemask node);
            commentlen = (case kh_comment node of None \<Rightarrow> 0 | Some c \<Rightarrow> strlen c + 1)
        in
        if host_type (kh_typemask node) = KNOWNHOST_TYPE_SHA1 then
          (case kh_salt node of
             None \<Rightarrow> None
           | Some salt \<Rightarrow>
             if salt = [] \<or> kh_name_len node = 0 \<or> length (kh_name node) < kh_name_len node then None
             else case libssh2_base64_encode s (kh_name node) (kh_name_len node) of
               (n1, namealloc, s1) \<Rightarrow>
                 if n1 = 0 then
                   (let (rc, s2) = libssh2_error s1 LIBSSH2_ERROR_ALLOC
                                     ''Unable to allocate memory for base64-encoded host name''
                    in Some (rc, None, None, s2))
                 else case libssh2_base64_encode s1 salt (length salt) of
                   (n2, saltalloc, s2) \<Rightarrow>
                     if n2 = 0 then
                       (let (rc, s3) = libssh2_error s2 LIBSSH2_ERROR_ALLOC
                                         ''Unable to allocate memory for base64-encoded salt''
                        in Some (rc, None, None, s3))
                     else
                       let nlen = strlen (the saltalloc) + strlen (the namealloc) + strlen keytype
                                  + strlen (kh_key node) + commentlen + 7
                       in if nlen \<le> buflen then
                            Some (LIBSSH2_ERROR_NONE,
                                  Some (cstr ''|1|'' @ the saltalloc @ cstr ''|'' @ the namealloc
                                        @ writeline_tail node), Some (nlen - 1), s2)
                          else
                            (let (rc, s3) = libssh2_error s2 LIBSSH2_ERROR_BUFFER_TOO_SMALL
                                              ''Known-host write buffer too small''
                             in Some (rc, None, Some (nlen - 1), s3)))
        else
          let nlen = strlen (kh_name node) + strlen keytype + strlen (kh_key node) + commentlen + 3
          in if nlen \<le> buflen then
               Some (LIBSSH2_ERROR_NONE, Some (cstring (kh_name node) @ writeline_tail node),
                     Some (nlen - 1), s)
             else
               (let (rc, s1) = libssh2_error s LIBSSH2_ERROR_BUFFER_TOO_SMALL
                                 ''Known-host write buffer too small''
                in Some (rc, None, Some (nlen - 1), s1)))"

text \<open>The external structure points to its node; a pointer to no node of the collection is
  undefined.\<close>

definition libssh2_knownhost_writeline ::
  "knownhosts \<Rightarrow> knownhost_ext \<Rightarrow> nat \<Rightarrow> int \<Rightarrow>
   (int \<times> byte list option \<times> nat option \<times> knownhosts) ub" where
  "libssh2_knownhost_writeline hosts known buflen type =
     (if x_magic known \<noteq> KNOWNHOST_MAGIC then
        (let (rc, s) = libssh2_error (kh_session hosts) LIBSSH2_ERROR_INVAL
                         ''Invalid host information''
         in Some (rc, None, None, hosts\<lparr>kh_session := s\<rparr>))
      else case find (\<lambda>n. kh_node n = x_node known) (kh_list hosts) of
        None \<Rightarrow> None
      | Some node \<Rightarrow>
          map_option (\<lambda>(rc, line, outlen, s). (rc, line, outlen, hosts\<lparr>kh_session := s\<rparr>))
            (knownhost_writeline (kh_session hosts) node buflen type))"

text \<open>\<open>fw\<close> gives the outcomes of \<^verbatim>\<open>fwrite\<close>: the bytes it wrote, all of them when exhausted.\<close>

fun writefile_loop ::
  "session \<Rightarrow> known_host list \<Rightarrow> int \<Rightarrow> nat list \<Rightarrow> byte list \<Rightarrow> (int \<times> byte list \<times> session) ub" where
  "writefile_loop s [] type fw out = Some (0, out, s)"
| "writefile_loop s (node # nodes) type fw out =
     (case knownhost_writeline s node 2048 type of
        None \<Rightarrow> None
      | Some (rc, line, outlen, s1) \<Rightarrow>
          if rc \<noteq> 0 then Some (rc, out, s1)
          else
            let wrote = the outlen;
                nwrote = (case fw of [] \<Rightarrow> wrote | w # _ \<Rightarrow> min w wrote);
                out' = out @ take nwrote (the line)
            in if nwrote \<noteq> wrote then
                 (let (rc, s2) = libssh2_error s1 LIBSSH2_ERROR_FILE ''Write failed''
                  in Some (rc, out', s2))
               else writefile_loop s1 nodes type (tl fw) out')"

definition libssh2_knownhost_writefile ::
  "knownhosts \<Rightarrow> bool \<Rightarrow> nat list \<Rightarrow> int \<Rightarrow> (int \<times> byte list option \<times> knownhosts) ub" where
  "libssh2_knownhost_writefile hosts opened fw type =
     (if type \<noteq> KNOWNHOST_FILE_OPENSSH then
        (let (rc, s) = libssh2_error (kh_session hosts) LIBSSH2_ERROR_METHOD_NOT_SUPPORTED
                         ''Unsupported type of known-host information store''
         in Some (rc, None, hosts\<lparr>kh_session := s\<rparr>))
      else if \<not> opened then
        (let (rc, s) = libssh2_error (kh_session hosts) LIBSSH2_ERROR_FILE ''Failed to open file''
         in Some (rc, None, hosts\<lparr>kh_session := s\<rparr>))
      else map_option (\<lambda>(rc, out, s). (rc, Some out, hosts\<lparr>kh_session := s\<rparr>))
             (writefile_loop (kh_session hosts) (kh_list hosts) type fw []))"

section \<open>The check against its specification\<close>

lemma check_pass_spec:
  "check_pass hmac t h k ns False bad =
     (case find (\<lambda>n. cstring k = cstring (kh_key n)) (filter (\<lambda>n. node_match hmac t h n False) ns) of
        Some n \<Rightarrow> (True, None, Some n)
      | None \<Rightarrow> (False, (case bad of Some b \<Rightarrow> Some b
                         | None \<Rightarrow> find (\<lambda>n. node_match hmac t h n False) ns), None))"
  by (induction ns arbitrary: bad) (auto simp: Let_def split: option.splits)

lemma find_filter_hd: "find P xs = (case filter P xs of [] \<Rightarrow> None | x # _ \<Rightarrow> Some x)"
  by (induction xs) auto

definition check_names :: "byte list \<Rightarrow> int \<Rightarrow> byte list list" where
  "check_names hostp port = (if port \<ge> 0 then [check_hostbuff hostp port] else []) @ [hostp]"

definition check_candidates ::
  "hmac_fun \<Rightarrow> u32 \<Rightarrow> byte list list \<Rightarrow> known_host list \<Rightarrow> known_host list" where
  "check_candidates hmac t names ns =
     concat (map (\<lambda>h. filter (\<lambda>n. node_match hmac t h n False) ns) names)"

definition check_key :: "knownhosts \<Rightarrow> byte list \<Rightarrow> nat \<Rightarrow> u32 \<Rightarrow> byte list option \<times> session" where
  "check_key hosts key keylen typemask =
     (if typemask AND KNOWNHOST_KEYENC_BASE64 \<noteq> 0 then (Some key, kh_session hosts)
      else case libssh2_base64_encode (kh_session hosts) key keylen of
             (n, enc, s) \<Rightarrow> (if n = 0 then None else enc, s))"

lemma knownhost_check_candidates:
  assumes "host_type typemask \<noteq> KNOWNHOST_TYPE_SHA1"
    and "check_key hosts key keylen typemask = (Some k, s)"
  shows "knownhost_check hmac hosts hostp port key keylen typemask =
    (let cands = check_candidates hmac (host_type typemask) (check_names hostp port) (kh_list hosts);
         hosts' = hosts\<lparr>kh_session := s\<rparr>
     in case find (\<lambda>n. cstring k = cstring (kh_key n)) cands of
          Some n \<Rightarrow> (KNOWNHOST_CHECK_MATCH, Some (knownhost_to_external n), hosts')
        | None \<Rightarrow>
            (case cands of
               [] \<Rightarrow> (KNOWNHOST_CHECK_NOTFOUND, None, hosts')
             | b # _ \<Rightarrow> (KNOWNHOST_CHECK_MISMATCH, Some (knownhost_to_external b), hosts')))"
proof -
  have "(if typemask AND KNOWNHOST_KEYENC_BASE64 = 0 then
             (case libssh2_base64_encode (kh_session hosts) key keylen of
                (nlen, enc, s1) \<Rightarrow>
                  if nlen = 0 then
                    (True, [], hosts\<lparr>kh_session := snd (libssh2_error s1 LIBSSH2_ERROR_ALLOC
                                 ''Unable to allocate memory for base64-encoded key'')\<rparr>)
                  else (False, the enc, hosts\<lparr>kh_session := s1\<rparr>))
           else (False, key, hosts)) = (False, k, hosts\<lparr>kh_session := s\<rparr>)"
    using assms(2) by (auto simp: check_key_def split: if_splits prod.splits)
  then show ?thesis
    using assms(1)
    unfolding knownhost_check_def check_pass_spec
    by (simp add: Let_def check_candidates_def check_names_def find_append check_pass_spec
        find_filter_hd [of "\<lambda>n. node_match hmac _ _ n False"] split: option.splits list.splits)
qed
section \<open>The invariant of the collection\<close>

definition entry_wf :: "known_host \<Rightarrow> bool" where
  "entry_wf e \<longleftrightarrow>
     kh_typemask e AND KNOWNHOST_KEY_MASK \<noteq> 0 \<and>
     host_type (kh_typemask e) \<in> {KNOWNHOST_TYPE_PLAIN, KNOWNHOST_TYPE_SHA1, KNOWNHOST_TYPE_CUSTOM} \<and>
     (host_type (kh_typemask e) = KNOWNHOST_TYPE_SHA1 \<longrightarrow>
        kh_salt e \<noteq> None \<and> kh_name_len e = length (kh_name e))"

definition kh_wf :: "knownhosts \<Rightarrow> bool" where
  "kh_wf hosts \<longleftrightarrow>
     distinct (map kh_node (kh_list hosts)) \<and>
     (\<forall>e \<in> set (kh_list hosts). 0 < kh_node e \<and> kh_node e < kh_fresh hosts \<and> entry_wf e) \<and>
     0 < kh_fresh hosts"

definition kh_step :: "knownhosts \<Rightarrow> knownhosts \<Rightarrow> bool" where
  "kh_step hosts hosts' \<longleftrightarrow>
     (\<exists>host salt key keylen comment commentlen typemask rc ext.
        knownhost_add hosts host salt key keylen comment commentlen typemask = Some (rc, ext, hosts'))
     \<or> (\<exists>s. hosts' = hosts\<lparr>kh_session := s\<rparr>)"

lemma add_name_cases:
  assumes "knownhost_add_name s host salt typemask = Some (rc, r, s')"
  shows "r = None \<and> rc < 0 \<or>
    (\<exists>nm n sl. r = Some (nm, n, sl) \<and>
      (host_type typemask \<in> {KNOWNHOST_TYPE_PLAIN, KNOWNHOST_TYPE_CUSTOM} \<or>
       host_type typemask = KNOWNHOST_TYPE_SHA1 \<and> sl \<noteq> None \<and> n = length nm))"
  using assms
  by (auto simp: knownhost_add_name_def libssh2_base64_decode_def Let_def libssh2_error_def
      split: if_splits prod.splits option.splits bool.splits)

lemma add_key_cases:
  assumes "knownhost_add_key s key keylen typemask = (rc, None, s')"
  shows "rc < 0"
  using assms
  by (auto simp: knownhost_add_key_def libssh2_base64_encode_def Let_def libssh2_error_def strlen_def
      split: if_splits prod.splits option.splits bool.splits)

lemma add_comment_cases:
  assumes "knownhost_add_comment s comment commentlen = (rc, c, s')"
  shows "rc \<le> 0"
  using assms
  by (auto simp: knownhost_add_comment_def Let_def libssh2_error_def
      split: if_splits prod.splits option.splits bool.splits)

lemma knownhost_add_cases:
  assumes "knownhost_add hosts host salt key keylen comment commentlen typemask
             = Some (rc, ext, hosts')"
  shows "(rc < 0 \<and> ext = None \<and> kh_list hosts' = kh_list hosts \<and> kh_fresh hosts' = kh_fresh hosts) \<or>
    (rc = 0 \<and> (\<exists>e. ext = Some (knownhost_to_external e) \<and> kh_list hosts' = kh_list hosts @ [e] \<and>
       kh_fresh hosts' = Suc (kh_fresh hosts) \<and> kh_node e = kh_fresh hosts \<and>
       kh_typemask e = typemask \<and> entry_wf e))"
  using assms
  by (auto simp: knownhost_add_def Let_def libssh2_error_def entry_wf_def
      split: if_splits prod.splits option.splits bool.splits
      dest!: add_name_cases add_key_cases add_comment_cases)

text \<open>What the line and file readers rely on: every primitive step appends entries and keeps the
  invariant. Any sequence of steps then does the same.\<close>

locale append_store =
  fixes entries :: "'s \<Rightarrow> 'e list" and wf :: "'s \<Rightarrow> bool" and step :: "'s \<Rightarrow> 's \<Rightarrow> bool"
  assumes step_appends: "step s s' \<Longrightarrow> \<exists>es. entries s' = entries s @ es"
    and step_wf: "step s s' \<Longrightarrow> wf s \<Longrightarrow> wf s'"
begin

lemma steps_append: "step\<^sup>*\<^sup>* s s' \<Longrightarrow> \<exists>es. entries s' = entries s @ es"
  by (induction rule: rtranclp_induct) (auto dest: step_appends)

lemma steps_wf: "step\<^sup>*\<^sup>* s s' \<Longrightarrow> wf s \<Longrightarrow> wf s'"
  by (induction rule: rtranclp_induct) (auto dest: step_wf)

lemma steps_keep: "step\<^sup>*\<^sup>* s s' \<Longrightarrow> e \<in> set (entries s) \<Longrightarrow> e \<in> set (entries s')"
  using steps_append by fastforce

end

lemma kh_step_list: "kh_step h h' \<Longrightarrow> \<exists>es. kh_list h' = kh_list h @ es"
  unfolding kh_step_def by (auto dest!: knownhost_add_cases)

lemma kh_step_wf: "kh_step h h' \<Longrightarrow> kh_wf h \<Longrightarrow> kh_wf h'"
  unfolding kh_step_def by (fastforce simp: kh_wf_def dest!: knownhost_add_cases)

interpretation khs: append_store kh_list kh_wf kh_step
  by unfold_locales (auto intro: kh_step_list kh_step_wf)

lemma kh_step_add:
  "knownhost_add hosts host salt key keylen comment commentlen typemask = Some (rc, ext, hosts')
   \<Longrightarrow> kh_step hosts hosts'"
  unfolding kh_step_def by blast

lemma kh_step_session: "kh_step hosts (hosts\<lparr>kh_session := s\<rparr>)"
  unfolding kh_step_def by blast

lemma kh_steps_refl: "kh_step\<^sup>*\<^sup>* hosts hosts"
  by simp

lemmas kh_steps_intros = r_into_rtranclp [of kh_step, OF kh_step_add]
  r_into_rtranclp [of kh_step, OF kh_step_session] kh_steps_refl

lemma oldstyle_loop_steps:
  "oldstyle_loop key keylen kt c cl hosts before nm = Some (rc, hosts') \<Longrightarrow> kh_step\<^sup>*\<^sup>* hosts hosts'"
proof (induction key keylen kt c cl hosts before nm rule: oldstyle_loop.induct)
  case (1 key keylen kt c cl hosts nm)
  then show ?case by simp
next
  case (2 key keylen kt cm cl hosts c before nm)
  show ?case
  proof (cases "before = [] \<or> hd before = of_char CHR '',''")
    case False
    with 2 show ?thesis by simp
  next
    case True
    show ?thesis
    proof (cases "length (c # nm) \<ge> 255")
      case True
      with 2(3) \<open>before = [] \<or> _\<close> show ?thesis
        by (auto simp: Let_def libssh2_error_def intro: kh_steps_intros)
    next
      case False
      with 2(3) True obtain rc1 x h1 where
        a: "knownhost_add hosts (cstring (c # nm)) None key keylen cm cl
              (kt OR KNOWNHOST_TYPE_PLAIN OR KNOWNHOST_KEYENC_BASE64) = Some (rc1, x, h1)"
        by (auto simp: Let_def split: option.splits)
      show ?thesis
      proof (cases "rc1 = 0")
        case False
        with 2(3) True \<open>\<not> length (c # nm) \<ge> 255\<close> a show ?thesis
          by (auto intro: kh_steps_intros)
      next
        case True
        with 2(3) \<open>before = [] \<or> _\<close> \<open>\<not> length (c # nm) \<ge> 255\<close> a
        have l: "oldstyle_loop key keylen kt cm cl h1 (tl before) [] = Some (rc, hosts')"
          by simp
        have "kh_step\<^sup>*\<^sup>* h1 hosts'"
          by (rule 2(1) [OF refl \<open>before = [] \<or> _\<close> \<open>\<not> length (c # nm) \<ge> 255\<close> a refl refl _ l])
            (simp add: True)
        with kh_step_add [OF a] show ?thesis by (rule converse_rtranclp_into_rtranclp)
      qed
    qed
  qed
qed

lemma oldstyle_hostline_steps:
  "oldstyle_hostline hosts host hl key keylen kt c cl = Some (rc, hosts') \<Longrightarrow> kh_step\<^sup>*\<^sup>* hosts hosts'"
  by (auto simp: oldstyle_hostline_def libssh2_error_def split: if_splits
      intro: kh_steps_intros oldstyle_loop_steps)

lemma hashed_hostline_steps:
  "hashed_hostline hosts host hl key keylen kt c cl = Some (rc, hosts') \<Longrightarrow> kh_step\<^sup>*\<^sup>* hosts hosts'"
  by (auto simp: hashed_hostline_def Let_def libssh2_error_def split: if_splits
      intro: kh_steps_intros)

lemma hostline_steps:
  "hostline hosts host hl key keylen = Some (rc, hosts') \<Longrightarrow> kh_step\<^sup>*\<^sup>* hosts hosts'"
  by (auto simp: hostline_def libssh2_error_def split: if_splits sum.splits prod.splits
      intro: kh_steps_intros oldstyle_hostline_steps hashed_hostline_steps)

lemma readline_steps:
  "libssh2_knownhost_readline hosts line len type = Some (rc, hosts') \<Longrightarrow> kh_step\<^sup>*\<^sup>* hosts hosts'"
  unfolding libssh2_knownhost_readline_def Let_def
  by (auto simp: libssh2_error_def split: if_splits prod.splits
      intro: kh_steps_intros hostline_steps)

lemma readfile_loop_steps:
  "readfile_loop hosts f type num = Some (rc, hosts') \<Longrightarrow> kh_step\<^sup>*\<^sup>* hosts hosts'"
proof (induction hosts f type num rule: readfile_loop.induct)
  case (1 hosts f type num)
  show ?case
  proof (cases "f = []")
    case True
    with 1(2) show ?thesis by (simp add: readfile_loop.simps)
  next
    case False
    obtain b f' where b: "fgets_buf f = (b, f')" by fastforce
    with 1(2) False obtain rc1 h1 where
      r: "libssh2_knownhost_readline hosts (cstring b) (strlen b) type = Some (rc1, h1)"
      by (subst (asm) readfile_loop.simps) (auto split: option.splits)
    show ?thesis
    proof (cases "rc1 = 0")
      case True
      with 1(2) False b r have "readfile_loop h1 f' type (num + 1) = Some (rc, hosts')"
        by (subst (asm) readfile_loop.simps) simp
      with 1(1) [OF False b [symmetric] refl r refl] True have "kh_step\<^sup>*\<^sup>* h1 hosts'" by simp
      with readline_steps [OF r] show ?thesis by (rule rtranclp_trans)
    next
      case rc: False
      with 1(2) False b r have "hosts' = h1"
        by (subst (asm) readfile_loop.simps) simp
      with readline_steps [OF r] show ?thesis by simp
    qed
  qed
qed

lemma readfile_steps:
  "libssh2_knownhost_readfile hosts file type = Some (rc, hosts') \<Longrightarrow> kh_step\<^sup>*\<^sup>* hosts hosts'"
  by (auto simp: libssh2_knownhost_readfile_def libssh2_error_def split: if_splits option.splits
      intro: kh_steps_intros readfile_loop_steps)

lemma del_wf: "libssh2_knownhost_del hosts e = (rc, e', hosts') \<Longrightarrow> kh_wf hosts \<Longrightarrow> kh_wf hosts'"
  by (auto simp: libssh2_knownhost_del_def libssh2_error_def kh_wf_def distinct_map_filter
      split: option.splits if_splits)

section \<open>Reading back a written line\<close>

lemma scan_over:
  assumes "\<forall>c \<in> set a. c \<noteq> 0 \<and> P c" "length a \<le> n"
    and "n = length a \<or> r = [] \<or> hd r = 0 \<or> \<not> P (hd r)"
  shows "scan P (a @ r) n = (r, n - length a)"
  using assms
proof (induction a arbitrary: n)
  case Nil
  then show ?case by (cases r) auto
next
  case (Cons c a)
  then obtain m where "n = Suc m" by (cases n) auto
  with Cons show ?case by simp
qed

definition line_typemask :: "u32 \<Rightarrow> u32 \<Rightarrow> u32" where
  "line_typemask kt t = kt OR t OR KNOWNHOST_KEYENC_BASE64"

lemma line_typemask_facts:
  assumes "kt = KNOWNHOST_KEY_SSHRSA \<or> kt = KNOWNHOST_KEY_SSHDSS"
    and "t = KNOWNHOST_TYPE_PLAIN \<or> t = KNOWNHOST_TYPE_SHA1"
  shows "host_type (line_typemask kt t) = t"
    and "line_typemask kt t AND KNOWNHOST_KEY_MASK = kt"
    and "line_typemask kt t AND KNOWNHOST_KEYENC_BASE64 \<noteq> 0"
    and "keytypes ! key_tindex (line_typemask kt t) =
           cstr '' '' @ (if kt = KNOWNHOST_KEY_SSHDSS then cstr ''ssh-dss'' else cstr ''ssh-rsa'')"
  using assms by (auto simp: line_typemask_def host_type_def key_tindex_def keytypes_def)

definition key_text :: "byte list \<Rightarrow> bool" where
  "key_text k \<longleftrightarrow> 12 \<le> length k \<and> (\<forall>c \<in> set k. c \<noteq> 0 \<and> c \<noteq> 10 \<and> \<not> is_blank c)"

definition comment_text :: "byte list option \<Rightarrow> bool" where
  "comment_text c \<longleftrightarrow>
     (case c of None \<Rightarrow> True
      | Some x \<Rightarrow> (\<forall>b \<in> set x. b \<noteq> 0 \<and> b \<noteq> 10) \<and> (x = [] \<or> \<not> is_blank (hd x)))"

definition comment_tail :: "byte list option \<Rightarrow> byte list" where
  "comment_tail c = (case c of None \<Rightarrow> [] | Some x \<Rightarrow> cstr '' '' @ x)"

lemma blank_space [simp]: "is_blank 32" "\<not> is_blank 10" "\<not> is_blank 0"
  by (simp_all add: is_blank_def)

lemma key_text_nul_free: "key_text k \<Longrightarrow> nul_free k"
  by (auto simp: key_text_def nul_free_def)

lemma comment_text_nul_free: "comment_text (Some x) \<Longrightarrow> nul_free x"
  by (auto simp: comment_text_def nul_free_def)

text \<open>The key part of a written line, as \<^verbatim>\<open>hostline\<close> takes it apart again.\<close>

lemma hostline_key_written:
  assumes kt: "kt = KNOWNHOST_KEY_SSHRSA \<or> kt = KNOWNHOST_KEY_SSHDSS"
    and k: "key_text k" and c: "comment_text c"
    and size: "length k + length (comment_tail c) + 8 < 2 ^ 64"
  shows "\<exists>k' c'. hostline_key ((if kt = KNOWNHOST_KEY_SSHDSS then cstr ''ssh-dss'' else cstr ''ssh-rsa'')
             @ cstr '' '' @ k @ comment_tail c @ [10]) (8 + length k + length (comment_tail c))
           = Inr (kt, k', length k, c', (case c of None \<Rightarrow> 0 | Some x \<Rightarrow> length x)) \<and>
         take (length k) k' = k \<and> length k \<le> length k' \<and> (c' = None \<longleftrightarrow> c = None) \<and>
         (\<forall>x y. c = Some x \<longrightarrow> c' = Some y \<longrightarrow> take (length x) y = x \<and> length x \<le> length y)"
proof -
  let ?tail = "comment_tail c @ [10]"
  have k0: "k \<noteq> []" "\<not> is_blank (hd k)" using k by (cases k; simp add: key_text_def)+
  have dw: "dropWhile is_blank (k @ ?tail) = k @ ?tail"
    and tw: "takeWhile is_blank (k @ ?tail) = []"
    using k0 by (cases k; simp)+
  have l1: "size_sub (size_sub (8 + length k + length (comment_tail c)) 7) (Suc 0)
      = length k + length (comment_tail c)"
    using size by (simp add: size_sub_exact)
  have s1: "scan (\<lambda>c. \<not> is_blank c) (k @ ?tail) (length k + length (comment_tail c))
      = (?tail, length (comment_tail c))"
    using k by (subst scan_over)
      (auto simp: key_text_def comment_tail_def split: option.splits)
  have l2: "size_sub (length k + length (comment_tail c)) (length (comment_tail c)) = length k"
    using size by (simp add: size_sub_exact)
  have ct: "comment_tail c = [] \<longleftrightarrow> c = None" by (auto simp: comment_tail_def split: option.splits)
  have s2: "scan is_blank (comment_tail c @ [10]) (length (comment_tail c)) 
      = (the c @ [10], length (the c))" if "c \<noteq> None"
    using c that scan_over [of "[32]" is_blank "Suc (length (the c))" "the c @ [10]"]
    by (cases "the c") (auto simp: comment_text_def comment_tail_def)
  define T where "T = (if kt = KNOWNHOST_KEY_SSHDSS then cstr ''ssh-dss'' else cstr ''ssh-rsa'')"
  have T: "take 7 (T @ r) = T" "drop 7 (T @ r) = r" "deref (T @ r) = 115"
    "(T \<noteq> cstr ''ssh-dss'' \<and> T \<noteq> cstr ''ssh-rsa'') = False"
    "(if T = cstr ''ssh-dss'' then KNOWNHOST_KEY_SSHDSS else KNOWNHOST_KEY_SSHRSA) = kt" for r
    using kt by (auto simp: T_def)
  have eq: "hostline_key (T @ 32 # k @ ?tail) (8 + length k + length (comment_tail c)) =
    (if c = None then Inr (kt, k @ ?tail, length k, None, 0)
     else Inr (kt, k @ ?tail, length k, Some (the c @ [10]), length (the c)))"
    unfolding hostline_key_def T if_False
    by (simp add: dw tw l1 s1 l2 ct s2 Let_def)
      (use size size_sub_exact [of 0 "length k"] in \<open>auto simp: comment_tail_def\<close>)
  show ?thesis
    unfolding T_def [symmetric]
    by (rule exI [of _ "k @ ?tail"], rule exI [of _ "map_option (\<lambda>x. x @ [10]) c"])
      (use eq in \<open>auto split: option.splits\<close>)
qed

lemma readline_split:
  assumes h: "h \<noteq> []" "\<forall>c \<in> set h. c \<noteq> 0 \<and> \<not> is_blank c" "hd h \<noteq> of_char CHR ''#''" "hd h \<noteq> 10"
    and K: "K \<noteq> []" "\<forall>c \<in> set K. c \<noteq> 0 \<and> c \<noteq> 10" "\<not> is_blank (hd K)"
  shows "libssh2_knownhost_readline hosts (h @ 32 # K @ [10]) (length h + length K + 2) 1 =
         hostline hosts (h @ 32 # K @ [10]) (length h) (K @ [10]) (length K)"
proof -
  have hd: "deref (h @ r) = hd h" "deref (K @ r) = hd K" "hd h \<noteq> 0" "hd K \<noteq> 0" "\<not> is_blank (hd h)" for r
    using h K by (cases h; cases K; auto)+
  have s0: "scan is_blank (h @ 32 # K @ [10]) (length h + length K + 2)
      = (h @ 32 # K @ [10], length h + length K + 2)"
    using scan_over [of "[]" is_blank "length h + length K + 2" "h @ 32 # K @ [10]"] hd h(1) by auto
  have s1: "scan (\<lambda>c. \<not> is_blank c) (h @ 32 # K @ [10]) (length h + length K + 2)
      = (32 # K @ [10], length K + 2)"
    using h by (subst scan_over) auto
  have s2: "scan is_blank (32 # K @ [10]) (length K + 2) = (K @ [10], length K + 1)"
    using K scan_over [of "[32]" is_blank "length K + 2" "K @ [10]"] by auto
  have s3: "scan (\<lambda>c. c \<noteq> 10) (K @ [10]) (length K + 1) = ([10], 1)"
    using K by (subst scan_over) auto
  show ?thesis
    unfolding libssh2_knownhost_readline_def
    by (simp only: s0 s1 s2 s3 Let_def prod.case) (use hd h K in simp)
qed

lemma oldstyle_single:
  assumes "h \<noteq> []" "\<forall>c \<in> set h. c \<noteq> of_char CHR '',''" "length h + length nm < 255"
  shows "oldstyle_loop key keylen kt c cl hosts h nm =
    map_option (\<lambda>(rc, _, hosts'). (rc, hosts'))
      (knownhost_add hosts (cstring (rev h @ nm)) None key keylen c cl
         (kt OR KNOWNHOST_TYPE_PLAIN OR KNOWNHOST_KEYENC_BASE64))"
  using assms
proof (induction h arbitrary: nm)
  case (Cons x h)
  show ?case
  proof (cases "h = []")
    case True
    with Cons show ?thesis by (auto simp: Let_def split: option.splits)
  next
    case False
    with Cons have "hd h \<noteq> of_char CHR '',''" by (cases h) auto
    with Cons False show ?thesis by simp
  qed
qed simp

lemma knownhost_add_plain:
  assumes "allocs (env (kh_session hosts)) = []" "kt = KNOWNHOST_KEY_SSHRSA \<or> kt = KNOWNHOST_KEY_SSHDSS"
    and "nul_free name" "keylen \<noteq> 0" "keylen \<le> length key"
    and "\<And>x. c = Some x \<Longrightarrow> cl \<le> length x"
  shows "knownhost_add hosts name None key keylen c cl (line_typemask kt KNOWNHOST_TYPE_PLAIN) =
    (let e = \<lparr>kh_node = kh_fresh hosts, kh_name = name, kh_name_len = 0,
              kh_typemask = line_typemask kt KNOWNHOST_TYPE_PLAIN, kh_salt = None,
              kh_key = take keylen key, kh_comment = map_option (take cl) c\<rparr>
     in Some (0, Some (knownhost_to_external e),
          hosts\<lparr>kh_list := kh_list hosts @ [e], kh_fresh := Suc (kh_fresh hosts)\<rparr>))"
proof -
  have m: "host_type (line_typemask kt KNOWNHOST_TYPE_PLAIN) = KNOWNHOST_TYPE_PLAIN"
    "line_typemask kt KNOWNHOST_TYPE_PLAIN AND KNOWNHOST_KEY_MASK \<noteq> 0"
    "line_typemask kt KNOWNHOST_TYPE_PLAIN AND KNOWNHOST_KEYENC_BASE64 \<noteq> 0"
    using assms(2) line_typemask_facts [of kt KNOWNHOST_TYPE_PLAIN] by auto
  have "\<not> (case c of None \<Rightarrow> False | Some x \<Rightarrow> length x < cl)"
    using assms(6) by (fastforce split: option.splits)
  with assms(1,3-5) m show ?thesis
    by (simp add: knownhost_add_def knownhost_add_name_def knownhost_add_key_def
        knownhost_add_comment_def libssh2_alloc_unlimited Let_def split: option.splits)
qed

lemma t64_quad_mem:
  assumes "base64_quad a b c = (o0, o1, o2, o3)"
  shows "t64 o0 \<in> set table64" "t64 o1 \<in> set table64" "t64 o2 \<in> set table64" "t64 o3 \<in> set table64"
  using quad_six_bits [OF assms] by (simp_all add: t64_def)

lemma encode_alphabet: "set (base64_encode_loop bs) \<subseteq> insert 61 (set table64)"
  by (induction bs rule: list_induct_triples) (auto split: prod.splits dest: t64_quad_mem [OF sym])

lemma encode_text:
  "c \<in> set (base64_encode_loop bs) \<Longrightarrow> c \<noteq> 0 \<and> \<not> is_blank c \<and> c \<noteq> 10 \<and> c \<noteq> of_char CHR ''|''"
proof -
  assume "c \<in> set (base64_encode_loop bs)"
  with encode_alphabet have "c \<in> insert 61 (set table64)" by blast
  moreover have "\<forall>c \<in> insert 61 (set table64).
      c \<noteq> 0 \<and> \<not> is_blank c \<and> c \<noteq> 10 \<and> c \<noteq> of_char CHR ''|''"
    by (simp add: table64_def is_blank_def)
  ultimately show ?thesis by blast
qed

lemma decode_encoded:
  "allocs (env s) = [] \<Longrightarrow>
   libssh2_base64_decode s (base64_encode_loop bs) (length (base64_encode_loop bs)) = (0, Some bs, s)"
  using decode_encode_loop [of 0 bs "[]" 0]
  by (auto simp: libssh2_base64_decode_def libssh2_alloc_unlimited split: prod.splits if_splits)

definition plain_line :: "u32 \<Rightarrow> known_host \<Rightarrow> bool" where
  "plain_line kt e \<longleftrightarrow>
     (kt = KNOWNHOST_KEY_SSHRSA \<or> kt = KNOWNHOST_KEY_SSHDSS) \<and>
     kh_typemask e = line_typemask kt KNOWNHOST_TYPE_PLAIN \<and>
     kh_name_len e = 0 \<and> kh_salt e = None \<and>
     2 < length (kh_name e) \<and> length (kh_name e) < 255 \<and>
     (\<forall>c \<in> set (kh_name e). c \<noteq> 0 \<and> \<not> is_blank c \<and> c \<noteq> of_char CHR '','') \<and>
     hd (kh_name e) \<noteq> of_char CHR ''#'' \<and> hd (kh_name e) \<noteq> 10 \<and>
     take 3 (kh_name e) \<noteq> cstr ''|1|'' \<and>
     key_text (kh_key e) \<and> comment_text (kh_comment e) \<and>
     length (kh_key e) + length (comment_tail (kh_comment e)) + 8 < 2 ^ 64"

definition hashed_line :: "u32 \<Rightarrow> known_host \<Rightarrow> bool" where
  "hashed_line kt e \<longleftrightarrow>
     (kt = KNOWNHOST_KEY_SSHRSA \<or> kt = KNOWNHOST_KEY_SSHDSS) \<and>
     kh_typemask e = line_typemask kt KNOWNHOST_TYPE_SHA1 \<and>
     kh_name_len e = length (kh_name e) \<and>
     0 < length (kh_name e) \<and> length (kh_name e) \<le> 189 \<and>
     (\<exists>salt. kh_salt e = Some salt \<and> 0 < length salt \<and> length salt \<le> 21) \<and>
     key_text (kh_key e) \<and> comment_text (kh_comment e) \<and>
     length (kh_key e) + length (comment_tail (kh_comment e)) + 8 < 2 ^ 64"

definition key_part :: "u32 \<Rightarrow> known_host \<Rightarrow> byte list" where
  "key_part kt e = (if kt = KNOWNHOST_KEY_SSHDSS then cstr ''ssh-dss'' else cstr ''ssh-rsa'')
     @ cstr '' '' @ kh_key e @ comment_tail (kh_comment e)"

lemma writeline_tail_key_part:
  assumes "kt = KNOWNHOST_KEY_SSHRSA \<or> kt = KNOWNHOST_KEY_SSHDSS"
    and "kh_typemask e = line_typemask kt t" "t = KNOWNHOST_TYPE_PLAIN \<or> t = KNOWNHOST_TYPE_SHA1"
    and "key_text (kh_key e)" "comment_text (kh_comment e)"
  shows "writeline_tail e = 32 # key_part kt e @ [10]"
  using assms line_typemask_facts(4) [of kt t]
  by (auto simp: writeline_tail_def key_part_def comment_tail_def key_text_nul_free
      comment_text_nul_free split: option.splits)

lemma key_part_facts:
  assumes "key_text (kh_key e)" "comment_text (kh_comment e)"
  shows "key_part kt e \<noteq> []" "\<forall>c \<in> set (key_part kt e). c \<noteq> 0 \<and> c \<noteq> 10" "\<not> is_blank (hd (key_part kt e))"
    "length (key_part kt e) = 8 + length (kh_key e) + length (comment_tail (kh_comment e))"
    "20 \<le> length (key_part kt e)"
proof -
  have "\<forall>c \<in> set (kh_key e). c \<noteq> 0 \<and> c \<noteq> 10"
    "\<forall>c \<in> set (comment_tail (kh_comment e)). c \<noteq> 0 \<and> c \<noteq> 10"
    using assms by (auto simp: key_text_def comment_text_def comment_tail_def split: option.splits)
  then show "\<forall>c \<in> set (key_part kt e). c \<noteq> 0 \<and> c \<noteq> 10" by (auto simp: key_part_def)
  show l: "length (key_part kt e) = 8 + length (kh_key e) + length (comment_tail (kh_comment e))"
    by (simp add: key_part_def)
  then show "20 \<le> length (key_part kt e)" using assms by (simp add: key_text_def)
qed (simp_all add: key_part_def is_blank_def)

lemma hostline_written:
  assumes "kt = KNOWNHOST_KEY_SSHRSA \<or> kt = KNOWNHOST_KEY_SSHDSS"
    and "key_text (kh_key e)" "comment_text (kh_comment e)"
    and "length (kh_key e) + length (comment_tail (kh_comment e)) + 8 < 2 ^ 64"
  obtains k' c' where
    "hostline hosts host hostlen (key_part kt e @ [10]) (length (key_part kt e)) =
      (if hostlen > 2 \<and> take 3 host \<noteq> cstr ''|1|''
       then oldstyle_hostline hosts host hostlen k' (length (kh_key e)) kt c'
              (case kh_comment e of None \<Rightarrow> 0 | Some x \<Rightarrow> length x)
       else hashed_hostline hosts host hostlen k' (length (kh_key e)) kt c'
              (case kh_comment e of None \<Rightarrow> 0 | Some x \<Rightarrow> length x))"
    "take (length (kh_key e)) k' = kh_key e" "length (kh_key e) \<le> length k'"
    "map_option (take (case kh_comment e of None \<Rightarrow> 0 | Some x \<Rightarrow> length x)) c' = kh_comment e"
    "\<And>y. c' = Some y \<Longrightarrow> (case kh_comment e of None \<Rightarrow> 0 | Some x \<Rightarrow> length x) \<le> length y"
proof -
  have kp: "key_part kt e @ [10] = (if kt = KNOWNHOST_KEY_SSHDSS then cstr ''ssh-dss'' else cstr ''ssh-rsa'')
     @ cstr '' '' @ kh_key e @ comment_tail (kh_comment e) @ [10]"
    by (simp only: key_part_def append_assoc)
  note kw = hostline_key_written [OF assms, folded kp key_part_facts(4) [OF assms(2,3), of kt]]
  obtain k' c' where
    k: "hostline_key (key_part kt e @ [10]) (length (key_part kt e)) =
          Inr (kt, k', length (kh_key e), c', (case kh_comment e of None \<Rightarrow> 0 | Some x \<Rightarrow> length x))"
    "take (length (kh_key e)) k' = kh_key e" "length (kh_key e) \<le> length k'"
    "c' = None \<longleftrightarrow> kh_comment e = None"
    "\<forall>x y. kh_comment e = Some x \<longrightarrow> c' = Some y \<longrightarrow> take (length x) y = x \<and> length x \<le> length y"
    using kw by (elim exE conjE) (rule that; assumption)
  show ?thesis
  proof (rule that)
    show "hostline hosts host hostlen (key_part kt e @ [10]) (length (key_part kt e)) =
      (if hostlen > 2 \<and> take 3 host \<noteq> cstr ''|1|''
       then oldstyle_hostline hosts host hostlen k' (length (kh_key e)) kt c'
              (case kh_comment e of None \<Rightarrow> 0 | Some x \<Rightarrow> length x)
       else hashed_hostline hosts host hostlen k' (length (kh_key e)) kt c'
              (case kh_comment e of None \<Rightarrow> 0 | Some x \<Rightarrow> length x))"
      using key_part_facts(5) [OF assms(2,3), of kt] unfolding hostline_def k(1) by simp
  qed (use k in \<open>auto split: option.splits\<close>)
qed

lemma strlen_text: "(\<And>c. c \<in> set s \<Longrightarrow> c \<noteq> 0) \<Longrightarrow> strlen s = length s"
  by (rule strlen_nul_free) (auto simp: nul_free_def)

lemma cstring_text: "(\<And>c. c \<in> set s \<Longrightarrow> c \<noteq> 0) \<Longrightarrow> cstring s = s"
  by (rule cstring_nul_free) (auto simp: nul_free_def)

lemma plain_written:
  assumes "plain_line kt e" "Suc (length (kh_name e @ writeline_tail e)) \<le> buflen"
  shows "knownhost_writeline s e buflen KNOWNHOST_FILE_OPENSSH =
    Some (0, Some (kh_name e @ writeline_tail e), Some (length (kh_name e @ writeline_tail e)), s)"
proof -
  have nf: "nul_free (kh_name e)" "nul_free (kh_key e)"
    using assms by (auto simp: plain_line_def nul_free_def key_text_def)
  have c: "(case kh_comment e of None \<Rightarrow> 0 | Some c \<Rightarrow> strlen c + 1) = length (comment_tail (kh_comment e))"
    using assms(1) by (auto simp: plain_line_def comment_text_nul_free comment_tail_def split: option.splits)
  have kt: "strlen (keytypes ! key_tindex (kh_typemask e)) = 8"
    "host_type (kh_typemask e) = KNOWNHOST_TYPE_PLAIN"
    using assms(1) line_typemask_facts [of kt KNOWNHOST_TYPE_PLAIN]
    by (auto simp: plain_line_def strlen_def)
  have w: "writeline_tail e = 32 # key_part kt e @ [10]"
    using assms(1) by (intro writeline_tail_key_part [of _ _ KNOWNHOST_TYPE_PLAIN]) (auto simp: plain_line_def)
  have l: "length (key_part kt e) = 8 + length (kh_key e) + length (comment_tail (kh_comment e))"
    using assms(1) by (intro key_part_facts) (auto simp: plain_line_def)
  show ?thesis
    using assms(2) unfolding knownhost_writeline_def c kt Let_def
    by (simp add: nf w l)
qed

lemma plain_read:
  assumes "plain_line kt e" "allocs (env (kh_session hosts)) = []"
  shows "libssh2_knownhost_readline hosts (kh_name e @ writeline_tail e)
           (length (kh_name e @ writeline_tail e)) KNOWNHOST_FILE_OPENSSH =
    Some (0, hosts\<lparr>kh_list := kh_list hosts @ [e\<lparr>kh_node := kh_fresh hosts\<rparr>],
                   kh_fresh := Suc (kh_fresh hosts)\<rparr>)"
proof -
  let ?n = "kh_name e" and ?K = "key_part kt e"
  from assms(1) have kt: "kt = KNOWNHOST_KEY_SSHRSA \<or> kt = KNOWNHOST_KEY_SSHDSS"
    and n: "2 < length ?n" "length ?n < 255" "\<forall>c \<in> set ?n. c \<noteq> 0 \<and> \<not> is_blank c \<and> c \<noteq> of_char CHR '',''"
      "hd ?n \<noteq> of_char CHR ''#''" "hd ?n \<noteq> 10" "take 3 ?n \<noteq> cstr ''|1|''"
    and k: "key_text (kh_key e)" and c: "comment_text (kh_comment e)"
    and sz: "length (kh_key e) + length (comment_tail (kh_comment e)) + 8 < 2 ^ 64"
    and tm: "kh_typemask e = line_typemask kt KNOWNHOST_TYPE_PLAIN"
    and rest: "kh_name_len e = 0" "kh_salt e = None"
    by (auto simp: plain_line_def)
  have w: "writeline_tail e = 32 # ?K @ [10]"
    using writeline_tail_key_part [OF kt tm _ k c] by simp
  have split: "libssh2_knownhost_readline hosts (?n @ writeline_tail e)
      (length (?n @ writeline_tail e)) KNOWNHOST_FILE_OPENSSH =
      hostline hosts (?n @ 32 # ?K @ [10]) (length ?n) (?K @ [10]) (length ?K)"
    using readline_split [of ?n ?K hosts] n key_part_facts(1-3) [OF k c, of kt]
    by (cases "?n = []") (auto simp: w)
  have t3: "take 3 (?n @ r) = take 3 ?n" for r using n(1) by simp
  let ?cl = "case kh_comment e of None \<Rightarrow> 0 | Some x \<Rightarrow> length x"
  obtain k' c' where h: "hostline hosts (?n @ 32 # ?K @ [10]) (length ?n) (?K @ [10]) (length ?K) =
      oldstyle_hostline hosts (?n @ 32 # ?K @ [10]) (length ?n) k' (length (kh_key e)) kt c' ?cl"
    and kc: "take (length (kh_key e)) k' = kh_key e" "length (kh_key e) \<le> length k'"
      "map_option (take ?cl) c' = kh_comment e" "\<And>y. c' = Some y \<Longrightarrow> ?cl \<le> length y"
    using hostline_written [OF kt k c sz, of hosts "?n @ 32 # ?K @ [10]" "length ?n"] n(1,6)
    by (simp only: t3 simp_thms if_True) blast
  have nn: "?n \<noteq> []" "nul_free ?n" using n by (auto simp: nul_free_def)
  have o: "oldstyle_hostline hosts (?n @ 32 # ?K @ [10]) (length ?n) k' (length (kh_key e)) kt c' ?cl =
      map_option (\<lambda>(rc, _, hosts'). (rc, hosts'))
      (knownhost_add hosts ?n None k' (length (kh_key e)) c' ?cl (line_typemask kt KNOWNHOST_TYPE_PLAIN))"
    using n(1-3) nn oldstyle_single [of "rev ?n" "[]"]
    by (simp add: oldstyle_hostline_def line_typemask_def)
  have k0: "length (kh_key e) \<noteq> 0" using k by (auto simp: key_text_def)
  show ?thesis
    unfolding split h o
    using knownhost_add_plain [of hosts kt ?n "length (kh_key e)" k' c' ?cl, OF assms(2) kt nn(2) k0]
      kc tm rest by (cases e) (simp add: Let_def)
qed

lemma knownhost_add_hashed:
  assumes "allocs (env (kh_session hosts)) = []" "kt = KNOWNHOST_KEY_SSHRSA \<or> kt = KNOWNHOST_KEY_SSHDSS"
    and "keylen \<noteq> 0" "keylen \<le> length key" "\<And>x. c = Some x \<Longrightarrow> cl \<le> length x"
  shows "knownhost_add hosts (base64_encode_loop name) (Some (base64_encode_loop salt)) key keylen c cl
           (line_typemask kt KNOWNHOST_TYPE_SHA1) =
    (let e = \<lparr>kh_node = kh_fresh hosts, kh_name = name, kh_name_len = length name,
              kh_typemask = line_typemask kt KNOWNHOST_TYPE_SHA1, kh_salt = Some salt,
              kh_key = take keylen key, kh_comment = map_option (take cl) c\<rparr>
     in Some (0, Some (knownhost_to_external e),
          hosts\<lparr>kh_list := kh_list hosts @ [e], kh_fresh := Suc (kh_fresh hosts)\<rparr>))"
proof -
  have m: "host_type (line_typemask kt KNOWNHOST_TYPE_SHA1) = KNOWNHOST_TYPE_SHA1"
    "line_typemask kt KNOWNHOST_TYPE_SHA1 AND KNOWNHOST_KEY_MASK \<noteq> 0"
    "line_typemask kt KNOWNHOST_TYPE_SHA1 AND KNOWNHOST_KEYENC_BASE64 \<noteq> 0"
    using assms(2) line_typemask_facts [of kt KNOWNHOST_TYPE_SHA1] by auto
  have "\<not> (case c of None \<Rightarrow> False | Some x \<Rightarrow> length x < cl)"
    using assms(5) by (fastforce split: option.splits)
  with assms(1,3,4) m show ?thesis
    by (simp add: knownhost_add_def knownhost_add_name_def knownhost_add_key_def decode_encoded
        knownhost_add_comment_def libssh2_alloc_unlimited encode_nul_free Let_def split: option.splits)
qed

definition hashed_host :: "known_host \<Rightarrow> byte list" where
  "hashed_host e = cstr ''|1|'' @ base64_encode_loop (the (kh_salt e)) @ cstr ''|''
     @ base64_encode_loop (kh_name e)"

lemma hashed_written:
  assumes "hashed_line kt e" "Suc (length (hashed_host e @ writeline_tail e)) \<le> buflen"
    and "allocs (env s) = []"
  shows "knownhost_writeline s e buflen KNOWNHOST_FILE_OPENSSH =
    Some (0, Some (hashed_host e @ writeline_tail e), Some (length (hashed_host e @ writeline_tail e)), s)"
proof -
  have nf: "nul_free (kh_key e)"
    using assms by (auto simp: hashed_line_def nul_free_def key_text_def)
  have c: "(case kh_comment e of None \<Rightarrow> 0 | Some c \<Rightarrow> strlen c + 1) = length (comment_tail (kh_comment e))"
    using assms(1) by (auto simp: hashed_line_def comment_text_nul_free comment_tail_def split: option.splits)
  have kt: "strlen (keytypes ! key_tindex (kh_typemask e)) = 8"
    "host_type (kh_typemask e) = KNOWNHOST_TYPE_SHA1"
    using assms(1) line_typemask_facts [of kt KNOWNHOST_TYPE_SHA1]
    by (auto simp: hashed_line_def strlen_def)
  have w: "writeline_tail e = 32 # key_part kt e @ [10]"
    using assms(1) by (intro writeline_tail_key_part [of _ _ KNOWNHOST_TYPE_SHA1]) (auto simp: hashed_line_def)
  have l: "length (key_part kt e) = 8 + length (kh_key e) + length (comment_tail (kh_comment e))"
    using assms(1) by (intro key_part_facts) (auto simp: hashed_line_def)
  obtain salt where salt: "kh_salt e = Some salt" "salt \<noteq> []" "kh_name e \<noteq> []" "kh_name_len e = length (kh_name e)"
    using assms(1) by (auto simp: hashed_line_def)
  show ?thesis
    using assms(2,3) unfolding knownhost_writeline_def c kt Let_def
    by (simp add: nf w l salt libssh2_base64_encode_def libssh2_alloc_unlimited Let_def
        encode_nul_free hashed_host_def)
qed

lemma hashed_read:
  assumes "hashed_line kt e" "allocs (env (kh_session hosts)) = []"
  shows "libssh2_knownhost_readline hosts (hashed_host e @ writeline_tail e)
           (length (hashed_host e @ writeline_tail e)) KNOWNHOST_FILE_OPENSSH =
    Some (0, hosts\<lparr>kh_list := kh_list hosts @ [e\<lparr>kh_node := kh_fresh hosts\<rparr>],
                   kh_fresh := Suc (kh_fresh hosts)\<rparr>)"
proof -
  let ?n = "hashed_host e" and ?K = "key_part kt e"
  from assms(1) obtain salt where kt: "kt = KNOWNHOST_KEY_SSHRSA \<or> kt = KNOWNHOST_KEY_SSHDSS"
    and n: "0 < length (kh_name e)" "length (kh_name e) \<le> 189" "0 < length salt" "length salt \<le> 21"
    and k: "key_text (kh_key e)" and c: "comment_text (kh_comment e)"
    and sz: "length (kh_key e) + length (comment_tail (kh_comment e)) + 8 < 2 ^ 64"
    and tm: "kh_typemask e = line_typemask kt KNOWNHOST_TYPE_SHA1"
    and rest: "kh_name_len e = length (kh_name e)" "kh_salt e = Some salt"
    by (auto simp: hashed_line_def)
  have w: "writeline_tail e = 32 # ?K @ [10]"
    using writeline_tail_key_part [OF kt tm _ k c] by simp
  have ntext: "\<forall>c \<in> set ?n. c \<noteq> 0 \<and> \<not> is_blank c" "?n \<noteq> []" "hd ?n = 124"
    using encode_text by (auto simp: hashed_host_def is_blank_def)
  have split: "libssh2_knownhost_readline hosts (?n @ writeline_tail e)
      (length (?n @ writeline_tail e)) KNOWNHOST_FILE_OPENSSH =
      hostline hosts (?n @ 32 # ?K @ [10]) (length ?n) (?K @ [10]) (length ?K)"
    using readline_split [of ?n ?K hosts] ntext key_part_facts(1-3) [OF k c, of kt] by (simp add: w)
  let ?cl = "case kh_comment e of None \<Rightarrow> 0 | Some x \<Rightarrow> length x"
  have t3: "take 3 (?n @ 32 # ?K @ [10]) = cstr ''|1|''" by (simp add: hashed_host_def)
  obtain k' c' where h: "hostline hosts (?n @ 32 # ?K @ [10]) (length ?n) (?K @ [10]) (length ?K) =
      hashed_hostline hosts (?n @ 32 # ?K @ [10]) (length ?n) k' (length (kh_key e)) kt c' ?cl"
    and kc: "take (length (kh_key e)) k' = kh_key e" "length (kh_key e) \<le> length k'"
      "map_option (take ?cl) c' = kh_comment e" "\<And>y. c' = Some y \<Longrightarrow> ?cl \<le> length y"
    using hostline_written [OF kt k c sz, of hosts "?n @ 32 # ?K @ [10]" "length ?n"]
    by (simp only: t3 simp_thms if_False) blast
  let ?s = "base64_encode_loop salt" and ?h = "base64_encode_loop (kh_name e)"
  have host: "drop 3 (?n @ 32 # ?K @ [10]) = ?s @ 124 # ?h @ 32 # ?K @ [10]"
    by (simp add: hashed_host_def rest)
  have sep: "takeWhile (\<lambda>c. c \<noteq> 0 \<and> c \<noteq> 124) (?s @ 124 # r) = ?s"
    "dropWhile (\<lambda>c. c \<noteq> 0 \<and> c \<noteq> 124) (?s @ 124 # r) = 124 # r" for r
    using encode_text [of _ salt] by (auto intro!: takeWhile_all_app dropWhile_all_app)
  have ls: "length ?s < 31" "length ?h < 255" using n by (auto simp: length_encode)
  have "length ?n = 3 + (length ?s + 1 + length ?h)" by (simp add: hashed_host_def rest)
  then have sub: "size_sub (size_sub (length ?n) 3) (length ?s + 1) = length ?h"
    using ls by (simp add: size_sub_exact)
  have o: "hashed_hostline hosts (?n @ 32 # ?K @ [10]) (length ?n) k' (length (kh_key e)) kt c' ?cl =
      map_option (\<lambda>(rc, _, hosts'). (rc, hosts'))
      (knownhost_add hosts ?h (Some ?s) k' (length (kh_key e)) c' ?cl (line_typemask kt KNOWNHOST_TYPE_SHA1))"
    unfolding hashed_hostline_def host Let_def
    using ls sub by (simp add: sep encode_nul_free line_typemask_def)
  have k0: "length (kh_key e) \<noteq> 0" using k by (auto simp: key_text_def)
  show ?thesis
    unfolding split h o
    using knownhost_add_hashed [of hosts kt "length (kh_key e)" k' c' ?cl, OF assms(2) kt k0]
      kc tm rest by (cases e) (simp add: Let_def)
qed

section \<open>Enumerating and deleting\<close>

lemma next_of_at:
  "distinct (map kh_node (xs @ e # ys)) \<Longrightarrow>
   next_of (kh_node e) (xs @ e # ys) = (case ys of [] \<Rightarrow> None | y # _ \<Rightarrow> Some y)"
proof (induction xs)
  case Nil
  then show ?case by (cases ys) auto
next
  case (Cons x xs)
  then obtain y r where r: "xs @ e # ys = y # r" by (cases xs) auto
  have ne: "kh_node x \<noteq> kh_node e" using Cons.prems by simp
  have "next_of (kh_node e) (y # r) = (case ys of [] \<Rightarrow> None | y # _ \<Rightarrow> Some y)"
    using Cons by (simp flip: r)
  with ne show ?case by (simp add: r)
qed

lemma filter_node_neq:
  "distinct (map kh_node (xs @ e # ys)) \<Longrightarrow> filter (\<lambda>n. kh_node n \<noteq> kh_node e) (xs @ e # ys) = xs @ ys"
proof -
  assume "distinct (map kh_node (xs @ e # ys))"
  then have "kh_node e \<notin> kh_node ` set xs" "kh_node e \<notin> kh_node ` set ys" by auto
  then have "\<forall>n \<in> set xs \<union> set ys. kh_node n \<noteq> kh_node e" by (metis Un_iff imageI)
  then show ?thesis by (simp add: filter_id_conv)
qed

lemma add_name_plain:
  assumes "knownhost_add_name s host salt typemask = Some (rc, Some r, s')"
    and "host_type typemask = KNOWNHOST_TYPE_PLAIN"
  shows "r = (cstring host, 0, None)"
  using assms
  by (auto simp: knownhost_add_name_def Let_def strlen_def cstring_def takeWhile_eq_take [symmetric]
      libssh2_error_def split: prod.splits bool.splits)

lemma add_key_base64:
  assumes "knownhost_add_key s key keylen typemask = (rc, Some k, s')"
    and "typemask AND KNOWNHOST_KEYENC_BASE64 \<noteq> 0"
  shows "k = take (if keylen = 0 then strlen key else keylen) key"
  using assms
  by (auto simp: knownhost_add_key_def Let_def libssh2_error_def split: prod.splits bool.splits)

lemma add_entry_plain:
  assumes "knownhost_add hosts host salt key keylen comment commentlen typemask = Some (0, ext, hosts')"
    and "host_type typemask = KNOWNHOST_TYPE_PLAIN" "typemask AND KNOWNHOST_KEYENC_BASE64 \<noteq> 0"
  obtains e where "kh_list hosts' = kh_list hosts @ [e]" "kh_name e = cstring host"
    "kh_key e = take (if keylen = 0 then strlen key else keylen) key" "kh_typemask e = typemask"
  using assms
  by (auto simp: knownhost_add_def Let_def libssh2_error_def
      dest!: add_name_plain add_key_base64 dest: add_name_cases add_key_cases
      split: if_splits prod.splits option.splits bool.splits)

section \<open>Properties\<close>

text \<open>C10. Checking a host: the candidates are the entries whose name matches \<^verbatim>\<open>[host]:port\<close> (when
  a port is given) followed by those matching the bare host, in store order, where a hashed
  entry matches a plain query by its salted HMAC. The answer is MATCH with the first
  candidate that has the queried key; without one it is MISMATCH with the first candidate, and
  NOTFOUND exactly when there is no candidate. The store is not changed, apart from the
  allocation made to encode a raw key.\<close>

theorem knownhost_check_spec:
  assumes "host_type typemask \<noteq> KNOWNHOST_TYPE_SHA1"
    and "check_key hosts key keylen typemask = (Some k, s)"
  shows "knownhost_check hmac hosts hostp port key keylen typemask =
    (let cands = check_candidates hmac (host_type typemask) (check_names hostp port) (kh_list hosts);
         hosts' = hosts\<lparr>kh_session := s\<rparr>
     in case find (\<lambda>n. cstring k = cstring (kh_key n)) cands of
          Some n \<Rightarrow> (KNOWNHOST_CHECK_MATCH, Some (knownhost_to_external n), hosts')
        | None \<Rightarrow>
            (case cands of
               [] \<Rightarrow> (KNOWNHOST_CHECK_NOTFOUND, None, hosts')
             | b # _ \<Rightarrow> (KNOWNHOST_CHECK_MISMATCH, Some (knownhost_to_external b), hosts')))"
  using assms by (rule knownhost_check_candidates)

definition sample_entry :: known_host where
  "sample_entry = \<lparr>kh_node = 1, kh_name = cstr ''[ftp]:22'', kh_name_len = 0,
     kh_typemask = line_typemask KNOWNHOST_KEY_SSHRSA KNOWNHOST_TYPE_PLAIN, kh_salt = None,
     kh_key = cstr ''AAAAB3NzaC1yc2E='', kh_comment = Some (cstr ''me'')\<rparr>"

definition sample_hosts :: knownhosts where
  "sample_hosts = \<lparr>kh_session = session_cleared env0, kh_list = [sample_entry], kh_fresh = 2\<rparr>"

theorem knownhost_check_spec_witness:
  "knownhost_check (\<lambda>k d. k @ d) sample_hosts (cstr ''ftp'') 22 (cstr ''AAAAB3NzaC1yc2E='') 16
     (KNOWNHOST_TYPE_PLAIN OR KNOWNHOST_KEYENC_BASE64)
   = (KNOWNHOST_CHECK_MATCH, Some (knownhost_to_external sample_entry), sample_hosts)"
  by (subst knownhost_check_spec [where k = "cstr ''AAAAB3NzaC1yc2E=''" and s = "kh_session sample_hosts"])
    (simp_all add: check_key_def host_type_def check_candidates_def check_names_def node_match_def
      sample_hosts_def sample_entry_def check_hostbuff_def dec_digits.simps line_typemask_def
      cstring_def Let_def)

text \<open>C29. A host added with its key is recognised: after a successful add of a plain name with a
  base64 key, checking that name with that key answers MATCH, whatever the store held before.\<close>

theorem knownhost_add_then_check:
  assumes "knownhost_add hosts host None key keylen comment commentlen typemask = Some (0, ext, hosts')"
    and "host_type typemask = KNOWNHOST_TYPE_PLAIN" "typemask AND KNOWNHOST_KEYENC_BASE64 \<noteq> 0"
    and "nul_free key" "keylen = 0 \<or> keylen = length key"
  shows "fst (libssh2_knownhost_check hmac hosts' host key keylen typemask) = KNOWNHOST_CHECK_MATCH"
proof -
  obtain e where e: "kh_list hosts' = kh_list hosts @ [e]" "kh_name e = cstring host"
      "kh_key e = take (if keylen = 0 then strlen key else keylen) key" "kh_typemask e = typemask"
    using add_entry_plain [OF assms(1-3)] .
  have "kh_key e = key" using e(3) assms(4,5) by auto
  have "node_match hmac KNOWNHOST_TYPE_PLAIN host e False"
    using e assms(2) by (simp add: node_match_def)
  then have "e \<in> set (check_candidates hmac (host_type typemask) (check_names host (-1)) (kh_list hosts'))"
    using e assms(2) by (simp add: check_candidates_def check_names_def)
  then have "find (\<lambda>n. cstring key = cstring (kh_key n))
      (check_candidates hmac (host_type typemask) (check_names host (-1)) (kh_list hosts')) \<noteq> None"
    using \<open>kh_key e = key\<close> by (auto simp: find_None_iff)
  moreover have "check_key hosts' key keylen typemask = (Some key, kh_session hosts')"
    using assms(3) by (simp add: check_key_def)
  ultimately show ?thesis
    using assms(2) knownhost_check_candidates [of typemask hosts' key keylen key "kh_session hosts'"]
    by (auto simp: libssh2_knownhost_check_def Let_def)
qed

theorem knownhost_add_then_check_witness:
  "fst (libssh2_knownhost_check (\<lambda>k d. k @ d)
     (sample_hosts\<lparr>kh_list := [sample_entry,
        \<lparr>kh_node = 2, kh_name = cstr ''web'', kh_name_len = 0,
         kh_typemask = line_typemask KNOWNHOST_KEY_SSHDSS KNOWNHOST_TYPE_PLAIN, kh_salt = None,
         kh_key = cstr ''AAAA'', kh_comment = None\<rparr>], kh_fresh := 3\<rparr>)
     (cstr ''web'') (cstr ''AAAA'') 4 (line_typemask KNOWNHOST_KEY_SSHDSS KNOWNHOST_TYPE_PLAIN))
   = KNOWNHOST_CHECK_MATCH"
proof (rule knownhost_add_then_check)
  show "knownhost_add sample_hosts (cstr ''web'') None (cstr ''AAAA'') 4 None 0
      (line_typemask KNOWNHOST_KEY_SSHDSS KNOWNHOST_TYPE_PLAIN) =
    Some (0, Some (knownhost_to_external
        \<lparr>kh_node = 2, kh_name = cstr ''web'', kh_name_len = 0,
         kh_typemask = line_typemask KNOWNHOST_KEY_SSHDSS KNOWNHOST_TYPE_PLAIN, kh_salt = None,
         kh_key = cstr ''AAAA'', kh_comment = None\<rparr>),
      sample_hosts\<lparr>kh_list := [sample_entry,
        \<lparr>kh_node = 2, kh_name = cstr ''web'', kh_name_len = 0,
         kh_typemask = line_typemask KNOWNHOST_KEY_SSHDSS KNOWNHOST_TYPE_PLAIN, kh_salt = None,
         kh_key = cstr ''AAAA'', kh_comment = None\<rparr>], kh_fresh := 3\<rparr>)"
    by (subst knownhost_add_plain) (simp_all add: sample_hosts_def Let_def)
qed (simp_all add: host_type_def line_typemask_def)

text \<open>C18. The store invariant (distinct node addresses below the next free one, a salt and a
  full-length hash for every hashed entry, a key type for every entry) holds of a new
  collection and is kept by every operation. Adding appends exactly one entry at a new address
  or, on an error, leaves the entries alone; reading a line or a file only appends.\<close>

theorem knownhost_store_invariant:
  "(libssh2_knownhost_init s = (Some h0, s0) \<longrightarrow> kh_wf h0 \<and> kh_list h0 = []) \<and>
   (kh_wf hosts \<longrightarrow>
     (\<forall>rc ext hosts'.
       knownhost_add hosts host salt key keylen comment commentlen typemask = Some (rc, ext, hosts') \<longrightarrow>
         kh_wf hosts' \<and>
         (if rc = 0 then (\<exists>e. kh_list hosts' = kh_list hosts @ [e] \<and> kh_node e \<notin> kh_node ` set (kh_list hosts)
                            \<and> ext = Some (knownhost_to_external e))
          else rc < 0 \<and> ext = None \<and> kh_list hosts' = kh_list hosts)) \<and>
     (\<forall>rc ext hosts'. libssh2_knownhost_del hosts entry = (rc, ext, hosts') \<longrightarrow> kh_wf hosts') \<and>
     (\<forall>rc hosts'. libssh2_knownhost_readline hosts line len type = Some (rc, hosts') \<longrightarrow>
         kh_wf hosts' \<and> (\<exists>es. kh_list hosts' = kh_list hosts @ es)) \<and>
     (\<forall>rc hosts'. libssh2_knownhost_readfile hosts file type = Some (rc, hosts') \<longrightarrow>
         kh_wf hosts' \<and> (\<exists>es. kh_list hosts' = kh_list hosts @ es)))"
proof (intro conjI impI allI)
  assume "libssh2_knownhost_init s = (Some h0, s0)"
  then show "kh_wf h0" "kh_list h0 = []"
    by (auto simp: libssh2_knownhost_init_def kh_wf_def split: prod.splits bool.splits)
next
  fix rc ext hosts'
  assume wf: "kh_wf hosts"
    and a: "knownhost_add hosts host salt key keylen comment commentlen typemask = Some (rc, ext, hosts')"
  show "kh_wf hosts'" using kh_step_wf [OF kh_step_add [OF a] wf] .
  show "if rc = 0 then \<exists>e. kh_list hosts' = kh_list hosts @ [e] \<and>
          kh_node e \<notin> kh_node ` set (kh_list hosts) \<and> ext = Some (knownhost_to_external e)
        else rc < 0 \<and> ext = None \<and> kh_list hosts' = kh_list hosts"
    using knownhost_add_cases [OF a] wf by (fastforce simp: kh_wf_def)
qed (blast dest: del_wf readline_steps readfile_steps khs.steps_wf khs.steps_append)+

theorem knownhost_store_invariant_witness:
  "kh_wf sample_hosts \<and>
   (\<exists>h0 s0. libssh2_knownhost_init (session_cleared env0) = (Some h0, s0) \<and> kh_wf h0) \<and>
   kh_wf (snd (snd (libssh2_knownhost_del sample_hosts (Some (knownhost_to_external sample_entry)))))"
proof -
  note inv = knownhost_store_invariant [of "session_cleared env0"
      "\<lparr>kh_session = session_cleared env0, kh_list = [], kh_fresh = 1\<rparr>"
      "session_cleared env0" sample_hosts "[]" None "[]" 0 None 0 0
      "Some (knownhost_to_external sample_entry)" "[]" 0 1 None]
  have i: "libssh2_knownhost_init (session_cleared env0)
      = (Some \<lparr>kh_session = session_cleared env0, kh_list = [], kh_fresh = 1\<rparr>,
         session_cleared env0)"
    by (simp add: libssh2_knownhost_init_def libssh2_alloc_unlimited)
  have w: "kh_wf sample_hosts"
    by (simp add: kh_wf_def sample_hosts_def sample_entry_def entry_wf_def host_type_def line_typemask_def)
  have "kh_wf (snd (snd (libssh2_knownhost_del sample_hosts (Some (knownhost_to_external sample_entry)))))"
    using inv w by (metis prod.collapse)
  with inv i w show ?thesis by blast
qed

text \<open>C14. A stored entry survives being written to a line and read back: for an \<^verbatim>\<open>ssh-rsa\<close> or
  \<^verbatim>\<open>ssh-dss\<close> entry with a plain name or with a salted hash, the line written fits its
  declared length, and reading it appends an entry with the same name (or hash and salt),
  key, comment and type mask.\<close>

theorem knownhost_line_roundtrip:
  assumes "plain_line kt e \<or> hashed_line kt e"
    and "allocs (env s) = []" "allocs (env (kh_session hosts)) = []"
  shows "\<exists>n line. (\<forall>buflen > n. knownhost_writeline s e buflen KNOWNHOST_FILE_OPENSSH
            = Some (0, Some line, Some n, s)) \<and> n = length line \<and>
     libssh2_knownhost_readline hosts line n KNOWNHOST_FILE_OPENSSH =
       Some (0, hosts\<lparr>kh_list := kh_list hosts @ [e\<lparr>kh_node := kh_fresh hosts\<rparr>],
                      kh_fresh := Suc (kh_fresh hosts)\<rparr>)"
  using assms(1)
proof
  assume "plain_line kt e"
  with plain_written [OF this, of _ s] plain_read [OF this assms(3)] show ?thesis
    by (intro exI [of _ "length (kh_name e @ writeline_tail e)"] exI [of _ "kh_name e @ writeline_tail e"])
      (simp add: Suc_le_eq)
next
  assume "hashed_line kt e"
  with hashed_written [OF this _ assms(2)] hashed_read [OF this assms(3)] show ?thesis
    by (intro exI [of _ "length (hashed_host e @ writeline_tail e)"]
        exI [of _ "hashed_host e @ writeline_tail e"])
      (simp add: Suc_le_eq)
qed

theorem knownhost_line_roundtrip_witness:
  "(\<exists>line. knownhost_writeline (session_cleared env0) sample_entry 2048 KNOWNHOST_FILE_OPENSSH
      = Some (0, Some line, Some (length line), session_cleared env0) \<and>
    libssh2_knownhost_readline (sample_hosts\<lparr>kh_list := []\<rparr>) line (length line) KNOWNHOST_FILE_OPENSSH
      = Some (0, sample_hosts\<lparr>kh_list := [sample_entry\<lparr>kh_node := 2\<rparr>], kh_fresh := 3\<rparr>))"
proof -
  let ?s = "session_cleared env0"
  have p: "plain_line KNOWNHOST_KEY_SSHRSA sample_entry"
    by (simp add: plain_line_def sample_entry_def is_blank_def key_text_def comment_text_def comment_tail_def)
  have a: "allocs (env ?s) = []" "allocs (env (kh_session (sample_hosts\<lparr>kh_list := []\<rparr>))) = []"
    by (simp_all add: sample_hosts_def)
  obtain line where l: "\<And>b. b > length line \<Longrightarrow>
        knownhost_writeline ?s sample_entry b KNOWNHOST_FILE_OPENSSH = Some (0, Some line, Some (length line), ?s)"
      "libssh2_knownhost_readline (sample_hosts\<lparr>kh_list := []\<rparr>) line (length line) KNOWNHOST_FILE_OPENSSH
         = Some (0, sample_hosts\<lparr>kh_list := [sample_entry\<lparr>kh_node := 2\<rparr>], kh_fresh := 3\<rparr>)"
    using knownhost_line_roundtrip [OF disjI1 [OF p] a] by (auto simp: sample_hosts_def)
  have w: "knownhost_writeline ?s sample_entry 2048 KNOWNHOST_FILE_OPENSSH \<noteq> None"
    "\<And>n s. knownhost_writeline ?s sample_entry 2048 KNOWNHOST_FILE_OPENSSH \<noteq> Some (-38, None, n, s)"
    by (simp_all add: knownhost_writeline_def sample_entry_def host_type_def line_typemask_def Let_def
        key_tindex_def keytypes_def strlen_def)
  have "length line < 2048"
    using l(1) [of "Suc (length line)"] w
    by (auto simp: knownhost_writeline_def sample_entry_def host_type_def line_typemask_def Let_def
        key_tindex_def keytypes_def strlen_def libssh2_error_def split: if_splits)
  with l show ?thesis by blast
qed



lemma key_tindex_less: "key_tindex tm < 4"
proof -
  have "drop_bit 18 (tm AND KNOWNHOST_KEY_MASK) = drop_bit 18 tm AND drop_bit 18 KNOWNHOST_KEY_MASK"
    by simp
  also have "\<dots> \<le> drop_bit 18 KNOWNHOST_KEY_MASK" by (rule word_and_le1)
  finally have "drop_bit 18 (tm AND KNOWNHOST_KEY_MASK) \<le> 3" by simp
  then show ?thesis by (simp add: key_tindex_def word_le_nat_alt)
qed

text \<open>C31. The line writer never overruns its buffer: on success the line and its terminator fit
  \<^verbatim>\<open>buflen\<close> and \<^verbatim>\<open>*outlen\<close> is the length of the line; the only other outcome that
  sets \<^verbatim>\<open>*outlen\<close> is BUFFER_TOO_SMALL, which stores the length that is needed: the same call
  with one byte more than that succeeds (the allocations of both calls not failing).\<close>

theorem knownhost_writeline_bounds:
  assumes "knownhost_writeline s e buflen type = Some (rc, line, outlen, s')" "allocs (env s) = []"
  shows "(rc = 0 \<longrightarrow> (\<exists>l. line = Some l \<and> outlen = Some (length l) \<and> length l < buflen)) \<and>
    (rc \<noteq> 0 \<longrightarrow> line = None) \<and>
    (rc = LIBSSH2_ERROR_BUFFER_TOO_SMALL \<longrightarrow>
       (\<exists>n l s''. outlen = Some n \<and> buflen \<le> n \<and>
          knownhost_writeline s e (Suc n) type = Some (0, Some l, Some n, s'') \<and> length l = n))"
proof -
  have len: "length (writeline_tail e) = strlen (keytypes ! key_tindex (kh_typemask e))
      + strlen (kh_key e) + (case kh_comment e of None \<Rightarrow> 0 | Some c \<Rightarrow> strlen c + 1) + 2"
  proof -
    have "keytypes ! key_tindex (kh_typemask e) \<in> set keytypes"
      by (rule nth_mem) (use key_tindex_less [of "kh_typemask e"] in \<open>simp add: keytypes_def\<close>)
    moreover have "\<forall>k \<in> set keytypes. nul_free k" by (simp add: keytypes_def)
    ultimately have "nul_free (keytypes ! key_tindex (kh_typemask e))" by blast
    then show ?thesis by (simp add: writeline_tail_def split: option.splits)
  qed
  show ?thesis
    using assms
    by (auto simp: knownhost_writeline_def len libssh2_base64_encode_def libssh2_alloc_unlimited
        encode_nul_free libssh2_error_def Let_def
        split: if_splits option.splits)
qed

theorem knownhost_writeline_bounds_witness:
  "\<exists>n. knownhost_writeline (session_cleared env0) sample_entry 10 KNOWNHOST_FILE_OPENSSH
        = Some (LIBSSH2_ERROR_BUFFER_TOO_SMALL, None, Some n,
                snd (libssh2_error (session_cleared env0) LIBSSH2_ERROR_BUFFER_TOO_SMALL
                       ''Known-host write buffer too small'')) \<and>
      (\<exists>l s. knownhost_writeline (session_cleared env0) sample_entry (Suc n) KNOWNHOST_FILE_OPENSSH
        = Some (0, Some l, Some n, s) \<and> length l = n)"
proof -
  let ?s = "session_cleared env0"
  have w: "knownhost_writeline ?s sample_entry 10 KNOWNHOST_FILE_OPENSSH
        = Some (LIBSSH2_ERROR_BUFFER_TOO_SMALL, None, Some 37,
                snd (libssh2_error ?s LIBSSH2_ERROR_BUFFER_TOO_SMALL ''Known-host write buffer too small''))"
    by (simp add: knownhost_writeline_def sample_entry_def host_type_def line_typemask_def Let_def
        key_tindex_def keytypes_def strlen_def libssh2_error_def)
  from knownhost_writeline_bounds [OF w allocs_env0] show ?thesis unfolding w by auto
qed

text \<open>C32. The round trip needs a host name of at least three bytes: a line with a one- or
  two-byte host name takes the branch for hashed names, finds no separator and is dropped,
  while the reader reports success and stores nothing.\<close>

theorem knownhost_short_host_dropped:
  assumes "h \<noteq> []" "length h \<le> 2" "hd h \<noteq> of_char CHR ''#''" "hd h \<noteq> 10"
    and "\<forall>c \<in> set h. c \<noteq> 0 \<and> \<not> is_blank c"
    and "kt = KNOWNHOST_KEY_SSHRSA \<or> kt = KNOWNHOST_KEY_SSHDSS"
    and "key_text (kh_key e)" "comment_text (kh_comment e)"
    and "length (kh_key e) + length (comment_tail (kh_comment e)) + 8 < 2 ^ 64"
    and "\<forall>c \<in> set (key_part kt e). c \<noteq> of_char CHR ''|''"
  shows "libssh2_knownhost_readline hosts (h @ 32 # key_part kt e @ [10])
      (length h + length (key_part kt e) + 2) KNOWNHOST_FILE_OPENSSH = Some (0, hosts)"
proof -
  let ?K = "key_part kt e"
  have split: "libssh2_knownhost_readline hosts (h @ 32 # ?K @ [10]) (length h + length ?K + 2)
      KNOWNHOST_FILE_OPENSSH = hostline hosts (h @ 32 # ?K @ [10]) (length h) (?K @ [10]) (length ?K)"
    using assms key_part_facts(1-3) [OF assms(7,8), of kt] by (intro readline_split) auto
  have nosep: "deref (dropWhile (\<lambda>c. c \<noteq> 0 \<and> c \<noteq> of_char CHR ''|'') (drop 3 (h @ 32 # ?K @ [10]))) = 0"
  proof -
    have "\<forall>c \<in> set (drop (2 - length h) (?K @ [10])). c \<noteq> 0 \<and> c \<noteq> of_char CHR ''|''"
      using assms(10) key_part_facts(2) [OF assms(7,8), of kt] by (auto dest: in_set_dropD)
    moreover have "drop 3 (h @ 32 # ?K @ [10]) = drop (2 - length h) (?K @ [10])"
      using assms(1,2) by (cases h; cases "tl h") auto
    ultimately show ?thesis by (auto simp: dropWhile_eq_Nil_conv [THEN iffD2])
  qed
  show ?thesis
    unfolding split
    by (rule hostline_written [OF assms(6-9), of hosts "h @ 32 # ?K @ [10]" "length h"])
      (use assms(2) nosep in \<open>simp add: hashed_hostline_def Let_def\<close>)
qed

theorem knownhost_short_host_dropped_witness:
  "libssh2_knownhost_readline sample_hosts (cstr ''pc'' @ 32 # key_part KNOWNHOST_KEY_SSHRSA sample_entry @ [10])
     (length (cstr ''pc'') + length (key_part KNOWNHOST_KEY_SSHRSA sample_entry) + 2) KNOWNHOST_FILE_OPENSSH
   = Some (0, sample_hosts)"
  by (rule knownhost_short_host_dropped)
    (simp_all add: is_blank_def sample_entry_def key_text_def comment_text_def comment_tail_def key_part_def)

end
