(* ===== verification/Linked_List.thy ===== *)
theory Linked_List
  imports Prelude
begin

text \<open>
  The intrusive doubly linked lists of \<^verbatim>\<open>libssh2/src/misc.c\<close>, which hold the session's packets,
  channels, listeners and known hosts. The memory is a store of list heads and list nodes by
  address, address 0 being NULL, and every operation updates it as the C code does, pointer by
  pointer. \<open>dlist\<close> says that a head and the nodes behind it represent a sequence of addresses;
  adding and removing a node refine appending to and deleting from that sequence and leave
  every other list of the store alone. Components whose state holds such a list use the
  sequence; this theory is what justifies it.
\<close>

section \<open>Memory and operations\<close>

type_synonym addr = nat

record list_node =
  nd_next :: addr
  nd_prev :: addr
  nd_head :: addr

record list_head =
  hd_last :: addr
  hd_first :: addr

record lstore =
  heads :: "addr \<Rightarrow> list_head"
  nodes :: "addr \<Rightarrow> list_node"

definition libssh2_list_init :: "addr \<Rightarrow> lstore \<Rightarrow> lstore" where
  "libssh2_list_init h m = m\<lparr>heads := (heads m)(h := \<lparr>hd_last = 0, hd_first = 0\<rparr>)\<rparr>"

definition set_first :: "addr \<Rightarrow> addr \<Rightarrow> lstore \<Rightarrow> lstore" where
  "set_first h a m = m\<lparr>heads := (heads m)(h := (heads m h)\<lparr>hd_first := a\<rparr>)\<rparr>"

definition set_last :: "addr \<Rightarrow> addr \<Rightarrow> lstore \<Rightarrow> lstore" where
  "set_last h a m = m\<lparr>heads := (heads m)(h := (heads m h)\<lparr>hd_last := a\<rparr>)\<rparr>"

definition set_next :: "addr \<Rightarrow> addr \<Rightarrow> lstore \<Rightarrow> lstore" where
  "set_next e a m = m\<lparr>nodes := (nodes m)(e := (nodes m e)\<lparr>nd_next := a\<rparr>)\<rparr>"

definition set_prev :: "addr \<Rightarrow> addr \<Rightarrow> lstore \<Rightarrow> lstore" where
  "set_prev e a m = m\<lparr>nodes := (nodes m)(e := (nodes m e)\<lparr>nd_prev := a\<rparr>)\<rparr>"

definition set_head :: "addr \<Rightarrow> addr \<Rightarrow> lstore \<Rightarrow> lstore" where
  "set_head e h m = m\<lparr>nodes := (nodes m)(e := (nodes m e)\<lparr>nd_head := h\<rparr>)\<rparr>"

definition libssh2_list_add :: "addr \<Rightarrow> addr \<Rightarrow> lstore \<Rightarrow> lstore" where
  "libssh2_list_add head entry m =
     (let m1 = set_head entry head m;
          m2 = set_next entry 0 m1;
          m3 = set_prev entry (hd_last (heads m2 head)) m2;
          m4 = set_last head entry m3
      in if nd_prev (nodes m4 entry) \<noteq> 0
         then set_next (nd_prev (nodes m4 entry)) entry m4
         else set_first head entry m4)"

definition libssh2_list_first :: "addr \<Rightarrow> lstore \<Rightarrow> addr" where
  "libssh2_list_first head m = hd_first (heads m head)"

definition libssh2_list_next :: "addr \<Rightarrow> lstore \<Rightarrow> addr" where
  "libssh2_list_next node m = nd_next (nodes m node)"

definition libssh2_list_prev :: "addr \<Rightarrow> lstore \<Rightarrow> addr" where
  "libssh2_list_prev node m = nd_prev (nodes m node)"

definition libssh2_list_remove :: "addr \<Rightarrow> lstore \<Rightarrow> lstore" where
  "libssh2_list_remove entry m =
     (let e = nodes m entry;
          m1 = (if nd_prev e \<noteq> 0 then set_next (nd_prev e) (nd_next e) m
                else set_first (nd_head e) (nd_next e) m)
      in if nd_next (nodes m1 entry) \<noteq> 0
         then set_prev (nd_next (nodes m1 entry)) (nd_prev (nodes m1 entry)) m1
         else set_last (nd_head (nodes m1 entry)) (nd_prev (nodes m1 entry)) m1)"

section \<open>Representation\<close>

definition hd0 :: "addr list \<Rightarrow> addr" where
  "hd0 xs = (case xs of [] \<Rightarrow> 0 | x # _ \<Rightarrow> x)"

definition last0 :: "addr list \<Rightarrow> addr" where
  "last0 xs = (if xs = [] then 0 else last xs)"

text \<open>A segment: the nodes \<open>xs\<close> are chained in both directions between \<open>p\<close> and \<open>q\<close>.\<close>

fun seg :: "lstore \<Rightarrow> addr \<Rightarrow> addr \<Rightarrow> addr list \<Rightarrow> addr \<Rightarrow> bool" where
  "seg m h p [] q \<longleftrightarrow> True"
| "seg m h p (x # xs) q \<longleftrightarrow>
     nd_head (nodes m x) = h \<and> nd_prev (nodes m x) = p \<and>
     nd_next (nodes m x) = (case xs of [] \<Rightarrow> q | y # _ \<Rightarrow> y) \<and> seg m h x xs q"

definition dlist :: "lstore \<Rightarrow> addr \<Rightarrow> addr list \<Rightarrow> bool" where
  "dlist m h xs \<longleftrightarrow>
     distinct xs \<and> 0 \<notin> set xs \<and> hd_first (heads m h) = hd0 xs \<and> hd_last (heads m h) = last0 xs \<and>
     seg m h 0 xs 0"

text \<open>The traversal every client writes: from the first node, following \<^verbatim>\<open>next\<close> until NULL.
  \<open>fuel\<close> bounds the number of nodes visited; \<open>dlist_walk\<close> gives a sufficient one.\<close>

fun list_walk :: "nat \<Rightarrow> addr \<Rightarrow> lstore \<Rightarrow> addr list option" where
  "list_walk fuel a m =
     (if a = 0 then Some []
      else case fuel of 0 \<Rightarrow> None
           | Suc n \<Rightarrow> map_option ((#) a) (list_walk n (libssh2_list_next a m) m))"

declare list_walk.simps [simp del]

section \<open>Segments\<close>

lemma seg_append:
  "seg m h p (xs @ ys) q \<longleftrightarrow>
     seg m h p xs (case ys of [] \<Rightarrow> q | y # _ \<Rightarrow> y) \<and> seg m h (if xs = [] then p else last xs) ys q"
  by (induction xs arbitrary: p) (auto split: list.splits)

lemma seg_cong:
  "(\<And>x. x \<in> set xs \<Longrightarrow> nodes m' x = nodes m x) \<Longrightarrow> seg m' h p xs q = seg m h p xs q"
  by (induction xs arbitrary: p) auto

lemma last0_mem: "last0 xs = 0 \<or> last0 xs \<in> set xs"
  by (simp add: last0_def)

lemma hd0_mem: "hd0 xs = 0 \<or> hd0 xs \<in> set xs"
  by (cases xs) (simp_all add: hd0_def)

lemma last0_nonzero: "0 \<notin> set xs \<Longrightarrow> last0 xs \<noteq> 0 \<longleftrightarrow> xs \<noteq> []"
  unfolding last0_def using last_in_set by metis

lemma hd0_nonzero: "0 \<notin> set xs \<Longrightarrow> hd0 xs \<noteq> 0 \<longleftrightarrow> xs \<noteq> []"
  by (cases xs) (auto simp: hd0_def)

lemmas store_ops = set_first_def set_last_def set_next_def set_prev_def set_head_def

text \<open>Rewriting the \<^verbatim>\<open>next\<close> of a segment's last node, or the \<^verbatim>\<open>prev\<close> of its first.\<close>

lemma seg_set_next_last:
  "distinct (xs @ [x]) \<Longrightarrow> seg m h p (xs @ [x]) q \<Longrightarrow> seg (set_next x q' m) h p (xs @ [x]) q'"
proof -
  assume d: "distinct (xs @ [x])" and s: "seg m h p (xs @ [x]) q"
  have "seg (set_next x q' m) h p xs x = seg m h p xs x"
    using d by (intro seg_cong) (auto simp: store_ops)
  with s show ?thesis by (auto simp: seg_append store_ops)
qed

lemma seg_set_prev_first:
  "distinct (y # ys) \<Longrightarrow> seg m h p (y # ys) q \<Longrightarrow> seg (set_prev y p' m) h p' (y # ys) q"
proof -
  assume d: "distinct (y # ys)" and s: "seg m h p (y # ys) q"
  have "seg (set_prev y p' m) h y ys q = seg m h y ys q"
    using d by (intro seg_cong) (auto simp: store_ops)
  with s show ?thesis by (auto simp: store_ops)
qed

section \<open>The operations refine the sequence\<close>

lemma dlist_init: "dlist (libssh2_list_init h m) h []"
  by (simp add: dlist_def libssh2_list_init_def hd0_def last0_def)

lemma add_nodes_other:
  "x \<noteq> e \<Longrightarrow> x \<noteq> hd_last (heads m h) \<Longrightarrow> nodes (libssh2_list_add h e m) x = nodes m x"
  by (simp add: libssh2_list_add_def Let_def store_ops)

lemma add_heads_other: "h' \<noteq> h \<Longrightarrow> heads (libssh2_list_add h e m) h' = heads m h'"
  by (simp add: libssh2_list_add_def Let_def store_ops)

lemma dlist_add:
  assumes d: "dlist m h xs" and e: "e \<notin> set xs" "e \<noteq> 0"
  shows "dlist (libssh2_list_add h e m) h (xs @ [e])"
proof (cases xs rule: rev_cases)
  case Nil
  with d e show ?thesis
    by (simp add: dlist_def libssh2_list_add_def Let_def store_ops hd0_def last0_def)
next
  case (snoc ys y)
  with d have last: "hd_last (heads m h) = y" and y0: "y \<noteq> 0"
    and s: "seg m h 0 (ys @ [y]) 0" and dist: "distinct (ys @ [y])"
    and hd: "hd_first (heads m h) = hd0 (ys @ [y])" and nz: "0 \<notin> set (ys @ [y])"
    by (auto simp: dlist_def last0_def)
  have ne: "y \<noteq> e" using e snoc by auto
  let ?m1 = "set_prev e y (set_next e 0 (set_head e h m))"
  have add: "libssh2_list_add h e m = set_next y e (set_last h e ?m1)"
    using y0 last by (simp add: libssh2_list_add_def Let_def store_ops)
  have "seg (set_last h e ?m1) h 0 (ys @ [y]) 0"
    using s e snoc by (subst seg_cong [of _ _ m]) (auto simp: store_ops)
  from seg_set_next_last [OF dist this, of e] have "seg (libssh2_list_add h e m) h 0 (ys @ [y]) e"
    by (simp only: add)
  moreover have "nodes (libssh2_list_add h e m) e = \<lparr>nd_next = 0, nd_prev = y, nd_head = h\<rparr>"
    using ne by (simp add: add store_ops)
  ultimately have "seg (libssh2_list_add h e m) h 0 ((ys @ [y]) @ [e]) 0"
    by (subst seg_append) simp
  moreover have "hd0 ((ys @ [y]) @ [e]) = hd0 (ys @ [y])"
    by (cases ys) (simp_all add: hd0_def)
  ultimately show ?thesis
    using dist nz e snoc hd y0 by (auto simp: dlist_def add store_ops last0_def)
qed

lemma dlist_add_frame:
  assumes "dlist m h xs" "dlist m h' ys" "h' \<noteq> h" "set xs \<inter> set ys = {}" "e \<notin> set ys"
  shows "dlist (libssh2_list_add h e m) h' ys"
proof -
  have "hd_last (heads m h) = last0 xs" using assms(1) by (simp add: dlist_def)
  moreover have "last0 xs \<notin> set ys"
    using assms(1,2,4) last0_mem [of xs] by (auto simp: dlist_def)
  ultimately have "nodes (libssh2_list_add h e m) x = nodes m x" if "x \<in> set ys" for x
    using that assms(5) by (metis add_nodes_other)
  then show ?thesis
    using assms(2,3) seg_cong [of ys "libssh2_list_add h e m" m] add_heads_other [OF assms(3)]
    by (simp add: dlist_def)
qed

text \<open>Removing a node: the neighbours are linked to each other, or to the head.\<close>

lemma dlist_node:
  assumes "dlist m h (xs @ e # ys)"
  shows "nd_head (nodes m e) = h" "nd_prev (nodes m e) = last0 xs" "nd_next (nodes m e) = hd0 ys"
  using assms by (auto simp: dlist_def seg_append last0_def hd0_def split: list.splits)

lemma dlist_remove:
  assumes d: "dlist m h (xs @ e # ys)"
  shows "dlist (libssh2_list_remove e m) h (xs @ ys)"
proof -
  note n = dlist_node [OF d]
  from d have dist: "distinct (xs @ e # ys)" and nz: "0 \<notin> set (xs @ e # ys)"
    and sx: "seg m h 0 xs e" and sy: "seg m h e ys 0"
    and first: "hd_first (heads m h) = hd0 (xs @ e # ys)"
    and last: "hd_last (heads m h) = last0 (xs @ e # ys)"
    by (auto simp: dlist_def seg_append split: list.splits)
  define m1 where "m1 = (if xs \<noteq> [] then set_next (last0 xs) (hd0 ys) m else set_first h (hd0 ys) m)"
  define m2 where "m2 = (if ys \<noteq> [] then set_prev (hd0 ys) (last0 xs) m1 else set_last h (last0 xs) m1)"
  have last_nz: "last0 xs \<noteq> 0 \<longleftrightarrow> xs \<noteq> []" and hd_nz: "hd0 ys \<noteq> 0 \<longleftrightarrow> ys \<noteq> []"
    using nz last0_nonzero [of xs] hd0_nonzero [of ys] by auto
  have ne: "xs \<noteq> [] \<Longrightarrow> last0 xs \<noteq> e" using dist by (auto simp: last0_def)
  have n1: "nodes m1 e = nodes m e" using ne by (auto simp: m1_def store_ops)
  have unlink: "(if nd_prev (nodes m e) \<noteq> 0 then set_next (nd_prev (nodes m e)) (nd_next (nodes m e)) m
      else set_first (nd_head (nodes m e)) (nd_next (nodes m e)) m) = m1"
    using last_nz by (simp add: n m1_def)
  have rem: "libssh2_list_remove e m = m2"
    unfolding libssh2_list_remove_def Let_def unfolding unlink unfolding n1 n m2_def
    using hd_nz by simp
  have "seg m2 h 0 xs (hd0 ys)"
  proof (cases xs rule: rev_cases)
    case (snoc us u)
    have "seg (set_next u (hd0 ys) m) h 0 (us @ [u]) (hd0 ys)"
      using seg_set_next_last [of us u m h 0 e] sx dist snoc by auto
    moreover have "hd0 ys \<notin> set xs" using dist nz by (cases ys) (auto simp: hd0_def)
    ultimately show ?thesis
      using snoc by (subst seg_cong [of _ _ "set_next u (hd0 ys) m"])
        (auto simp: m2_def m1_def store_ops last0_def)
  qed simp
  moreover have "seg m2 h (last0 xs) ys 0"
  proof (cases ys)
    case (Cons v vs)
    have "last0 xs \<notin> set ys" using dist nz last0_mem [of xs] by auto
    then have "seg m1 h e ys 0 = seg m h e ys 0"
      by (intro seg_cong) (auto simp: m1_def store_ops)
    then have "seg m1 h e (v # vs) 0" using sy Cons by simp
    then have "seg (set_prev v (last0 xs) m1) h (last0 xs) (v # vs) 0"
      using dist Cons by (intro seg_set_prev_first) auto
    then show ?thesis using Cons by (simp add: m2_def hd0_def)
  qed simp
  ultimately have "seg m2 h 0 (xs @ ys) 0"
    by (auto simp: seg_append last0_def hd0_def split: list.splits)
  moreover have "hd_first (heads m2 h) = hd0 (xs @ ys)"
    using first by (cases xs) (auto simp: m2_def m1_def store_ops hd0_def)
  moreover have "hd_last (heads m2 h) = last0 (xs @ ys)"
    using last by (auto simp: m2_def m1_def store_ops last0_def)
  ultimately show ?thesis using dist nz by (auto simp: dlist_def rem)
qed

lemma dlist_next:
  "dlist m h (xs @ e # ys) \<Longrightarrow> libssh2_list_next e m = hd0 ys"
  by (simp add: libssh2_list_next_def dlist_node)

lemma dlist_first: "dlist m h xs \<Longrightarrow> libssh2_list_first h m = hd0 xs"
  by (simp add: libssh2_list_first_def dlist_def)

lemma dlist_prev:
  "dlist m h (xs @ e # ys) \<Longrightarrow> libssh2_list_prev e m = last0 xs"
  by (simp add: libssh2_list_prev_def dlist_node)

lemma remove_frame:
  assumes d: "dlist m h (xs @ e # ys)" and o: "dlist m h' zs" "h' \<noteq> h"
    "set (xs @ e # ys) \<inter> set zs = {}"
  shows "dlist (libssh2_list_remove e m) h' zs"
proof -
  note n = dlist_node [OF d]
  have nz: "0 \<notin> set zs" using o(1) by (simp add: dlist_def)
  have "last0 xs \<notin> set zs" "hd0 ys \<notin> set zs" "e \<notin> set zs"
    using o(3) nz last0_mem [of xs] hd0_mem [of ys] by auto
  then have "nodes (libssh2_list_remove e m) x = nodes m x" if "x \<in> set zs" for x
    using that by (auto simp: libssh2_list_remove_def Let_def store_ops n)
  moreover have "e \<noteq> last0 xs"
    using d last0_mem [of xs] by (auto simp: dlist_def)
  then have "heads (libssh2_list_remove e m) h' = heads m h'"
    using o(2) by (auto simp: libssh2_list_remove_def Let_def store_ops n)
  ultimately show ?thesis
    using o(1) seg_cong [of zs "libssh2_list_remove e m" m] by (simp add: dlist_def)
qed

section \<open>The interface the session's components use\<close>

text \<open>What a client of the list may rely on: \<open>rep m h xs\<close> relates a store and a head to the
  sequence it holds. The lemmas below are proved from these laws alone.\<close>

locale intrusive_list =
  fixes init :: "addr \<Rightarrow> 'm \<Rightarrow> 'm"
    and add :: "addr \<Rightarrow> addr \<Rightarrow> 'm \<Rightarrow> 'm"
    and remove :: "addr \<Rightarrow> 'm \<Rightarrow> 'm"
    and first :: "addr \<Rightarrow> 'm \<Rightarrow> addr"
    and nxt :: "addr \<Rightarrow> 'm \<Rightarrow> addr"
    and rep :: "'m \<Rightarrow> addr \<Rightarrow> addr list \<Rightarrow> bool"
  assumes rep_init: "rep (init h m) h []"
    and rep_add: "rep m h xs \<Longrightarrow> e \<notin> set xs \<Longrightarrow> e \<noteq> 0 \<Longrightarrow> rep (add h e m) h (xs @ [e])"
    and rep_remove: "rep m h (xs @ e # ys) \<Longrightarrow> rep (remove e m) h (xs @ ys)"
    and rep_first: "rep m h xs \<Longrightarrow> first h m = hd0 xs"
    and rep_next: "rep m h (xs @ e # ys) \<Longrightarrow> nxt e m = hd0 ys"
    and rep_distinct: "rep m h xs \<Longrightarrow> distinct xs \<and> 0 \<notin> set xs"
begin

lemma add_all:
  "rep m h xs \<Longrightarrow> distinct (xs @ es) \<Longrightarrow> 0 \<notin> set es \<Longrightarrow> rep (fold (add h) es m) h (xs @ es)"
proof (induction es arbitrary: m xs)
  case (Cons e es)
  then have "rep (add h e m) h (xs @ [e])" by (intro rep_add) auto
  from Cons.IH [OF this] Cons.prems show ?case by simp
qed simp

lemma remove_filter:
  assumes "rep m h xs" "e \<in> set xs"
  shows "rep (remove e m) h (filter (\<lambda>x. x \<noteq> e) xs)"
proof -
  from assms(2) obtain us vs where xs: "xs = us @ e # vs" by (meson split_list)
  with assms(1) have d: "e \<notin> set us" "e \<notin> set vs" using rep_distinct [of m h xs] by auto
  then have "filter (\<lambda>x. x \<noteq> e) xs = us @ vs" by (auto simp: xs intro!: filter_True arg_cong2 [where f = append])
  with rep_remove assms(1) xs show ?thesis by simp
qed

lemma add_then_remove:
  assumes "rep m h xs" "e \<notin> set xs" "e \<noteq> 0"
  shows "rep (remove e (add h e m)) h xs"
  using rep_remove [of _ h xs e "[]"] rep_add [OF assms] by simp

text \<open>Iterating \<open>nxt\<close> from the first node enumerates the sequence and ends at NULL.\<close>

lemma next_power:
  "rep m h xs \<Longrightarrow> i \<le> length xs \<Longrightarrow>
   ((\<lambda>a. nxt a m) ^^ i) (first h m) = hd0 (drop i xs)"
proof (induction i)
  case 0
  then show ?case by (simp add: rep_first)
next
  case (Suc i)
  then have i: "i < length xs" by simp
  then have xs: "xs = take i xs @ xs ! i # drop (Suc i) xs" by (rule id_take_nth_drop)
  have "((\<lambda>a. nxt a m) ^^ Suc i) (first h m) = nxt (xs ! i) m"
    using Suc i by (simp add: hd0_def Cons_nth_drop_Suc [symmetric])
  also have "\<dots> = hd0 (drop (Suc i) xs)"
    using rep_next [of m h "take i xs" "xs ! i" "drop (Suc i) xs"] Suc.prems xs by simp
  finally show ?case .
qed

end

interpretation dl: intrusive_list libssh2_list_init libssh2_list_add libssh2_list_remove
  libssh2_list_first libssh2_list_next dlist
proof unfold_locales
  show "dlist (libssh2_list_init h m) h []" for h m by (rule dlist_init)
  show "dlist m h xs \<Longrightarrow> e \<notin> set xs \<Longrightarrow> e \<noteq> 0 \<Longrightarrow> dlist (libssh2_list_add h e m) h (xs @ [e])"
    for m h xs e by (rule dlist_add)
  show "dlist m h (xs @ e # ys) \<Longrightarrow> dlist (libssh2_list_remove e m) h (xs @ ys)"
    for m h xs e ys by (rule dlist_remove)
  show "dlist m h xs \<Longrightarrow> libssh2_list_first h m = hd0 xs" for m h xs by (rule dlist_first)
  show "dlist m h (xs @ e # ys) \<Longrightarrow> libssh2_list_next e m = hd0 ys"
    for m h xs e ys by (rule dlist_next)
  show "dlist m h xs \<Longrightarrow> distinct xs \<and> 0 \<notin> set xs" for m h xs by (simp add: dlist_def)
qed

lemma list_walk_suffix:
  "dlist m h (xs @ ys) \<Longrightarrow> length ys \<le> fuel \<Longrightarrow> list_walk fuel (hd0 ys) m = Some ys"
proof (induction ys arbitrary: xs fuel)
  case Nil
  then show ?case by (subst list_walk.simps) (simp add: hd0_def)
next
  case (Cons y ys)
  then obtain n where n: "fuel = Suc n" by (cases fuel) auto
  have "y \<noteq> 0" using Cons.prems(1) by (auto simp: dlist_def)
  moreover have "libssh2_list_next y m = hd0 ys" using Cons.prems(1) by (rule dlist_next)
  moreover have "list_walk n (hd0 ys) m = Some ys"
    using Cons.IH [of "xs @ [y]" n] Cons.prems n by simp
  ultimately show ?case by (subst list_walk.simps) (simp add: hd0_def n)
qed

text \<open>C19. Building a list with \<^verbatim>\<open>_libssh2_list_add\<close>, removing one of its nodes with
  \<^verbatim>\<open>_libssh2_list_remove\<close> and traversing it with \<^verbatim>\<open>_libssh2_list_first\<close> and \<^verbatim>\<open>_libssh2_list_next\<close>
  visits exactly the remaining nodes, each once, in the order they were added, and stops; a
  second list of the same store with other nodes is not affected.\<close>

theorem list_add_remove_walk:
  assumes "distinct es" and "0 \<notin> set es" and "e \<in> set es"
    and "dlist (libssh2_list_init h m) h' zs" and "h' \<noteq> h" and "set es \<inter> set zs = {}"
  defines "m1 \<equiv> fold (libssh2_list_add h) es (libssh2_list_init h m)"
  shows "list_walk (length es) (libssh2_list_first h (libssh2_list_remove e m1))
           (libssh2_list_remove e m1) = Some (filter (\<lambda>x. x \<noteq> e) es)
       \<and> list_walk (length zs) (libssh2_list_first h' (libssh2_list_remove e m1))
           (libssh2_list_remove e m1) = Some zs"
proof -
  have frame: "dlist (fold (libssh2_list_add h) fs m') h' zs"
    if "dlist m' h xs" "dlist m' h' zs" "distinct (xs @ fs)" "0 \<notin> set fs"
      "set (xs @ fs) \<inter> set zs = {}" for m' xs fs
    using that
  proof (induction fs arbitrary: m' xs)
    case (Cons f fs)
    have "dlist (libssh2_list_add h f m') h (xs @ [f])"
      using Cons.prems by (intro dlist_add) auto
    moreover have "dlist (libssh2_list_add h f m') h' zs"
      using Cons.prems assms(5) by (intro dlist_add_frame [of m' h xs]) auto
    ultimately show ?case using Cons.IH [of _ "xs @ [f]"] Cons.prems by simp
  qed simp
  have rep: "dlist m1 h es"
    using dl.add_all [OF dlist_init] assms(1,2) by (simp add: m1_def)
  have other: "dlist m1 h' zs"
    unfolding m1_def by (rule frame [OF dlist_init]) (use assms in auto)
  have "dlist (libssh2_list_remove e m1) h (filter (\<lambda>x. x \<noteq> e) es)"
    using dl.remove_filter [OF rep assms(3)] .
  moreover obtain us vs where "es = us @ e # vs" using assms(3) by (meson split_list)
  then have "dlist (libssh2_list_remove e m1) h' zs"
    using remove_frame [OF _ other assms(5)] rep assms(6) by simp
  ultimately show ?thesis
    using list_walk_suffix [of "libssh2_list_remove e m1" _ "[]"]
    by (auto simp: dlist_first length_filter_le)
qed

theorem list_add_remove_walk_witness:
  "list_walk 3
     (libssh2_list_first 1 (libssh2_list_remove 11 (fold (libssh2_list_add 1) [10, 11, 12]
        (libssh2_list_init 1 (libssh2_list_init 2
          \<lparr>heads = (\<lambda>_. \<lparr>hd_last = 0, hd_first = 0\<rparr>),
           nodes = (\<lambda>_. \<lparr>nd_next = 0, nd_prev = 0, nd_head = 0\<rparr>)\<rparr>)))))
     (libssh2_list_remove 11 (fold (libssh2_list_add 1) [10, 11, 12]
        (libssh2_list_init 1 (libssh2_list_init 2
          \<lparr>heads = (\<lambda>_. \<lparr>hd_last = 0, hd_first = 0\<rparr>),
           nodes = (\<lambda>_. \<lparr>nd_next = 0, nd_prev = 0, nd_head = 0\<rparr>)\<rparr>))))
   = Some [10, 12]"
proof -
  let ?m = "libssh2_list_init 2 \<lparr>heads = (\<lambda>_. \<lparr>hd_last = 0, hd_first = 0\<rparr>),
     nodes = (\<lambda>_. \<lparr>nd_next = 0, nd_prev = 0, nd_head = 0\<rparr>)\<rparr>"
  have "dlist (libssh2_list_init 1 ?m) 2 []"
    by (simp add: dlist_def libssh2_list_init_def hd0_def last0_def)
  from list_add_remove_walk [of "[10, 11, 12]" 11, OF _ _ _ this] show ?thesis
    by (simp add: numeral_3_eq_3)
qed

end
