(* ===== verification/Methods.thy ===== *)
theory Methods
  imports Session
begin

text \<open>
  The method tables the key exchange negotiates over: \<^verbatim>\<open>libssh2_kex_methods\<close> of \<^verbatim>\<open>kex.c\<close>, the host
  key, cipher, MAC and compression tables of \<^verbatim>\<open>hostkey.c\<close>, \<^verbatim>\<open>crypt.c\<close>, \<^verbatim>\<open>mac.c\<close> and \<^verbatim>\<open>comp.c\<close>,
  and the MAC functions themselves, in the configuration with every OpenSSL algorithm enabled.

  OpenSSL and zlib are the record \<open>crypto\<close>: the block function of each cipher, HMAC of each
  digest, and the zlib method when the library was built with it. What the code relies on is
  \<open>hmac_lengths\<close>: a digest has its documented size.
\<close>

section \<open>The libraries\<close>

datatype cipher_type =
  cipher_aes128ctr | cipher_aes192ctr | cipher_aes256ctr | cipher_aes128 | cipher_aes192
  | cipher_aes256 | cipher_blowfish | cipher_arcfour | cipher_cast5 | cipher_3des

record crypto =
  cipher_crypt :: "cipher_type \<Rightarrow> abstract_state \<Rightarrow> byte list \<Rightarrow> (abstract_state \<times> byte list) option"
  hmac_sha1 :: "byte list \<Rightarrow> byte list \<Rightarrow> byte list"
  hmac_md5 :: "byte list \<Rightarrow> byte list \<Rightarrow> byte list"
  hmac_ripemd160 :: "byte list \<Rightarrow> byte list \<Rightarrow> byte list"
  zlib :: "((abstract_state option \<Rightarrow> nat \<Rightarrow> byte list \<Rightarrow> int \<times> byte list \<times> abstract_state option) \<times>
            (abstract_state option \<Rightarrow> nat \<Rightarrow> byte list \<Rightarrow> int \<times> byte list \<times> abstract_state option)) option"
    \<comment> \<open>compression and decompression, when built with zlib\<close>

section \<open>Key exchange and host key methods\<close>

abbreviation (input) "FLAG_REQ_ENC_HOSTKEY \<equiv> 1 :: u32"
abbreviation (input) "FLAG_REQ_SIGN_HOSTKEY \<equiv> 2 :: u32"

definition kex_method_diffie_helman_group1_sha1 :: kex_method where
  "kex_method_diffie_helman_group1_sha1 =
     \<lparr>km_name = cstr ''diffie-hellman-group1-sha1'', km_flags = FLAG_REQ_SIGN_HOSTKEY\<rparr>"

definition kex_method_diffie_helman_group14_sha1 :: kex_method where
  "kex_method_diffie_helman_group14_sha1 =
     \<lparr>km_name = cstr ''diffie-hellman-group14-sha1'', km_flags = FLAG_REQ_SIGN_HOSTKEY\<rparr>"

definition kex_method_diffie_helman_group_exchange_sha1 :: kex_method where
  "kex_method_diffie_helman_group_exchange_sha1 =
     \<lparr>km_name = cstr ''diffie-hellman-group-exchange-sha1'', km_flags = FLAG_REQ_SIGN_HOSTKEY\<rparr>"

definition libssh2_kex_methods :: "kex_method list" where
  "libssh2_kex_methods =
     [kex_method_diffie_helman_group14_sha1, kex_method_diffie_helman_group_exchange_sha1,
      kex_method_diffie_helman_group1_sha1]"

definition hostkey_method_ssh_rsa :: hostkey_method where
  "hostkey_method_ssh_rsa = \<lparr>hm_name = cstr ''ssh-rsa'', hm_encrypt = False, hm_sig_verify = True\<rparr>"

definition hostkey_method_ssh_dss :: hostkey_method where
  "hostkey_method_ssh_dss = \<lparr>hm_name = cstr ''ssh-dss'', hm_encrypt = False, hm_sig_verify = True\<rparr>"

definition libssh2_hostkey_methods :: "hostkey_method list" where
  "libssh2_hostkey_methods = [hostkey_method_ssh_rsa, hostkey_method_ssh_dss]"

section \<open>Ciphers\<close>

definition crypt_aes_ctr :: "crypto \<Rightarrow> crypt_method list" where
  "crypt_aes_ctr c =
     [\<lparr>cm_name = cstr ''aes128-ctr'', blocksize = 16, iv_len = 16, secret_len = 16,
       cm_crypt = cipher_crypt c cipher_aes128ctr\<rparr>,
      \<lparr>cm_name = cstr ''aes192-ctr'', blocksize = 16, iv_len = 16, secret_len = 24,
       cm_crypt = cipher_crypt c cipher_aes192ctr\<rparr>,
      \<lparr>cm_name = cstr ''aes256-ctr'', blocksize = 16, iv_len = 16, secret_len = 32,
       cm_crypt = cipher_crypt c cipher_aes256ctr\<rparr>]"

definition crypt_aes_cbc :: "crypto \<Rightarrow> crypt_method list" where
  "crypt_aes_cbc c =
     [\<lparr>cm_name = cstr ''aes256-cbc'', blocksize = 16, iv_len = 16, secret_len = 32,
       cm_crypt = cipher_crypt c cipher_aes256\<rparr>,
      \<lparr>cm_name = cstr ''rijndael-cbc@lysator.liu.se'', blocksize = 16, iv_len = 16, secret_len = 32,
       cm_crypt = cipher_crypt c cipher_aes256\<rparr>,
      \<lparr>cm_name = cstr ''aes192-cbc'', blocksize = 16, iv_len = 16, secret_len = 24,
       cm_crypt = cipher_crypt c cipher_aes192\<rparr>,
      \<lparr>cm_name = cstr ''aes128-cbc'', blocksize = 16, iv_len = 16, secret_len = 16,
       cm_crypt = cipher_crypt c cipher_aes128\<rparr>]"

definition crypt_blowfish_cbc :: "crypto \<Rightarrow> crypt_method" where
  "crypt_blowfish_cbc c = \<lparr>cm_name = cstr ''blowfish-cbc'', blocksize = 8, iv_len = 8, secret_len = 16,
     cm_crypt = cipher_crypt c cipher_blowfish\<rparr>"

definition crypt_arcfour :: "crypto \<Rightarrow> crypt_method" where
  "crypt_arcfour c = \<lparr>cm_name = cstr ''arcfour'', blocksize = 8, iv_len = 8, secret_len = 16,
     cm_crypt = cipher_crypt c cipher_arcfour\<rparr>"

definition crypt_arcfour128 :: "crypto \<Rightarrow> crypt_method" where
  "crypt_arcfour128 c = \<lparr>cm_name = cstr ''arcfour128'', blocksize = 8, iv_len = 8, secret_len = 16,
     cm_crypt = cipher_crypt c cipher_arcfour\<rparr>"

definition crypt_cast_3des :: "crypto \<Rightarrow> crypt_method list" where
  "crypt_cast_3des c =
     [\<lparr>cm_name = cstr ''cast128-cbc'', blocksize = 8, iv_len = 8, secret_len = 16,
       cm_crypt = cipher_crypt c cipher_cast5\<rparr>,
      \<lparr>cm_name = cstr ''3des-cbc'', blocksize = 8, iv_len = 8, secret_len = 24,
       cm_crypt = cipher_crypt c cipher_3des\<rparr>]"

definition libssh2_crypt_methods :: "crypto \<Rightarrow> crypt_method list" where
  "libssh2_crypt_methods c =
     crypt_aes_ctr c @ crypt_aes_cbc c @
     [crypt_blowfish_cbc c, crypt_arcfour128 c, crypt_arcfour c] @ crypt_cast_3des c"

lemmas crypt_table_defs = libssh2_crypt_methods_def crypt_aes_ctr_def crypt_aes_cbc_def
  crypt_blowfish_cbc_def crypt_arcfour_def crypt_arcfour128_def crypt_cast_3des_def

section \<open>Message authentication\<close>

text \<open>The abstract state is the key. \<^verbatim>\<open>addtl\<close> is only hashed when it is not empty.\<close>

definition mac_method_hmac_sha1_hash ::
  "crypto \<Rightarrow> abstract_state \<Rightarrow> u32 \<Rightarrow> byte list \<Rightarrow> byte list \<Rightarrow> byte list" where
  "mac_method_hmac_sha1_hash c key seq pkt addtl =
     hmac_sha1 c (take 20 key)
       (libssh2_htonu32 seq @ pkt @ (if addtl \<noteq> [] then addtl else []))"

definition mac_method_hmac_sha1_96_hash ::
  "crypto \<Rightarrow> abstract_state \<Rightarrow> u32 \<Rightarrow> byte list \<Rightarrow> byte list \<Rightarrow> byte list" where
  "mac_method_hmac_sha1_96_hash c key seq pkt addtl =
     take (96 div 8) (mac_method_hmac_sha1_hash c key seq pkt addtl)"

definition mac_method_hmac_md5_hash ::
  "crypto \<Rightarrow> abstract_state \<Rightarrow> u32 \<Rightarrow> byte list \<Rightarrow> byte list \<Rightarrow> byte list" where
  "mac_method_hmac_md5_hash c key seq pkt addtl =
     hmac_md5 c (take 16 key)
       (libssh2_htonu32 seq @ pkt @ (if addtl \<noteq> [] then addtl else []))"

definition mac_method_hmac_md5_96_hash ::
  "crypto \<Rightarrow> abstract_state \<Rightarrow> u32 \<Rightarrow> byte list \<Rightarrow> byte list \<Rightarrow> byte list" where
  "mac_method_hmac_md5_96_hash c key seq pkt addtl =
     take (96 div 8) (mac_method_hmac_md5_hash c key seq pkt addtl)"

definition mac_method_hmac_ripemd160_hash ::
  "crypto \<Rightarrow> abstract_state \<Rightarrow> u32 \<Rightarrow> byte list \<Rightarrow> byte list \<Rightarrow> byte list" where
  "mac_method_hmac_ripemd160_hash c key seq pkt addtl =
     hmac_ripemd160 c (take 20 key)
       (libssh2_htonu32 seq @ pkt @ (if addtl \<noteq> [] then addtl else []))"

definition libssh2_mac_methods :: "crypto \<Rightarrow> mac_method list" where
  "libssh2_mac_methods c =
     [\<lparr>mm_name = cstr ''hmac-sha1'', mac_len = 20, mac_key_len = 20,
       mm_hash = mac_method_hmac_sha1_hash c\<rparr>,
      \<lparr>mm_name = cstr ''hmac-sha1-96'', mac_len = 12, mac_key_len = 20,
       mm_hash = mac_method_hmac_sha1_96_hash c\<rparr>,
      \<lparr>mm_name = cstr ''hmac-md5'', mac_len = 16, mac_key_len = 16,
       mm_hash = mac_method_hmac_md5_hash c\<rparr>,
      \<lparr>mm_name = cstr ''hmac-md5-96'', mac_len = 12, mac_key_len = 16,
       mm_hash = mac_method_hmac_md5_96_hash c\<rparr>,
      \<lparr>mm_name = cstr ''hmac-ripemd160'', mac_len = 20, mac_key_len = 20,
       mm_hash = mac_method_hmac_ripemd160_hash c\<rparr>,
      \<lparr>mm_name = cstr ''hmac-ripemd160@openssh.com'', mac_len = 20, mac_key_len = 20,
       mm_hash = mac_method_hmac_ripemd160_hash c\<rparr>]"

section \<open>Compression\<close>

text \<open>Compressing with \<^verbatim>\<open>none\<close> does nothing at all: it neither writes the destination nor its length.
  The result here is the destination length, the bytes written and the state.\<close>

definition comp_method_none_comp ::
  "abstract_state option \<Rightarrow> nat \<Rightarrow> byte list \<Rightarrow> int \<times> byte list \<times> abstract_state option" where
  "comp_method_none_comp ab dest_len src = (0, [], ab)"

definition comp_method_none_decomp ::
  "abstract_state option \<Rightarrow> nat \<Rightarrow> byte list \<Rightarrow> int \<times> byte list \<times> abstract_state option" where
  "comp_method_none_decomp ab payload_limit src = (0, src, ab)"

definition comp_method_none :: comp_method where
  "comp_method_none = \<lparr>pm_name = cstr ''none'', pm_compress = False,
     pm_comp = comp_method_none_comp, pm_decomp = comp_method_none_decomp\<rparr>"

definition comp_methods :: "crypto \<Rightarrow> comp_method list" where
  "comp_methods c =
     (case zlib c of
        None \<Rightarrow> []
      | Some (compress, decompress) \<Rightarrow>
          [\<lparr>pm_name = cstr ''zlib'', pm_compress = True, pm_comp = compress, pm_decomp = decompress\<rparr>])
     @ [comp_method_none]"

definition libssh2_comp_methods :: "crypto \<Rightarrow> session \<Rightarrow> comp_method list" where
  "libssh2_comp_methods c s =
     (if flag_compress s then comp_methods c else [comp_method_none])"

section \<open>The tables as name tables\<close>

text \<open>What the negotiation relies on: the names of a table are distinct, and none is empty, holds
  a comma or a NUL. A lookup by name is then the unique table entry with that name.\<close>

locale name_table =
  fixes nm :: "'m \<Rightarrow> byte list" and methods :: "'m list"
  assumes names_distinct: "distinct (map nm methods)"
    and name_text: "m \<in> set methods \<Longrightarrow> nm m \<noteq> [] \<and> 0 \<notin> set (nm m) \<and> of_char CHR '','' \<notin> set (nm m)"
begin

lemma find_name: "m \<in> set methods \<Longrightarrow> find (\<lambda>x. nm x = nm m) methods = Some m"
  using names_distinct by (induction methods) (auto simp: image_iff)

lemma find_name_Some: "find (\<lambda>x. nm x = n) methods = Some m \<Longrightarrow> m \<in> set methods \<and> nm m = n"
  by (auto simp: find_Some_iff)

end

interpretation kex_table: name_table km_name libssh2_kex_methods
  by unfold_locales
    (auto simp: libssh2_kex_methods_def kex_method_diffie_helman_group1_sha1_def
      kex_method_diffie_helman_group14_sha1_def kex_method_diffie_helman_group_exchange_sha1_def)

interpretation hostkey_table: name_table hm_name libssh2_hostkey_methods
  by unfold_locales
    (auto simp: libssh2_hostkey_methods_def hostkey_method_ssh_rsa_def hostkey_method_ssh_dss_def)

interpretation crypt_table: name_table cm_name "libssh2_crypt_methods c" for c
  by unfold_locales
    (auto simp: crypt_table_defs)

interpretation mac_table: name_table mm_name "libssh2_mac_methods c" for c
  by unfold_locales (auto simp: libssh2_mac_methods_def)

interpretation comp_table: name_table pm_name "libssh2_comp_methods c s" for c s
  by unfold_locales
    (auto simp: libssh2_comp_methods_def comp_methods_def comp_method_none_def
      split: option.splits if_splits)

section \<open>The MAC of a packet has the negotiated length\<close>

text \<open>The documented sizes of the three digests, as a hypothesis on the library.\<close>

definition hmac_lengths :: "crypto \<Rightarrow> bool" where
  "hmac_lengths c \<longleftrightarrow>
     (\<forall>k d. length (hmac_sha1 c k d) = 20) \<and> (\<forall>k d. length (hmac_md5 c k d) = 16) \<and>
     (\<forall>k d. length (hmac_ripemd160 c k d) = 20)"

lemma mac_hash_length:
  "hmac_lengths c \<Longrightarrow> m \<in> set (libssh2_mac_methods c) \<Longrightarrow>
   length (mm_hash m key seq pkt addtl) = mac_len m"
  by (auto simp: hmac_lengths_def libssh2_mac_methods_def mac_method_hmac_sha1_hash_def
      mac_method_hmac_sha1_96_hash_def mac_method_hmac_md5_hash_def mac_method_hmac_md5_96_hash_def
      mac_method_hmac_ripemd160_hash_def)

end
