(* ===== verification/Transport.thy ===== *)
theory Transport
  imports Methods
begin

text \<open>
  The binary packet layer, \<^verbatim>\<open>libssh2/src/transport.c\<close>, with the socket wrappers of \<^verbatim>\<open>misc.c\<close> it
  calls. \<open>libssh2_transport_send\<close> frames, pads, authenticates, encrypts and sends a payload, or
  resumes a partial send; \<open>libssh2_transport_read\<close> collects one packet from the socket, however
  the bytes arrive, and hands it to \<^verbatim>\<open>_libssh2_packet_add\<close>.

  The reader calls upwards twice: into \<^verbatim>\<open>_libssh2_packet_add\<close> and, when a key exchange is under
  way, into \<^verbatim>\<open>_libssh2_kex_exchange\<close>. Both are arguments here (\<open>padd\<close>, \<open>kx\<close>); the theories of
  those components supply them.

  A result \<open>None\<close> is a read or write outside an object, a NULL dereference, a failed \<^verbatim>\<open>assert\<close> or
  a loop that does not end.
\<close>

section \<open>Sockets\<close>

abbreviation (input) "EAGAIN \<equiv> 11 :: int"
abbreviation (input) "ENOENT \<equiv> 2 :: nat"
abbreviation (input) "LIBSSH2_SESSION_BLOCK_INBOUND \<equiv> 1 :: u32"
abbreviation (input) "LIBSSH2_SESSION_BLOCK_OUTBOUND \<equiv> 2 :: u32"
abbreviation (input) "LIBSSH2_STATE_EXCHANGING_KEYS \<equiv> 1 :: u32"
abbreviation (input) "LIBSSH2_STATE_NEWKEYS \<equiv> 2 :: u32"
abbreviation (input) "LIBSSH2_STATE_AUTHENTICATED \<equiv> 4 :: u32"
abbreviation (input) "LIBSSH2_STATE_KEX_ACTIVE \<equiv> 8 :: u32"
abbreviation (input) "LIBSSH2_SOCKET_CONNECTED \<equiv> 0 :: int"
abbreviation (input) "LIBSSH2_SOCKET_DISCONNECTED \<equiv> -1 :: int"
abbreviation (input) "PACKETBUFSIZE \<equiv> 1024 * 16 :: nat"
abbreviation (input) "MAX_SSH_PACKET_LEN \<equiv> 35000 :: nat"
abbreviation (input) "LIBSSH2_PACKET_MAXPAYLOAD \<equiv> 40000 :: nat"
abbreviation (input) "LIBSSH2_PACKET_MAXDECOMP \<equiv> 40000 :: nat"
abbreviation (input) "MAX_BLOCKSIZE \<equiv> 32 :: nat"

text \<open>The bytes of one \<^verbatim>\<open>recv\<close> that do not fit the room given stay in the socket.\<close>

definition libssh2_recv :: "session \<Rightarrow> nat \<Rightarrow> int \<times> byte list \<times> session" where
  "libssh2_recv s room =
     (case recvs (env s) of
        [] \<Rightarrow> (- EAGAIN, [], s)
      | RecvError errno # rs \<Rightarrow>
          (if errno = ENOENT then - EAGAIN else - int errno, [], s\<lparr>env := (env s)\<lparr>recvs := rs\<rparr>\<rparr>)
      | Received bs # rs \<Rightarrow>
          (int (length (take room bs)), take room bs,
           s\<lparr>env := (env s)\<lparr>recvs := (if length bs \<le> room then rs
                                   else Received (drop room bs) # rs)\<rparr>\<rparr>))"

definition libssh2_send :: "session \<Rightarrow> byte list \<Rightarrow> int \<times> session" where
  "libssh2_send s d =
     (case sends (env s) of
        [] \<Rightarrow> (int (length d), s\<lparr>env := (env s)\<lparr>wire_out := wire_out (env s) @ d\<rparr>\<rparr>)
      | r # rs \<Rightarrow>
          if r < 0 then (r, s\<lparr>env := (env s)\<lparr>sends := rs\<rparr>\<rparr>)
          else (int (length (take (nat r) d)),
                s\<lparr>env := (env s)\<lparr>sends := rs, wire_out := wire_out (env s) @ take (nat r) d\<rparr>\<rparr>))"

definition block_direction :: "u32 \<Rightarrow> session \<Rightarrow> session" where
  "block_direction d s = s\<lparr>socket_block_directions := socket_block_directions s OR d\<rparr>"

definition clear_direction :: "u32 \<Rightarrow> session \<Rightarrow> session" where
  "clear_direction d s = s\<lparr>socket_block_directions := socket_block_directions s AND NOT d\<rparr>"

definition state_has :: "session \<Rightarrow> u32 \<Rightarrow> bool" where
  "state_has s flag \<longleftrightarrow> sstate s AND flag \<noteq> 0"

section \<open>Decryption\<close>

text \<open>A cipher applied to whole blocks, one after the other. The result says whether every call
  succeeded, the cipher state, and the buffer, in place.\<close>

function crypt_blocks ::
  "(abstract_state \<Rightarrow> byte list \<Rightarrow> (abstract_state \<times> byte list) option) \<Rightarrow> nat \<Rightarrow>
   abstract_state \<Rightarrow> byte list \<Rightarrow> bool \<times> abstract_state \<times> byte list" where
  "crypt_blocks f bs ab d =
     (if bs = 0 \<or> length d < bs then (True, ab, d)
      else case f ab (take bs d) of
          None \<Rightarrow> (False, ab, d)
        | Some (ab', b) \<Rightarrow>
            (case crypt_blocks f bs ab' (drop bs d) of (ok, ab'', r) \<Rightarrow> (ok, ab'', b @ r)))"
  by pat_completeness auto
termination by (relation "measure (\<lambda>(f, bs, ab, d). length d)") auto

declare crypt_blocks.simps [simp del]

definition decrypt :: "session \<Rightarrow> nat \<Rightarrow> nat \<Rightarrow> (int \<times> session) ub" where
  "decrypt s i len =
     (case crypt (remote_ep s) of
        None \<Rightarrow> None
      | Some cm \<Rightarrow>
          let p = packet s in
          if blocksize cm = 0 \<or> len mod blocksize cm \<noteq> 0 \<or> i + len > length (buf p) then None
          else (case crypt_blocks (cm_crypt cm) (blocksize cm) (crypt_abstract (remote_ep s))
                       (take len (drop i (buf p))) of
              (ok, ab, d) \<Rightarrow>
                let s' = s\<lparr>remote_ep := (remote_ep s)\<lparr>crypt_abstract := ab\<rparr>,
                           packet := p\<lparr>buf := take i (buf p) @ d @ drop (i + len) (buf p)\<rparr>\<rparr>
                in if ok then Some (LIBSSH2_ERROR_NONE, s')
                   else Some (LIBSSH2_ERROR_DECRYPT,
                              s'\<lparr>packet := (packet s')\<lparr>payload := []\<rparr>\<rparr>)))"

section \<open>A full packet\<close>

type_synonym 'a step = "(int \<times> session) + 'a"   \<comment> \<open>\<open>Inl\<close>: the function returns\<close>
type_synonym packet_add_fn = "session \<Rightarrow> byte list \<Rightarrow> nat \<Rightarrow> bool \<Rightarrow> (int \<times> session) ub"
type_synonym kex_exchange_fn = "session \<Rightarrow> (int \<times> session) ub"

definition fullpacket_mac :: "session \<Rightarrow> bool \<Rightarrow> bool ub" where
  "fullpacket_mac s encrypted =
     (let p = packet s; len = fullpacket_payload_len s in
      if \<not> encrypted then Some True
      else case mac (remote_ep s) of
          None \<Rightarrow> None
        | Some mm \<Rightarrow> do {
            body \<leftarrow> rdn (payload p) 0 len;
            received \<leftarrow> rdn (payload p) len (mac_len mm);
            Some (take (mac_len mm)
                    (mm_hash mm (mac_abstract (remote_ep s)) (seqno (remote_ep s)) (init5 p) body)
                  = received) })"

definition fullpacket_decomp :: "session \<Rightarrow> session step ub" where
  "fullpacket_decomp s =
     (case comp (remote_ep s) of
        None \<Rightarrow> Some (Inr s)
      | Some pm \<Rightarrow>
          if \<not> pm_compress pm \<or> comp_abstract (remote_ep s) = None then Some (Inr s)
          else do {
            src \<leftarrow> rdn (payload (packet s)) 0 (fullpacket_payload_len s);
            (case pm_decomp pm (comp_abstract (remote_ep s)) LIBSSH2_PACKET_MAXDECOMP src of
               (rc, d, ab) \<Rightarrow>
                 let s' = s\<lparr>remote_ep := (remote_ep s)\<lparr>comp_abstract := ab\<rparr>\<rparr> in
                 if rc \<noteq> 0 then Some (Inl (rc, s'\<lparr>packet := (packet s')\<lparr>payload := []\<rparr>\<rparr>))
                 else Some (Inr (s'\<lparr>packet := (packet s')\<lparr>payload := d\<rparr>,
                                    fullpacket_payload_len := length d\<rparr>))) })"

definition fullpacket_decode :: "session \<Rightarrow> bool \<Rightarrow> session step ub" where
  "fullpacket_decode s encrypted =
     (let s1 = s\<lparr>fullpacket_macstate := True,
                 fullpacket_payload_len := unat (packet_length (packet s) - 1)\<rparr> in do {
        ok \<leftarrow> fullpacket_mac s1 encrypted;
        let s2 = s1\<lparr>fullpacket_macstate := ok,
                    remote_ep := (remote_ep s1)\<lparr>seqno := seqno (remote_ep s1) + 1\<rparr>,
                    fullpacket_payload_len :=
                      size_sub (fullpacket_payload_len s1) (unat (padding_length (packet s1)))\<rparr>;
        r \<leftarrow> fullpacket_decomp s2;
        (case r of
           Inl ret \<Rightarrow> Some (Inl ret)
         | Inr s3 \<Rightarrow> do {
             msg \<leftarrow> rd8 (payload (packet s3)) 0;
             Some (Inr (s3\<lparr>fullpacket_packet_type := msg, fullpacket_state := NB_created\<rparr>)) }) })"

definition fullpacket :: "packet_add_fn \<Rightarrow> session \<Rightarrow> bool \<Rightarrow> (int \<times> session) ub" where
  "fullpacket padd s encrypted = do {
     r \<leftarrow> (if fullpacket_state s = NB_idle then fullpacket_decode s encrypted else Some (Inr s));
     (case r of
        Inl ret \<Rightarrow> Some ret
      | Inr s1 \<Rightarrow> do {
          (rc, s2) \<leftarrow> (if fullpacket_state s1 = NB_created
                      then padd s1 (payload (packet s1)) (fullpacket_payload_len s1)
                             (fullpacket_macstate s1)
                      else Some (0, s1));
          if rc \<noteq> 0 then Some (rc, s2)
          else Some (int (unat (fullpacket_packet_type s2)), s2\<lparr>fullpacket_state := NB_idle\<rparr>) }) }"

section \<open>Reading a packet\<close>

definition read_blocksize :: "session \<Rightarrow> nat ub" where
  "read_blocksize s =
     (if state_has s LIBSSH2_STATE_NEWKEYS then map_option blocksize (crypt (remote_ep s)) else Some 5)"

text \<open>Refill the buffer when it holds less than a block.\<close>

definition read_fill :: "session \<Rightarrow> nat \<Rightarrow> session step" where
  "read_fill s bs =
     (let p = packet s; remainbuf = length (buf p) - readidx p in
      if remainbuf < bs then
        let s1 = s\<lparr>packet := p\<lparr>buf := drop (readidx p) (buf p), readidx := 0\<rparr>\<rparr> in
        case libssh2_recv s1 (PACKETBUFSIZE - remainbuf) of
          (nread, bytes, s2) \<Rightarrow>
            if nread \<le> 0 then
              (if nread < 0 \<and> nread = - EAGAIN
               then Inl (LIBSSH2_ERROR_EAGAIN, block_direction LIBSSH2_SESSION_BLOCK_INBOUND s2)
               else Inl (LIBSSH2_ERROR_SOCKET_RECV, s2))
            else Inr (s2\<lparr>packet := (packet s2)\<lparr>buf := buf (packet s2) @ bytes\<rparr>\<rparr>)
      else Inr s)"

text \<open>The first block of a packet: its lengths, the allocation of the payload area and the bytes
  after the five header bytes. The size of the area is computed in 32 bits and wraps around; a
  block that does not fit the area is written outside of it.\<close>

definition read_start :: "session \<Rightarrow> bool \<Rightarrow> nat \<Rightarrow> session step ub" where
  "read_start s encrypted bs =
     (if length (buf (packet s)) - readidx (packet s) < bs
      then Some (Inl (LIBSSH2_ERROR_EAGAIN, block_direction LIBSSH2_SESSION_BLOCK_INBOUND s))
      else if bs < 5 \<or> bs > MAX_BLOCKSIZE then None
      else do {
        (rc, s1) \<leftarrow> (if encrypted then decrypt s (readidx (packet s)) bs
                    else Some (LIBSSH2_ERROR_NONE, s));
        if rc \<noteq> LIBSSH2_ERROR_NONE then Some (Inl (rc, s1))
        else do {
          mlen \<leftarrow> (if encrypted then map_option mac_len (mac (remote_ep s1)) else Some 0);
          let p = packet s1;
          let block = take bs (drop (readidx p) (buf p));
          plen \<leftarrow> rd32 block 0;
          let p1 = p\<lparr>init5 := (if encrypted then take 5 block else init5 p),
                     readidx := readidx p + bs, packet_length := plen\<rparr>;
          if plen < 1 then Some (Inl (LIBSSH2_ERROR_DECRYPT, s1\<lparr>packet := p1\<rparr>))
          else do {
            let p2 = p1\<lparr>padding_length := block ! 4\<rparr>;
            let total = unat (plen - 1 + word_of_nat mlen);
            if total > LIBSSH2_PACKET_MAXPAYLOAD
            then Some (Inl (LIBSSH2_ERROR_OUT_OF_BOUNDARY, s1\<lparr>packet := p2\<rparr>))
            else case libssh2_alloc (s1\<lparr>packet := p2\<rparr>) of (ok, s2) \<Rightarrow>
              if \<not> ok then Some (Inl (LIBSSH2_ERROR_ALLOC, s2\<lparr>packet := p2\<lparr>payload := []\<rparr>\<rparr>))
              else if bs - 5 > total then None
              else Some (Inr (s2\<lparr>packet := p2\<lparr>total_num := total, payload := drop 5 block\<rparr>\<rparr>)) } } })"

text \<open>How many of the bytes at hand to decrypt, and how many to take in all.\<close>

definition read_amounts :: "session \<Rightarrow> bool \<Rightarrow> nat \<Rightarrow> (int \<times> int) ub" where
  "read_amounts s encrypted bs =
     (let p = packet s;
          data_num = int (length (payload p));
          numbytes = min (int (length (buf p)) - int (readidx p)) (int (total_num p) - data_num)
      in if \<not> encrypted then Some (0, numbytes)
         else case mac (remote_ep s) of
             None \<Rightarrow> None
           | Some mm \<Rightarrow>
               let limit = int (size_sub (total_num p) (mac_len mm)) in
               if data_num + numbytes > limit then Some (limit - data_num, numbytes)
               else let frac = numbytes mod int bs in
                 if frac \<noteq> 0 then Some (numbytes - frac, 0) else Some (numbytes, numbytes))"

text \<open>Take \<open>n\<close> bytes from the buffer into the payload area.\<close>

definition take_bytes :: "session \<Rightarrow> nat \<Rightarrow> session" where
  "take_bytes s n =
     (let p = packet s in
      s\<lparr>packet := p\<lparr>payload := payload p @ take n (drop (readidx p) (buf p)),
                    readidx := readidx p + n\<rparr>\<rparr>)"

definition read_body :: "session \<Rightarrow> bool \<Rightarrow> nat \<Rightarrow> session step ub" where
  "read_body s encrypted bs = do {
     (numdecrypt, numbytes) \<leftarrow> read_amounts s encrypted bs;
     (rc, s1) \<leftarrow> (if numdecrypt > 0 then decrypt s (readidx (packet s)) (nat numdecrypt)
                 else Some (LIBSSH2_ERROR_NONE, s));
     if rc \<noteq> LIBSSH2_ERROR_NONE then Some (Inl (rc, s1))
     else do {
       let s2 = (if numdecrypt > 0 then take_bytes s1 (nat numdecrypt) else s1);
       let numbytes = (if numdecrypt > 0 then numbytes - numdecrypt else numbytes);
       Some (Inr (if numbytes > 0 then take_bytes s2 (nat numbytes) else s2)) } }"

text \<open>One round of the loop, up to the test whether the packet is complete.\<close>

definition read_round :: "session \<Rightarrow> session step ub" where
  "read_round s = do {
     let encrypted = state_has s LIBSSH2_STATE_NEWKEYS;
     bs \<leftarrow> read_blocksize s;
     if readidx (packet s) > length (buf (packet s)) then None
     else case read_fill s bs of
         Inl ret \<Rightarrow> Some (Inl ret)
       | Inr s1 \<Rightarrow> do {
           r \<leftarrow> (if total_num (packet s1) = 0 then read_start s1 encrypted bs else Some (Inr s1));
           (case r of Inl ret \<Rightarrow> Some (Inl ret) | Inr s2 \<Rightarrow> read_body s2 encrypted bs) } }"

text \<open>The label \<^verbatim>\<open>libssh2_transport_read_point1\<close>: the packet is complete.\<close>

definition read_point1 :: "packet_add_fn \<Rightarrow> session \<Rightarrow> bool \<Rightarrow> (int \<times> session) ub" where
  "read_point1 padd s encrypted = do {
     (rc, s1) \<leftarrow> fullpacket padd s encrypted;
     if rc = LIBSSH2_ERROR_EAGAIN then
       Some (rc, if packAdd_state s1 \<noteq> NB_idle
                 then s1\<lparr>readPack_encrypted := encrypted, readPack_state := NB_jump1\<rparr> else s1)
     else Some (rc, s1\<lparr>packet := (packet s1)\<lparr>total_num := 0\<rparr>\<rparr>) }"

partial_function (option) read_loop :: "packet_add_fn \<Rightarrow> session \<Rightarrow> (int \<times> session) option" where
  "read_loop padd s =
     (if socket_state s = LIBSSH2_SOCKET_DISCONNECTED then Some (LIBSSH2_ERROR_NONE, s)
      else Option.bind (read_round s)
        (\<lambda>r. case r of
            Inl ret \<Rightarrow> Some ret
          | Inr s1 \<Rightarrow>
              if total_num (packet s1) = length (payload (packet s1))
              then read_point1 padd s1 (state_has s1 LIBSSH2_STATE_NEWKEYS)
              else read_loop padd s1))"

declare read_loop.simps [code]

definition libssh2_transport_read ::
  "kex_exchange_fn \<Rightarrow> packet_add_fn \<Rightarrow> session \<Rightarrow> (int \<times> session) ub" where
  "libssh2_transport_read kx padd s0 = do {
     let s = clear_direction LIBSSH2_SESSION_BLOCK_INBOUND s0;
     (rc, s1) \<leftarrow> (if state_has s LIBSSH2_STATE_EXCHANGING_KEYS \<and> \<not> state_has s LIBSSH2_STATE_KEX_ACTIVE
                 then kx s else Some (0, s));
     if rc \<noteq> 0 then Some (rc, s1)
     else if readPack_state s1 = NB_jump1
     then read_point1 padd (s1\<lparr>readPack_state := NB_idle\<rparr>) (readPack_encrypted s1)
     else read_loop padd s1 }"

section \<open>Sending a packet\<close>

text \<open>The result is the return code, the value left in \<^verbatim>\<open>*ret\<close> and the session.\<close>

definition send_existing :: "session \<Rightarrow> nat \<Rightarrow> nat \<Rightarrow> int \<times> bool \<times> session" where
  "send_existing s data data_len =
     (let p = packet s in
      if olen p = 0 then (LIBSSH2_ERROR_NONE, False, s)
      else if data \<noteq> odata p \<or> data_len \<noteq> olen p then (LIBSSH2_ERROR_BAD_USE, False, s)
      else let len = ototal_num p - osent p in
        case libssh2_send s (take len (drop (osent p) (outbuf p))) of (rc, s1) \<Rightarrow>
          if rc = int len
          then (LIBSSH2_ERROR_NONE, True, s1\<lparr>packet := p\<lparr>ototal_num := 0, olen := 0\<rparr>\<rparr>)
          else if rc < 0 then
            (if rc \<noteq> - EAGAIN then (LIBSSH2_ERROR_SOCKET_SEND, True, s1)
             else (LIBSSH2_ERROR_EAGAIN, True, block_direction LIBSSH2_SESSION_BLOCK_OUTBOUND s1))
          else (if rc < int len then LIBSSH2_ERROR_EAGAIN else LIBSSH2_ERROR_NONE, True,
                s1\<lparr>packet := p\<lparr>osent := osent p + nat rc\<rparr>\<rparr>))"

text \<open>The payload placed at \<^verbatim>\<open>outbuf[5]\<close>: compressed when the session is encrypted and the
  compression method compresses, copied otherwise.\<close>

definition send_payload ::
  "session \<Rightarrow> bool \<Rightarrow> byte list \<Rightarrow> byte list option \<Rightarrow> (byte list \<times> session) step ub" where
  "send_payload s encrypted data data2 = do {
     compress \<leftarrow> (if encrypted then map_option pm_compress (comp (local_ep s)) else Some False);
     let data2b = (case data2 of None \<Rightarrow> [] | Some d \<Rightarrow> d);
     if compress then do {
       pm \<leftarrow> comp (local_ep s);
       let room = MAX_SSH_PACKET_LEN - 5 - 256;
       (case pm_comp pm (comp_abstract (local_ep s)) room data of (rc, d, ab) \<Rightarrow>
          let s1 = s\<lparr>local_ep := (local_ep s)\<lparr>comp_abstract := ab\<rparr>\<rparr> in
          if rc \<noteq> 0 then Some (Inl (rc, s1))
          else if data2b = [] then Some (Inr (d, s1))
          else (case pm_comp pm ab (size_sub room (length d)) data2b of (rc2, d2, ab2) \<Rightarrow>
            let s2 = s1\<lparr>local_ep := (local_ep s1)\<lparr>comp_abstract := ab2\<rparr>\<rparr> in
            if rc2 \<noteq> 0 then Some (Inl (rc2, s2)) else Some (Inr (d @ d2, s2)))) }
     else if length data + length data2b \<ge> MAX_SSH_PACKET_LEN - 0x100
     then Some (Inl (LIBSSH2_ERROR_INVAL, s))
     else Some (Inr (data @ data2b, s)) }"

definition padding_for :: "nat \<Rightarrow> nat \<Rightarrow> nat" where
  "padding_for bs data_len =
     (let padding = bs - (data_len + 1 + 4) mod bs in if padding < 4 then padding + bs else padding)"

text \<open>The packet before encryption: length, padding length, payload, random padding.\<close>

definition plain_packet :: "nat \<Rightarrow> byte list \<Rightarrow> byte list \<Rightarrow> byte list" where
  "plain_packet plen data padding =
     libssh2_htonu32 (word_of_nat (plen - 4)) @ [word_of_nat (length padding)]
     @ data @ padding"

text \<open>Encryption and authentication of the packet; \<open>Inl\<close> when the cipher fails.\<close>

definition seal_packet :: "session \<Rightarrow> byte list \<Rightarrow> (byte list \<times> session) step ub" where
  "seal_packet s pkt = do {
     cm \<leftarrow> crypt (local_ep s);
     mm \<leftarrow> mac (local_ep s);
     let h = mm_hash mm (mac_abstract (local_ep s)) (seqno (local_ep s)) pkt [];
     (case crypt_blocks (cm_crypt cm) (blocksize cm) (crypt_abstract (local_ep s)) pkt of
        (ok, ab, enc) \<Rightarrow>
          let s1 = s\<lparr>local_ep := (local_ep s)\<lparr>crypt_abstract := ab\<rparr>\<rparr> in
          if \<not> ok
          then Some (Inl (LIBSSH2_ERROR_ENCRYPT, s1\<lparr>packet := (packet s1)\<lparr>outbuf := enc @ h\<rparr>\<rparr>))
          else Some (Inr (enc @ h, s1))) }"

text \<open>The first attempt to send the packet in \<^verbatim>\<open>outbuf\<close>.\<close>

definition send_new :: "session \<Rightarrow> nat \<Rightarrow> nat \<Rightarrow> nat \<Rightarrow> int \<times> session" where
  "send_new s data data_len total_length =
     (let p = packet s in
      case libssh2_send s (take total_length (outbuf p)) of (ret, s1) \<Rightarrow>
        if ret \<noteq> int total_length then
          if ret \<ge> 0 \<or> ret = - EAGAIN then
            (LIBSSH2_ERROR_EAGAIN,
             (block_direction LIBSSH2_SESSION_BLOCK_OUTBOUND s1)
               \<lparr>packet := p\<lparr>odata := data, olen := data_len,
                            osent := (if ret \<le> 0 then 0 else nat ret),
                            ototal_num := total_length\<rparr>\<rparr>)
          else (LIBSSH2_ERROR_SOCKET_SEND, s1)
        else (LIBSSH2_ERROR_NONE, s1\<lparr>packet := p\<lparr>odata := 0, olen := 0\<rparr>\<rparr>))"

text \<open>Everything from the padding on.\<close>

definition send_packet ::
  "session \<Rightarrow> bool \<Rightarrow> nat \<Rightarrow> nat \<Rightarrow> nat \<Rightarrow> byte list \<Rightarrow> (int \<times> session) ub" where
  "send_packet s encrypted bs daddr data_len d = do {
     mlen \<leftarrow> (if encrypted then map_option mac_len (mac (local_ep s)) else Some 0);
     let padding = padding_for bs (length d);
     let plen = length d + 1 + 4 + padding;
     let total_length = plen + mlen;
     if bs = 0 \<or> total_length > MAX_SSH_PACKET_LEN then None
     else case libssh2_random s padding of (rand, s1) \<Rightarrow> do {
       r \<leftarrow> (if encrypted then seal_packet s1 (plain_packet plen d rand)
            else Some (Inr (plain_packet plen d rand, s1)));
       (case r of
          Inl e \<Rightarrow> Some e
        | Inr (out, s2) \<Rightarrow>
            Some (send_new
              (s2\<lparr>packet := (packet s2)\<lparr>outbuf := out\<rparr>,
                  local_ep := (local_ep s2)\<lparr>seqno := seqno (local_ep s2) + 1\<rparr>\<rparr>)
              daddr data_len total_length)) } }"

definition libssh2_transport_send ::
  "session \<Rightarrow> nat \<Rightarrow> byte list \<Rightarrow> byte list option \<Rightarrow> (int \<times> session) ub" where
  "libssh2_transport_send s daddr data data2 = do {
     let encrypted = state_has s LIBSSH2_STATE_NEWKEYS;
     bs \<leftarrow> (if encrypted then map_option blocksize (crypt (local_ep s)) else Some 8);
     (case send_existing s daddr (length data) of (rc, ret, s1) \<Rightarrow>
        if rc \<noteq> LIBSSH2_ERROR_NONE then Some (rc, s1)
        else let s2 = clear_direction LIBSSH2_SESSION_BLOCK_OUTBOUND s1 in
        if ret then Some (rc, s2)
        else do {
          r \<leftarrow> send_payload s2 encrypted data data2;
          (case r of
             Inl e \<Rightarrow> Some e
           | Inr (d, s3) \<Rightarrow> send_packet s3 encrypted bs daddr (length data) d) }) }"

end
