(* ===== verification/Channel_Base.thy ===== *)
theory Channel_Base
  imports Transport
begin

text \<open>
  The parts of \<^verbatim>\<open>libssh2/src/channel.c\<close> the packet layer calls: allocation of channel numbers,
  location of a channel by its number, and the adjustment of the receive window.

  A pointer to a channel is the channel's local number here: \<open>libssh2_channel_locate\<close> gives the
  first channel with the number, in the session's list and then in the queues of the listeners,
  and \<open>update_channel\<close> changes that channel. Buffers whose address matters to
  \<open>libssh2_transport_send\<close> have the symbolic addresses below.
\<close>

section \<open>Symbolic addresses\<close>

definition addr_stack_packet :: nat where "addr_stack_packet = 1"
definition addr_Qlstn_packet :: nat where "addr_Qlstn_packet = 2"
definition addr_x11open_packet :: nat where "addr_x11open_packet = 3"
definition addr_kexinit_data :: nat where "addr_kexinit_data = 4"
definition addr_open_packet :: nat where "addr_open_packet = 5"
definition addr_eof_packet :: nat where "addr_eof_packet = 6"
definition addr_adjust :: "u32 \<Rightarrow> nat" where "addr_adjust cid = 16 + unat cid"
definition addr_write :: "u32 \<Rightarrow> nat" where "addr_write cid = 2 ^ 33 + unat cid"
definition addr_close :: "u32 \<Rightarrow> nat" where "addr_close cid = 2 ^ 34 + unat cid"
definition addr_process :: "u32 \<Rightarrow> nat" where "addr_process cid = 2 ^ 35 + unat cid"
definition addr_setenv :: "u32 \<Rightarrow> nat" where "addr_setenv cid = 2 ^ 36 + unat cid"
definition addr_reqPTY :: "u32 \<Rightarrow> nat" where "addr_reqPTY cid = 2 ^ 37 + unat cid"
definition addr_reqX11 :: "u32 \<Rightarrow> nat" where "addr_reqX11 cid = 2 ^ 38 + unat cid"
definition addr_fwdCncl :: "nat \<Rightarrow> nat" where "addr_fwdCncl i = 2 ^ 39 + i"
definition addr_fwdLstn :: nat where "addr_fwdLstn = 7"

section \<open>Channel numbers\<close>

abbreviation local_id :: "channel \<Rightarrow> u32" where
  "local_id ch \<equiv> cd_id (ch_local ch)"

definition libssh2_channel_nextid :: "session \<Rightarrow> u32 \<times> session" where
  "libssh2_channel_nextid s =
     (let cid = fold (\<lambda>ch i. if local_id ch > i then local_id ch else i) (channels s) (next_channel s)
      in (cid, s\<lparr>next_channel := cid + 1\<rparr>))"

definition queued_channels :: "session \<Rightarrow> channel list" where
  "queued_channels s = concat (map ln_queue (listeners s))"

definition libssh2_channel_locate :: "session \<Rightarrow> u32 \<Rightarrow> channel option" where
  "libssh2_channel_locate s cid = find (\<lambda>ch. local_id ch = cid) (channels s @ queued_channels s)"

text \<open>Change the first channel with the number; \<open>None\<close> when there is none.\<close>

fun update_first :: "('a \<Rightarrow> bool) \<Rightarrow> ('a \<Rightarrow> 'a) \<Rightarrow> 'a list \<Rightarrow> 'a list option" where
  "update_first P f [] = None"
| "update_first P f (x # xs) =
     (if P x then Some (f x # xs) else map_option ((#) x) (update_first P f xs))"

fun update_queues :: "('a \<Rightarrow> bool) \<Rightarrow> ('a \<Rightarrow> 'a) \<Rightarrow> 'a list list \<Rightarrow> 'a list list option" where
  "update_queues P f [] = None"
| "update_queues P f (q # qs) =
     (case update_first P f q of
        Some q' \<Rightarrow> Some (q' # qs)
      | None \<Rightarrow> map_option ((#) q) (update_queues P f qs))"

definition update_channel :: "session \<Rightarrow> u32 \<Rightarrow> (channel \<Rightarrow> channel) \<Rightarrow> session ub" where
  "update_channel s cid f =
     (case update_first (\<lambda>ch. local_id ch = cid) f (channels s) of
        Some chs \<Rightarrow> Some (s\<lparr>channels := chs\<rparr>)
      | None \<Rightarrow>
          map_option (\<lambda>qs. s\<lparr>listeners := map2 (\<lambda>l q. l\<lparr>ln_queue := q\<rparr>) (listeners s) qs\<rparr>)
            (update_queues (\<lambda>ch. local_id ch = cid) f (map ln_queue (listeners s))))"

section \<open>The receive window\<close>

abbreviation (input) "SSH_MSG_CHANNEL_WINDOW_ADJUST \<equiv> 93 :: byte"
abbreviation (input) "LIBSSH2_CHANNEL_MINADJUST \<equiv> 1024 :: u32"

definition channel0 :: channel where
  "channel0 = \<lparr>channel_type = [], exit_status = 0, exit_signal = None,
     ch_local = \<lparr>cd_id = 0, window_size_initial = 0, window_size = 0, packet_size = 0,
       cd_close = False, cd_eof = False, extended_data_ignore_mode = 0\<rparr>,
     ch_remote = \<lparr>cd_id = 0, window_size_initial = 0, window_size = 0, packet_size = 0,
       cd_close = False, cd_eof = False, extended_data_ignore_mode = 0\<rparr>,
     adjust_queue = 0, has_close_cb = False, flush_state = NB_idle, flush_refund_bytes = 0,
     flush_flush_bytes = 0, adjust_state = NB_idle, adjust_adjust = [], read_state = NB_idle,
     write_state = NB_idle, write_packet = [], write_bufwrite = 0, close_state = NB_idle,
     close_packet = [], wait_eof_state = NB_idle, wait_closed_state = NB_idle, free_state = NB_idle,
     extData2_state = NB_idle, process_state = NB_idle, process_packet = None,
     process_local_channel = [], process_start = 0,
     setenv_state = NB_idle, setenv_packet = None, setenv_local_channel = [], setenv_start = 0,
     reqPTY_state = NB_idle, reqPTY_packet = [], reqPTY_local_channel = [], reqPTY_start = 0,
     reqX11_state = NB_idle, reqX11_packet = None, reqX11_local_channel = [], reqX11_start = 0\<rparr>"

text \<open>The part before the packet is sent; \<open>Inl\<close> when there is nothing to send yet. The result is the
  amount the packet announces.\<close>

definition window_adjust_prepare :: "channel \<Rightarrow> u32 \<Rightarrow> bool \<Rightarrow> channel + u32 \<times> channel" where
  "window_adjust_prepare ch adjustment force =
     (if adjust_state ch = NB_idle then
        if \<not> force \<and> adjustment + adjust_queue ch < LIBSSH2_CHANNEL_MINADJUST
        then Inl (ch\<lparr>adjust_queue := adjust_queue ch + adjustment\<rparr>)
        else if adjustment = 0 \<and> adjust_queue ch = 0 then Inl ch
        else let adj = adjustment + adjust_queue ch in
          Inr (adj, ch\<lparr>adjust_queue := 0,
             adjust_adjust := SSH_MSG_CHANNEL_WINDOW_ADJUST # libssh2_htonu32 (cd_id (ch_remote ch))
               @ libssh2_htonu32 adj,
             adjust_state := NB_created\<rparr>)
      else Inr (adjustment, ch))"

definition libssh2_channel_receive_window_adjust ::
  "session \<Rightarrow> u32 \<Rightarrow> u32 \<Rightarrow> bool \<Rightarrow> (int \<times> session) ub" where
  "libssh2_channel_receive_window_adjust s cid adjustment force = do {
     ch \<leftarrow> libssh2_channel_locate s cid;
     (case window_adjust_prepare ch adjustment force of
        Inl ch' \<Rightarrow> do { s' \<leftarrow> update_channel s cid (\<lambda>_. ch'); Some (0, s') }
      | Inr (adj, ch') \<Rightarrow> do {
          s1 \<leftarrow> update_channel s cid (\<lambda>_. ch');
          (rc, s2) \<leftarrow> libssh2_transport_send s1 (addr_adjust cid) (adjust_adjust ch') None;
          if rc = LIBSSH2_ERROR_EAGAIN then
            Some (libssh2_error s2 rc ''Would block sending window adjust'')
          else if rc \<noteq> 0 then do {
            s3 \<leftarrow> update_channel s2 cid (\<lambda>c. c\<lparr>adjust_queue := adj\<rparr>);
            Some (libssh2_error s3 LIBSSH2_ERROR_SOCKET_SEND
              ''Unable to send transfer-window adjustment packet, deferring'') }
          else do {
            s3 \<leftarrow> update_channel s2 cid (\<lambda>c. c\<lparr>adjust_state := NB_idle,
                    ch_remote := (ch_remote c)\<lparr>window_size := window_size (ch_remote c) + adj\<rparr>\<rparr>);
            Some (0, s3) } }) }"

end
