(* ===== verification/Packet.thy ===== *)
theory Packet
  imports Channel_Base
begin

text \<open>
  The packet queue, \<^verbatim>\<open>libssh2/src/packet.c\<close>: what happens to a packet the reader has received
  (\<open>libssh2_packet_add\<close>), the answers to connections the peer forwards, and the functions that
  take packets out of the queue or wait for them.

  \<open>data\<close> is the memory the reader allocated for the packet, \<open>datalen\<close> the length it passed; a read
  outside of \<open>data\<close> gives \<open>None\<close>. \<^verbatim>\<open>_libssh2_kex_exchange\<close> is the argument \<open>kx\<close>.
\<close>

abbreviation (input) "SSH_MSG_DISCONNECT \<equiv> 1 :: byte"
abbreviation (input) "SSH_MSG_IGNORE \<equiv> 2 :: byte"
abbreviation (input) "SSH_MSG_DEBUG \<equiv> 4 :: byte"
abbreviation (input) "SSH_MSG_KEXINIT \<equiv> 20 :: byte"
abbreviation (input) "SSH_MSG_GLOBAL_REQUEST \<equiv> 80 :: byte"
abbreviation (input) "SSH_MSG_REQUEST_FAILURE \<equiv> 82 :: byte"
abbreviation (input) "SSH_MSG_CHANNEL_OPEN \<equiv> 90 :: byte"
abbreviation (input) "SSH_MSG_CHANNEL_OPEN_CONFIRMATION \<equiv> 91 :: byte"
abbreviation (input) "SSH_MSG_CHANNEL_OPEN_FAILURE \<equiv> 92 :: byte"
abbreviation (input) "SSH_MSG_CHANNEL_DATA \<equiv> 94 :: byte"
abbreviation (input) "SSH_MSG_CHANNEL_EXTENDED_DATA \<equiv> 95 :: byte"
abbreviation (input) "SSH_MSG_CHANNEL_EOF \<equiv> 96 :: byte"
abbreviation (input) "SSH_MSG_CHANNEL_CLOSE \<equiv> 97 :: byte"
abbreviation (input) "SSH_MSG_CHANNEL_REQUEST \<equiv> 98 :: byte"
abbreviation (input) "SSH_MSG_CHANNEL_FAILURE \<equiv> 100 :: byte"
abbreviation (input) "SSH_OPEN_ADMINISTRATIVELY_PROHIBITED \<equiv> 1 :: u32"
abbreviation (input) "SSH_OPEN_CONNECT_FAILED \<equiv> 2 :: u32"
abbreviation (input) "SSH_OPEN_RESOURCE_SHORTAGE \<equiv> 4 :: u32"
abbreviation (input) "LIBSSH2_CHANNEL_WINDOW_DEFAULT \<equiv> 262144 :: u32"
abbreviation (input) "LIBSSH2_CHANNEL_PACKET_DEFAULT \<equiv> 32768 :: u32"
abbreviation (input) "LIBSSH2_READ_TIMEOUT \<equiv> 60 :: int"

section \<open>Answering a forwarded connection\<close>

definition new_channel :: "byte list \<Rightarrow> u32 \<Rightarrow> u32 \<Rightarrow> u32 \<Rightarrow> u32 \<Rightarrow> channel" where
  "new_channel ctype sender cid window psize = channel0\<lparr>channel_type := ctype,
     ch_remote := (ch_remote channel0)\<lparr>cd_id := sender,
       window_size_initial := LIBSSH2_CHANNEL_WINDOW_DEFAULT,
       window_size := LIBSSH2_CHANNEL_WINDOW_DEFAULT, packet_size := LIBSSH2_CHANNEL_PACKET_DEFAULT\<rparr>,
     ch_local := (ch_local channel0)\<lparr>cd_id := cid, window_size_initial := window,
       window_size := window, packet_size := psize\<rparr>\<rparr>"

definition open_confirmation :: "channel \<Rightarrow> byte list" where
  "open_confirmation ch = SSH_MSG_CHANNEL_OPEN_CONFIRMATION
     # libssh2_store_u32 (cd_id (ch_remote ch)) @ libssh2_store_u32 (cd_id (ch_local ch))
     @ libssh2_store_u32 (window_size_initial (ch_remote ch))
     @ libssh2_store_u32 (packet_size (ch_remote ch))"

definition open_failure :: "u32 \<Rightarrow> u32 \<Rightarrow> byte list \<Rightarrow> byte list" where
  "open_failure sender failure_code descr = SSH_MSG_CHANNEL_OPEN_FAILURE
     # libssh2_store_u32 sender @ libssh2_store_u32 failure_code
     @ libssh2_store_str descr (length descr) @ libssh2_htonu32 0"

abbreviation set_Qlstn :: "packet_queue_listener_state \<Rightarrow> session \<Rightarrow> session" where
  "set_Qlstn q s \<equiv> s\<lparr>packAdd_Qlstn_state := q\<rparr>"

abbreviation set_x11open :: "packet_x11_open_state \<Rightarrow> session \<Rightarrow> session" where
  "set_x11open q s \<equiv> s\<lparr>packAdd_x11open_state := q\<rparr>"

definition Qlstn_parse :: "byte list \<Rightarrow> packet_queue_listener_state \<Rightarrow> packet_queue_listener_state ub" where
  "Qlstn_parse data q = do {
     let o0 = length ''forwarded-tcpip'' + 5;
     sender \<leftarrow> rd32 data o0;
     window \<leftarrow> rd32 data (o0 + 4);
     psize \<leftarrow> rd32 data (o0 + 8);
     hlen \<leftarrow> rd32 data (o0 + 12);
     let o1 = o0 + 16 + unat hlen;
     port \<leftarrow> rd32 data o1;
     slen \<leftarrow> rd32 data (o1 + 4);
     sport \<leftarrow> rd32 data (o1 + 8 + unat slen);
     Some (q\<lparr>ql_sender_channel := sender, ql_initial_window_size := window, ql_packet_size := psize,
             ql_host_len := hlen, ql_host := o0 + 16, ql_port := port, ql_state := NB_allocated\<rparr>) }"

definition listener_matches :: "packet_queue_listener_state \<Rightarrow> byte list \<Rightarrow> listener \<Rightarrow> bool ub" where
  "listener_matches q data l =
     (if ln_port l = sint (ql_port q) \<and> strlen (ln_host l) = unat (ql_host_len q)
      then do { h \<leftarrow> rdn data (ql_host q) (unat (ql_host_len q)); Some (h = cstring (ln_host l)) }
      else Some False)"

text \<open>The first listener the connection is for.\<close>

fun find_listener ::
  "packet_queue_listener_state \<Rightarrow> byte list \<Rightarrow> listener list \<Rightarrow> nat option ub" where
  "find_listener q data [] = Some None"
| "find_listener q data (l # ls) = do {
     m \<leftarrow> listener_matches q data l;
     if m then Some (Some 0) else do { r \<leftarrow> find_listener q data ls; Some (map_option Suc r) } }"

text \<open>The queue of the listener is checked and the channel made: \<open>Inl\<close> with the failure code when the
  connection cannot be taken.\<close>

definition Qlstn_accept :: "session \<Rightarrow> listener \<Rightarrow> u32 \<times> session + session" where
  "Qlstn_accept s l =
     (let q = packAdd_Qlstn_state s;
          fail = (\<lambda>s'. Inl (SSH_OPEN_RESOURCE_SHORTAGE, set_Qlstn (q\<lparr>ql_channel := None, ql_state := NB_sent\<rparr>) s'))
      in if queue_maxsize l \<noteq> 0 \<and> queue_maxsize l \<le> queue_size l then fail s
         else case libssh2_alloc s of (ok, s1) \<Rightarrow>
           if \<not> ok then fail (snd (libssh2_error s1 LIBSSH2_ERROR_ALLOC
                               ''Unable to allocate a channel for new connection''))
           else case libssh2_alloc s1 of (ok2, s2) \<Rightarrow>
             if \<not> ok2 then Inl (SSH_OPEN_RESOURCE_SHORTAGE,
               set_Qlstn (q\<lparr>ql_channel := Some channel0, ql_state := NB_sent\<rparr>)
                 (snd (libssh2_error s2 LIBSSH2_ERROR_ALLOC
                    ''Unable to allocate a channel for new connection'')))
             else case libssh2_channel_nextid s2 of (cid, s3) \<Rightarrow>
               let ch = new_channel (cstr ''forwarded-tcpip'') (ql_sender_channel q) cid
                          (ql_initial_window_size q) (ql_packet_size q)
               in Inr (set_Qlstn (q\<lparr>ql_channel := Some ch, ql_packet := open_confirmation ch,
                                    ql_state := NB_created\<rparr>) s3))"

text \<open>Sending the confirmation and linking the channel into the queue of the listener.\<close>

definition Qlstn_confirm :: "session \<Rightarrow> nat \<Rightarrow> (int \<times> session) ub" where
  "Qlstn_confirm s i = do {
     (rc, s1) \<leftarrow> libssh2_transport_send s addr_Qlstn_packet (take 17 (ql_packet (packAdd_Qlstn_state s))) None;
     let idle = set_Qlstn ((packAdd_Qlstn_state s1)\<lparr>ql_state := NB_idle\<rparr>);
     if rc = LIBSSH2_ERROR_EAGAIN then Some (rc, s1)
     else if rc \<noteq> 0 then Some (libssh2_error (idle s1) rc ''Unable to send channel open confirmation'')
     else case ql_channel (packAdd_Qlstn_state s1) of
         None \<Rightarrow> None
       | Some ch \<Rightarrow>
           let l = listeners s1 ! i in
           Some (0, idle (s1\<lparr>listeners := (listeners s1)[i := l\<lparr>ln_queue := ln_queue l @ [ch],
                                                             queue_size := queue_size l + 1\<rparr>]\<rparr>)) }"

definition Qlstn_reject :: "session \<Rightarrow> u32 \<Rightarrow> (int \<times> session) ub" where
  "Qlstn_reject s failure_code = do {
     let q = packAdd_Qlstn_state s;
     let pkt = open_failure (ql_sender_channel q) failure_code (cstr ''Forward not requested'');
     (rc, s1) \<leftarrow> libssh2_transport_send (set_Qlstn (q\<lparr>ql_packet := pkt\<rparr>) s) addr_Qlstn_packet pkt None;
     let idle = set_Qlstn ((packAdd_Qlstn_state s1)\<lparr>ql_state := NB_idle\<rparr>);
     if rc = LIBSSH2_ERROR_EAGAIN then Some (rc, s1)
     else if rc \<noteq> 0 then Some (libssh2_error (idle s1) rc ''Unable to send open failure'')
     else Some (0, idle s1) }"

definition packet_queue_listener :: "session \<Rightarrow> byte list \<Rightarrow> (int \<times> session) ub" where
  "packet_queue_listener s data = do {
     q \<leftarrow> (if ql_state (packAdd_Qlstn_state s) = NB_idle then Qlstn_parse data (packAdd_Qlstn_state s)
           else Some (packAdd_Qlstn_state s));
     let s1 = set_Qlstn q s;
     if ql_state q = NB_sent then Qlstn_reject s1 SSH_OPEN_ADMINISTRATIVELY_PROHIBITED
     else do {
       r \<leftarrow> find_listener q data (listeners s1);
       (case r of
          None \<Rightarrow> Qlstn_reject (set_Qlstn (q\<lparr>ql_state := NB_sent\<rparr>) s1) SSH_OPEN_ADMINISTRATIVELY_PROHIBITED
        | Some i \<Rightarrow>
            let s2 = set_Qlstn (q\<lparr>ql_channel := None\<rparr>) s1 in
            if ql_state q = NB_allocated
            then (case Qlstn_accept s2 (listeners s2 ! i) of
                Inl (failure_code, s3) \<Rightarrow> Qlstn_reject s3 failure_code
              | Inr s3 \<Rightarrow> Qlstn_confirm s3 i)
            else Qlstn_confirm s2 i) } }"

section \<open>Answering a forwarded X11 connection\<close>

definition x11_parse :: "byte list \<Rightarrow> packet_x11_open_state \<Rightarrow> packet_x11_open_state ub" where
  "x11_parse data q = do {
     let o0 = length ''x11'' + 5;
     sender \<leftarrow> rd32 data o0;
     window \<leftarrow> rd32 data (o0 + 4);
     psize \<leftarrow> rd32 data (o0 + 8);
     slen \<leftarrow> rd32 data (o0 + 12);
     sport \<leftarrow> rd32 data (o0 + 16 + unat slen);
     Some (q\<lparr>xo_sender_channel := sender, xo_initial_window_size := window, xo_packet_size := psize,
             xo_shost := o0 + 16, xo_sport := sport, xo_state := NB_allocated\<rparr>) }"

definition x11_accept :: "session \<Rightarrow> u32 \<times> session + channel \<times> session" where
  "x11_accept s =
     (let q = packAdd_x11open_state s;
          fail = (\<lambda>s'. Inl (SSH_OPEN_RESOURCE_SHORTAGE, snd (libssh2_error s' LIBSSH2_ERROR_ALLOC
                        ''allocate a channel for new connection'')))
      in case libssh2_alloc s of (ok, s1) \<Rightarrow>
        if \<not> ok then fail s1
        else case libssh2_alloc s1 of (ok2, s2) \<Rightarrow>
          if \<not> ok2 then fail s2
          else case libssh2_channel_nextid s2 of (cid, s3) \<Rightarrow>
            let ch = new_channel (cstr ''x11'') (xo_sender_channel q) cid
                       (xo_initial_window_size q) (xo_packet_size q)
            in Inr (ch, set_x11open (q\<lparr>xo_packet := open_confirmation ch, xo_state := NB_created\<rparr>) s3))"

definition x11_confirm :: "session \<Rightarrow> byte list \<Rightarrow> channel option \<Rightarrow> (int \<times> session) ub" where
  "x11_confirm s data chan = do {
     (rc, s1) \<leftarrow> libssh2_transport_send s addr_x11open_packet (take 17 (xo_packet (packAdd_x11open_state s))) None;
     let q = packAdd_x11open_state s1;
     let idle = set_x11open (q\<lparr>xo_state := NB_idle\<rparr>);
     if rc = LIBSSH2_ERROR_EAGAIN then Some (rc, s1)
     else if rc \<noteq> 0 then Some (libssh2_error (idle s1) LIBSSH2_ERROR_SOCKET_SEND
                             ''Unable to send channel open confirmation'')
     else case chan of
         None \<Rightarrow> None
       | Some ch \<Rightarrow>
           Some (0, idle (s1\<lparr>channels := channels s1 @ [ch],
             env := (env s1)\<lparr>cb_log := cb_log (env s1)
               @ [CB_x11_open (cd_id (ch_local ch)) (drop (xo_shost q) data) (xo_sport q)]\<rparr>\<rparr>)) }"

definition x11_reject :: "session \<Rightarrow> u32 \<Rightarrow> (int \<times> session) ub" where
  "x11_reject s failure_code = do {
     let q = packAdd_x11open_state s;
     let pkt = open_failure (xo_sender_channel q) failure_code (cstr ''X11 Forward Unavailable'');
     (rc, s1) \<leftarrow> libssh2_transport_send (set_x11open (q\<lparr>xo_packet := pkt\<rparr>) s) addr_x11open_packet pkt None;
     let idle = set_x11open ((packAdd_x11open_state s1)\<lparr>xo_state := NB_idle\<rparr>);
     if rc = LIBSSH2_ERROR_EAGAIN then Some (rc, s1)
     else if rc \<noteq> 0 then Some (libssh2_error (idle s1) rc ''Unable to send open failure'')
     else Some (0, idle s1) }"

definition packet_x11_open :: "session \<Rightarrow> byte list \<Rightarrow> (int \<times> session) ub" where
  "packet_x11_open s data = do {
     let chan = xo_channel (packAdd_x11open_state s);
     q \<leftarrow> (if xo_state (packAdd_x11open_state s) = NB_idle then x11_parse data (packAdd_x11open_state s)
           else Some (packAdd_x11open_state s));
     let s1 = set_x11open q s;
     if \<not> has_x11_cb s1 then x11_reject s1 SSH_OPEN_RESOURCE_SHORTAGE
     else if xo_state q = NB_allocated then
       (case x11_accept s1 of
          Inl (failure_code, s2) \<Rightarrow> x11_reject s2 failure_code
        | Inr (ch, s2) \<Rightarrow> x11_confirm s2 data (Some ch))
     else if xo_state q = NB_created then x11_confirm s1 data chan
     else x11_reject s1 SSH_OPEN_CONNECT_FAILED }"

section \<open>A packet has arrived\<close>

text \<open>Each message type that is dealt with on arrival has its definition; the session passed in is
  in the state \<^verbatim>\<open>libssh2_NB_state_allocated\<close>.\<close>

definition log_cb :: "callback \<Rightarrow> session \<Rightarrow> session" where
  "log_cb c s = s\<lparr>env := (env s)\<lparr>cb_log := cb_log (env s) @ [c]\<rparr>\<rparr>"

definition add_done :: "session \<Rightarrow> session" where
  "add_done s = s\<lparr>packAdd_state := NB_idle\<rparr>"

definition disconnect_texts :: "byte list \<Rightarrow> nat \<Rightarrow> (byte list \<times> byte list) option ub" where
  "disconnect_texts data datalen =
     (if datalen \<ge> 9 then do {
        mlen \<leftarrow> rd32 data 5;
        if unat mlen < size_sub datalen 13 then do {
          llen \<leftarrow> rd32 data (9 + unat mlen);
          if unat llen > size_sub (size_sub datalen 13) (unat mlen) then Some None
          else Some (Some (take (unat mlen) (drop 9 data),
                           take (unat llen) (drop (9 + unat mlen + 4) data))) }
        else Some None }
      else Some None)"

definition add_disconnect :: "session \<Rightarrow> byte list \<Rightarrow> nat \<Rightarrow> (int \<times> session) ub" where
  "add_disconnect s data datalen = do {
     s1 \<leftarrow> (if datalen \<ge> 5 then do {
             reason \<leftarrow> rd32 data 1;
             texts \<leftarrow> disconnect_texts data datalen;
             Some (if has_disconnect_cb s then log_cb (CB_disconnect reason texts) s else s) }
           else Some s);
     Some (libssh2_error (add_done (s1\<lparr>socket_state := LIBSSH2_SOCKET_DISCONNECTED\<rparr>))
       LIBSSH2_ERROR_SOCKET_DISCONNECT ''socket disconnect'') }"

definition add_ignore :: "session \<Rightarrow> byte list \<Rightarrow> nat \<Rightarrow> (int \<times> session) ub" where
  "add_ignore s data datalen =
     (let s1 = (if has_ignore_cb s
                then log_cb (CB_ignore (if datalen \<ge> 2 then take (datalen - 1) (drop 1 data) else [])) s
                else s)
      in Some (0, add_done s1))"

definition debug_texts ::
  "byte list \<Rightarrow> nat \<Rightarrow> ((byte list option \<times> nat) \<times> (byte list option \<times> nat)) ub" where
  "debug_texts data datalen =
     (if datalen \<ge> 6 then do {
        mlen \<leftarrow> rd32 data 2;
        if unat mlen \<le> size_sub datalen 10 then do {
          llen \<leftarrow> rd32 data (6 + unat mlen);
          Some ((Some (take (unat mlen) (drop 6 data)), unat mlen),
                (if unat llen \<le> size_sub (size_sub datalen 10) (unat mlen)
                 then Some (take (unat llen) (drop (10 + unat mlen) data)) else None, unat llen)) }
        else Some ((None, unat mlen), (None, 0)) }
      else Some ((None, 0), (None, 0)))"

definition add_debug :: "session \<Rightarrow> byte list \<Rightarrow> nat \<Rightarrow> (int \<times> session) ub" where
  "add_debug s data datalen = do {
     s1 \<leftarrow> (if datalen \<ge> 2 then do {
             always_display \<leftarrow> rd8 data 1;
             (m, l) \<leftarrow> debug_texts data datalen;
             Some (if has_debug_cb s then log_cb (CB_debug always_display m l) s else s) }
           else Some s);
     Some (0, add_done s1) }"

text \<open>The label \<^verbatim>\<open>libssh2_packet_add_jump_point5\<close>.\<close>

definition jump_point5 :: "session \<Rightarrow> (int \<times> session) ub" where
  "jump_point5 s = do {
     (rc, s1) \<leftarrow> libssh2_transport_send (s\<lparr>packAdd_state := NB_jump5\<rparr>) addr_stack_packet
                  [SSH_MSG_REQUEST_FAILURE] None;
     if rc = LIBSSH2_ERROR_EAGAIN then Some (rc, s1) else Some (0, add_done s1) }"

definition add_global_request :: "session \<Rightarrow> byte list \<Rightarrow> nat \<Rightarrow> (int \<times> session) ub" where
  "add_global_request s data datalen = do {
     want_reply \<leftarrow> (if datalen \<ge> 5 then do {
           len \<leftarrow> rd32 data 1;
           if datalen \<ge> unat (6 + len) then rd8 data (unat (5 + len)) else Some 0 }
         else Some 0);
     if want_reply \<noteq> 0 then jump_point5 s else Some (0, add_done s) }"

text \<open>The label \<^verbatim>\<open>libssh2_packet_add_jump_point1\<close>: the window is given back for ignored data.\<close>

definition jump_point1 :: "session \<Rightarrow> nat \<Rightarrow> (int \<times> session) ub" where
  "jump_point1 s datalen = do {
     cid \<leftarrow> packAdd_channelp s;
     (rc, s1) \<leftarrow> libssh2_channel_receive_window_adjust (s\<lparr>packAdd_state := NB_jump1\<rparr>) cid
                  (word_of_nat (size_sub datalen 13)) False;
     if rc = LIBSSH2_ERROR_EAGAIN then Some (rc, s1) else Some (0, add_done s1) }"

text \<open>How much of the data of a channel packet is kept, and the receive window afterwards.\<close>

definition window_clip :: "channel_data \<Rightarrow> nat \<Rightarrow> nat \<times> channel_data \<times> (int \<times> string) option" where
  "window_clip rem n =
     (let e1 = (if unat (packet_size rem) < n
                then Some (LIBSSH2_ERROR_CHANNEL_PACKET_EXCEEDED,
                   ''Packet contains more data than we offered to receive, truncating'') else None);
          n1 = (if unat (packet_size rem) < n then unat (packet_size rem) else n)
      in if n1 > unat (window_size rem)
         then (unat (window_size rem), rem\<lparr>cd_eof := False, window_size := 0\<rparr>,
               Some (LIBSSH2_ERROR_CHANNEL_WINDOW_EXCEEDED,
                 ''Remote sent more data than current window allows, truncating''))
         else (n1, rem\<lparr>cd_eof := False, window_size := window_size rem - word_of_nat n1\<rparr>, e1))"

text \<open>\<open>Inl\<close>: the packet is finished; \<open>Inr\<close>: it goes into the queue with this length and head.\<close>

definition add_channel_data ::
  "session \<Rightarrow> byte \<Rightarrow> byte list \<Rightarrow> nat \<Rightarrow> (nat \<times> nat \<times> session) step ub" where
  "add_channel_data s msg data datalen = do {
     let data_head = (if msg = SSH_MSG_CHANNEL_EXTENDED_DATA then 13 else 9);
     channelp \<leftarrow> (if datalen \<ge> data_head then do {
           cid \<leftarrow> rd32 data 1; Some (libssh2_channel_locate s cid) } else Some None);
     (case channelp of
        None \<Rightarrow> Some (Inl (0, add_done (snd (libssh2_error s LIBSSH2_ERROR_CHANNEL_UNKNOWN
                             ''Packet received for unknown channel''))))
      | Some ch \<Rightarrow>
          let cid = local_id ch; rem = ch_remote ch in
          if extended_data_ignore_mode rem = 1 \<and> msg = SSH_MSG_CHANNEL_EXTENDED_DATA
          then map_option Inl (jump_point1 (s\<lparr>packAdd_channelp := Some cid\<rparr>) datalen)
          else if window_size rem = 0
          then Some (Inl (0, add_done (snd (libssh2_error s LIBSSH2_ERROR_CHANNEL_WINDOW_EXCEEDED
                               ''The current receive window is full, data ignored''))))
          else (case window_clip rem (datalen - data_head) of (n, rem', err) \<Rightarrow> do {
            s1 \<leftarrow> update_channel s cid (\<lambda>c. c\<lparr>ch_remote := rem'\<rparr>);
            let s2 = (case err of None \<Rightarrow> s1 | Some (code, text) \<Rightarrow> snd (libssh2_error s1 code text));
            Some (Inr (n + data_head, data_head, s2)) })) }"

definition add_eof :: "session \<Rightarrow> byte list \<Rightarrow> nat \<Rightarrow> (int \<times> session) ub" where
  "add_eof s data datalen =
     (if datalen \<ge> 5 then do {
        cid \<leftarrow> rd32 data 1;
        (case libssh2_channel_locate s cid of
           None \<Rightarrow> Some (0, add_done s)
         | Some ch \<Rightarrow> do {
             s1 \<leftarrow> update_channel s cid (\<lambda>c. c\<lparr>ch_remote := (ch_remote c)\<lparr>cd_eof := True\<rparr>\<rparr>);
             Some (0, add_done s1) }) }
      else Some (0, add_done s))"

definition add_close :: "session \<Rightarrow> byte list \<Rightarrow> nat \<Rightarrow> (int \<times> session) ub" where
  "add_close s data datalen =
     (if datalen \<ge> 5 then do {
        cid \<leftarrow> rd32 data 1;
        (case libssh2_channel_locate s cid of
           None \<Rightarrow> Some (0, add_done s)
         | Some ch \<Rightarrow> do {
             s1 \<leftarrow> update_channel s cid
                    (\<lambda>c. c\<lparr>ch_remote := (ch_remote c)\<lparr>cd_close := True, cd_eof := True\<rparr>\<rparr>);
             Some (0, add_done s1) }) }
      else Some (0, add_done s))"

definition add_window_adjust :: "session \<Rightarrow> byte list \<Rightarrow> nat \<Rightarrow> (int \<times> session) ub" where
  "add_window_adjust s data datalen =
     (if datalen < 9 then Some (0, add_done s)
      else do {
        bytestoadd \<leftarrow> rd32 data 5;
        cid \<leftarrow> rd32 data 1;
        (case libssh2_channel_locate s cid of
           None \<Rightarrow> Some (0, add_done s)
         | Some ch \<Rightarrow> do {
             s1 \<leftarrow> update_channel s cid
                    (\<lambda>c. c\<lparr>ch_local := (ch_local c)\<lparr>window_size := window_size (ch_local c) + bytestoadd\<rparr>\<rparr>);
             Some (0, add_done s1) }) })"

text \<open>The label \<^verbatim>\<open>libssh2_packet_add_jump_point4\<close>: the request is answered with a failure.\<close>

definition jump_point4 :: "session \<Rightarrow> byte list \<Rightarrow> (int \<times> session) ub" where
  "jump_point4 s data = do {
     cid \<leftarrow> rdn data 1 4;
     (rc, s1) \<leftarrow> libssh2_transport_send (s\<lparr>packAdd_state := NB_jump4\<rparr>) addr_stack_packet
                  (SSH_MSG_CHANNEL_FAILURE # cid) None;
     if rc = LIBSSH2_ERROR_EAGAIN then Some (rc, s1) else Some (rc, add_done s1) }"

text \<open>\<^verbatim>\<open>exit-status\<close> and \<^verbatim>\<open>exit-signal\<close>.\<close>

definition exit_status_request :: "session \<Rightarrow> byte list \<Rightarrow> nat \<Rightarrow> u32 \<Rightarrow> (int \<times> session) ub" where
  "exit_status_request s data datalen cid =
     (if datalen \<ge> 20 \<and> libssh2_channel_locate s cid \<noteq> None then do {
        status \<leftarrow> rd32 data 21;
        s1 \<leftarrow> update_channel s cid (\<lambda>c. c\<lparr>exit_status := status\<rparr>);
        Some (0, s1) }
      else Some (0, s))"

definition exit_signal_request :: "session \<Rightarrow> byte list \<Rightarrow> nat \<Rightarrow> u32 \<Rightarrow> (int \<times> session) ub" where
  "exit_signal_request s data datalen cid =
     (if datalen \<ge> 20 \<and> libssh2_channel_locate s cid \<noteq> None then do {
        namelen \<leftarrow> rd32 data 21;
        (case libssh2_alloc s of (ok, s1) \<Rightarrow>
           if \<not> ok then do {
             s2 \<leftarrow> update_channel s1 cid (\<lambda>c. c\<lparr>exit_signal := None\<rparr>);
             Some (libssh2_error s2 LIBSSH2_ERROR_ALLOC ''memory for signal name'') }
           else do {
             name \<leftarrow> rdn data 25 (unat namelen);
             s2 \<leftarrow> update_channel s1 cid (\<lambda>c. c\<lparr>exit_signal := Some name\<rparr>);
             Some (0, s2) }) }
      else Some (0, s))"

definition add_channel_request :: "session \<Rightarrow> byte list \<Rightarrow> nat \<Rightarrow> (int \<times> session) ub" where
  "add_channel_request s data datalen =
     (if datalen \<ge> 9 then do {
        cid \<leftarrow> rd32 data 1;
        len \<leftarrow> rd32 data 5;
        want_reply \<leftarrow> (if unat len < size_sub datalen 10 then rd8 data (unat (9 + len)) else Some 0);
        name \<leftarrow> (if len = 11 then map_option Some (rdn data 9 11) else Some None);
        (rc, s1) \<leftarrow> (if name = Some (cstr ''exit-status'') then exit_status_request s data datalen cid
                    else if name = Some (cstr ''exit-signal'') then exit_signal_request s data datalen cid
                    else Some (0, s));
        if want_reply \<noteq> 0 then jump_point4 s1 data else Some (rc, add_done s1) }
      else Some (0, add_done s))"

text \<open>The labels \<^verbatim>\<open>libssh2_packet_add_jump_point2\<close> and \<^verbatim>\<open>libssh2_packet_add_jump_point3\<close>.\<close>

definition jump_point2 :: "session \<Rightarrow> byte list \<Rightarrow> (int \<times> session) ub" where
  "jump_point2 s data = do {
     (rc, s1) \<leftarrow> packet_queue_listener (s\<lparr>packAdd_state := NB_jump2\<rparr>) data;
     if rc = LIBSSH2_ERROR_EAGAIN then Some (rc, s1) else Some (rc, add_done s1) }"

definition jump_point3 :: "session \<Rightarrow> byte list \<Rightarrow> (int \<times> session) ub" where
  "jump_point3 s data = do {
     (rc, s1) \<leftarrow> packet_x11_open (s\<lparr>packAdd_state := NB_jump3\<rparr>) data;
     if rc = LIBSSH2_ERROR_EAGAIN then Some (rc, s1) else Some (rc, add_done s1) }"

definition add_channel_open :: "session \<Rightarrow> byte list \<Rightarrow> nat \<Rightarrow> (int \<times> session) ub" where
  "add_channel_open s data datalen =
     (if datalen < 17 then Some (0, add_done s)
      else do {
        len \<leftarrow> rd32 data 1;
        fwd \<leftarrow> (if datalen \<ge> 20 \<and> len = 15 then map_option ((=) (cstr ''forwarded-tcpip'')) (rdn data 5 15)
               else Some False);
        x11 \<leftarrow> (if \<not> fwd \<and> datalen \<ge> 8 \<and> len = 3 then map_option ((=) (cstr ''x11'')) (rdn data 5 3)
               else Some False);
        if fwd then jump_point2 (s\<lparr>packAdd_Qlstn_state := packet_queue_listener_state0\<rparr>) data
        else if x11 then jump_point3 (s\<lparr>packAdd_x11open_state := packet_x11_open_state0\<rparr>) data
        else Some (0, add_done s) })"

text \<open>The end of the function: the packet goes into the queue, and the peer's \<^verbatim>\<open>KEXINIT\<close> starts a key
  exchange unless one is running.\<close>

definition add_rekey :: "kex_exchange_fn \<Rightarrow> session \<Rightarrow> byte \<Rightarrow> (int \<times> session) ub" where
  "add_rekey kx s msg =
     (if msg = SSH_MSG_KEXINIT \<and> \<not> state_has s LIBSSH2_STATE_EXCHANGING_KEYS \<or> packAdd_state s = NB_sent2
      then do {
        (rc, s1) \<leftarrow> kx (s\<lparr>readPack_state := NB_idle, packet := (packet s)\<lparr>total_num := 0\<rparr>,
                         packAdd_state := NB_idle, fullpacket_state := NB_idle,
                         startup_key_state := key_exchange_state0\<rparr>);
        if rc = LIBSSH2_ERROR_EAGAIN then Some (rc, s1) else Some (0, add_done s1) }
      else Some (0, add_done s))"

definition add_queue ::
  "kex_exchange_fn \<Rightarrow> session \<Rightarrow> byte \<Rightarrow> byte list \<Rightarrow> nat \<Rightarrow> nat \<Rightarrow> (int \<times> session) ub" where
  "add_queue kx s msg data datalen data_head =
     (case libssh2_alloc s of (ok, s1) \<Rightarrow>
        if \<not> ok then Some (LIBSSH2_ERROR_ALLOC, add_done s1)
        else add_rekey kx
          (s1\<lparr>packets := packets s1 @ [\<lparr>pk_data = data, pk_data_len = datalen, pk_data_head = data_head\<rparr>],
             packAdd_state := NB_sent1\<rparr>) msg)"

definition add_dispatch ::
  "kex_exchange_fn \<Rightarrow> session \<Rightarrow> byte \<Rightarrow> byte list \<Rightarrow> nat \<Rightarrow> (int \<times> session) ub" where
  "add_dispatch kx s msg data datalen =
     (if msg = SSH_MSG_DISCONNECT then add_disconnect s data datalen
      else if msg = SSH_MSG_IGNORE then add_ignore s data datalen
      else if msg = SSH_MSG_DEBUG then add_debug s data datalen
      else if msg = SSH_MSG_GLOBAL_REQUEST then add_global_request s data datalen
      else if msg = SSH_MSG_CHANNEL_EXTENDED_DATA \<or> msg = SSH_MSG_CHANNEL_DATA then do {
        r \<leftarrow> add_channel_data s msg data datalen;
        (case r of
           Inl ret \<Rightarrow> Some ret
         | Inr (n, data_head, s1) \<Rightarrow> add_queue kx (s1\<lparr>packAdd_state := NB_sent\<rparr>) msg data n data_head) }
      else if msg = SSH_MSG_CHANNEL_EOF then add_eof s data datalen
      else if msg = SSH_MSG_CHANNEL_REQUEST then add_channel_request s data datalen
      else if msg = SSH_MSG_CHANNEL_CLOSE then add_close s data datalen
      else if msg = SSH_MSG_CHANNEL_OPEN then add_channel_open s data datalen
      else if msg = SSH_MSG_CHANNEL_WINDOW_ADJUST then add_window_adjust s data datalen
      else add_queue kx (s\<lparr>packAdd_state := NB_sent\<rparr>) msg data datalen 0)"

text \<open>\<^verbatim>\<open>LIBSSH2_MACERROR\<close>: whether the application insists on the error.\<close>

definition macerror_result :: "session \<Rightarrow> bool \<times> session" where
  "macerror_result s =
     (case macerrors (env s) of
        [] \<Rightarrow> (False, s)
      | r # rs \<Rightarrow> (r, s\<lparr>env := (env s)\<lparr>macerrors := rs\<rparr>\<rparr>))"

definition libssh2_packet_add ::
  "kex_exchange_fn \<Rightarrow> session \<Rightarrow> byte list \<Rightarrow> nat \<Rightarrow> bool \<Rightarrow> (int \<times> session) ub" where
  "libssh2_packet_add kx s data datalen macstate = do {
     msg \<leftarrow> rd8 data 0;
     (case packAdd_state s of
        NB_idle \<Rightarrow>
          (case (if macstate then (False, s)
                 else if \<not> has_macerror_cb s then (True, s) else macerror_result s) of (bad, s1) \<Rightarrow>
             if bad then Some (libssh2_error s1 LIBSSH2_ERROR_INVALID_MAC ''Invalid MAC received'')
             else add_dispatch kx (s1\<lparr>packAdd_state := NB_allocated\<rparr>) msg data datalen)
      | NB_jump1 \<Rightarrow> jump_point1 s datalen
      | NB_jump2 \<Rightarrow> jump_point2 s data
      | NB_jump3 \<Rightarrow> jump_point3 s data
      | NB_jump4 \<Rightarrow> jump_point4 s data
      | NB_jump5 \<Rightarrow> jump_point5 s
      | NB_allocated \<Rightarrow> add_dispatch kx s msg data datalen
      | NB_sent \<Rightarrow> add_queue kx s msg data datalen 0
      | _ \<Rightarrow> add_rekey kx s msg) }"

text \<open>The reader, with this component plugged in.\<close>

definition transport_read :: "kex_exchange_fn \<Rightarrow> session \<Rightarrow> (int \<times> session) ub" where
  "transport_read kx = libssh2_transport_read kx (libssh2_packet_add kx)"

section \<open>Taking packets out of the queue\<close>

definition packet_matches :: "byte \<Rightarrow> nat \<Rightarrow> byte list option \<Rightarrow> nat \<Rightarrow> ssh_packet \<Rightarrow> bool ub" where
  "packet_matches packet_type match_ofs match_buf match_len p = do {
     t \<leftarrow> rd8 (pk_data p) 0;
     if t = packet_type \<and> pk_data_len p \<ge> match_ofs + match_len then
       (case match_buf of
          None \<Rightarrow> Some True
        | Some m \<Rightarrow> do {
            d \<leftarrow> rdn (pk_data p) match_ofs match_len;
            Some (d = take match_len m) })
     else Some False }"

fun ask_loop ::
  "byte \<Rightarrow> nat \<Rightarrow> byte list option \<Rightarrow> nat \<Rightarrow> ssh_packet list \<Rightarrow>
   (ssh_packet \<times> ssh_packet list) option ub" where
  "ask_loop packet_type match_ofs match_buf match_len [] = Some None"
| "ask_loop packet_type match_ofs match_buf match_len (p # ps) = do {
     m \<leftarrow> packet_matches packet_type match_ofs match_buf match_len p;
     if m then Some (Some (p, ps))
     else do {
       r \<leftarrow> ask_loop packet_type match_ofs match_buf match_len ps;
       Some (map_option (\<lambda>(q, qs). (q, p # qs)) r) } }"

text \<open>The data of a packet found: the memory and its length.\<close>

type_synonym packet_data = "byte list \<times> nat"

definition libssh2_packet_ask ::
  "session \<Rightarrow> byte \<Rightarrow> nat \<Rightarrow> byte list option \<Rightarrow> nat \<Rightarrow> (packet_data option \<times> session) ub" where
  "libssh2_packet_ask s packet_type match_ofs match_buf match_len = do {
     r \<leftarrow> ask_loop packet_type match_ofs match_buf match_len (packets s);
     (case r of
        None \<Rightarrow> Some (None, s)
      | Some (p, ps) \<Rightarrow> Some (Some (pk_data p, pk_data_len p), s\<lparr>packets := ps\<rparr>)) }"

fun askv_loop ::
  "session \<Rightarrow> byte list \<Rightarrow> nat \<Rightarrow> byte list option \<Rightarrow> nat \<Rightarrow> (packet_data option \<times> session) ub" where
  "askv_loop s [] match_ofs match_buf match_len = Some (None, s)"
| "askv_loop s (t # ts) match_ofs match_buf match_len = do {
     (r, s1) \<leftarrow> libssh2_packet_ask s t match_ofs match_buf match_len;
     (case r of Some d \<Rightarrow> Some (Some d, s1) | None \<Rightarrow> askv_loop s1 ts match_ofs match_buf match_len) }"

definition libssh2_packet_askv ::
  "session \<Rightarrow> byte list \<Rightarrow> nat \<Rightarrow> byte list option \<Rightarrow> nat \<Rightarrow> (packet_data option \<times> session) ub" where
  "libssh2_packet_askv s packet_types = askv_loop s (cstring packet_types)"

section \<open>Waiting for a packet\<close>

text \<open>The results are the return code, the data, the time the wait started and the session.\<close>

partial_function (option) require_loop ::
  "kex_exchange_fn \<Rightarrow> byte \<Rightarrow> nat \<Rightarrow> byte list option \<Rightarrow> nat \<Rightarrow> int \<Rightarrow> session \<Rightarrow>
   (int \<times> packet_data option \<times> int \<times> session) option" where
  "require_loop kx packet_type match_ofs match_buf match_len start s =
     (if socket_state s \<noteq> LIBSSH2_SOCKET_CONNECTED
      then Some (LIBSSH2_ERROR_SOCKET_DISCONNECT, None, start, s)
      else Option.bind (transport_read kx s) (\<lambda>(ret, s1).
        if ret = LIBSSH2_ERROR_EAGAIN then Some (ret, None, start, s1)
        else if ret < 0 then Some (ret, None, 0, s1)
        else if ret = int (unat packet_type) then
          Option.bind (libssh2_packet_ask s1 packet_type match_ofs match_buf match_len) (\<lambda>(d, s2).
            Some (if d = None then -1 else 0, d, 0, s2))
        else if ret = 0 then
          (case libssh2_time s1 of (now, s2) \<Rightarrow>
             if LIBSSH2_READ_TIMEOUT - (now - start) \<le> 0 then Some (LIBSSH2_ERROR_TIMEOUT, None, 0, s2)
             else Some (-1, None, start, s2))
        else require_loop kx packet_type match_ofs match_buf match_len start s1))"

definition libssh2_packet_require ::
  "kex_exchange_fn \<Rightarrow> session \<Rightarrow> byte \<Rightarrow> nat \<Rightarrow> byte list option \<Rightarrow> nat \<Rightarrow> int \<Rightarrow>
   (int \<times> packet_data option \<times> int \<times> session) ub" where
  "libssh2_packet_require kx s packet_type match_ofs match_buf match_len start =
     (if start = 0 then do {
        (d, s1) \<leftarrow> libssh2_packet_ask s packet_type match_ofs match_buf match_len;
        if d \<noteq> None then Some (0, d, start, s1)
        else (case libssh2_time s1 of (now, s2) \<Rightarrow>
          require_loop kx packet_type match_ofs match_buf match_len now s2) }
      else require_loop kx packet_type match_ofs match_buf match_len start s)"

partial_function (option) burn_loop ::
  "kex_exchange_fn \<Rightarrow> nb_state \<Rightarrow> session \<Rightarrow> (int \<times> nb_state \<times> session) option" where
  "burn_loop kx st s =
     (if socket_state s \<noteq> LIBSSH2_SOCKET_CONNECTED
      then Some (LIBSSH2_ERROR_SOCKET_DISCONNECT, st, s)
      else Option.bind (transport_read kx s) (\<lambda>(ret, s1).
        if ret = LIBSSH2_ERROR_EAGAIN then Some (ret, st, s1)
        else if ret < 0 then Some (ret, NB_idle, s1)
        else if ret = 0 then burn_loop kx st s1
        else Option.bind (libssh2_packet_ask s1 (word_of_int ret) 0 None 0) (\<lambda>(d, s2).
          if d \<noteq> None then Some (ret, NB_idle, s2) else burn_loop kx st s2)))"

text \<open>The types 1 to 255, in this order.\<close>

definition all_packets :: "byte list" where
  "all_packets = map word_of_nat [1..<256]"

definition libssh2_packet_burn ::
  "kex_exchange_fn \<Rightarrow> session \<Rightarrow> nb_state \<Rightarrow> (int \<times> nb_state \<times> session) ub" where
  "libssh2_packet_burn kx s st =
     (if st = NB_idle then do {
        (d, s1) \<leftarrow> libssh2_packet_askv s all_packets 0 None 0;
        (case d of
           Some (data, n) \<Rightarrow> do { t \<leftarrow> rd8 data 0; Some (int (unat t), st, s1) }
         | None \<Rightarrow> burn_loop kx NB_created s1) }
      else burn_loop kx st s)"

partial_function (option) requirev_loop ::
  "kex_exchange_fn \<Rightarrow> byte list \<Rightarrow> nat \<Rightarrow> byte list option \<Rightarrow> nat \<Rightarrow> int \<Rightarrow> session \<Rightarrow>
   (int \<times> packet_data option \<times> int \<times> session) option" where
  "requirev_loop kx packet_types match_ofs match_buf match_len start s =
     (if socket_state s = LIBSSH2_SOCKET_DISCONNECTED
      then Some (LIBSSH2_ERROR_SOCKET_DISCONNECT, None, 0, s)
      else Option.bind (transport_read kx s) (\<lambda>(ret, s1).
        if ret < 0 \<and> ret \<noteq> LIBSSH2_ERROR_EAGAIN then Some (ret, None, 0, s1)
        else case (if ret \<le> 0 then libssh2_time s1 else (start, s1)) of (now, s2) \<Rightarrow>
          if ret \<le> 0 \<and> LIBSSH2_READ_TIMEOUT - (now - start) \<le> 0
          then Some (LIBSSH2_ERROR_TIMEOUT, None, 0, s2)
          else if ret = LIBSSH2_ERROR_EAGAIN then Some (ret, None, start, s2)
          else if ret = 0 \<or> word_of_int ret \<in> set (cstring packet_types) then
            Option.bind (libssh2_packet_askv s2 packet_types match_ofs match_buf match_len) (\<lambda>(d, s3).
              Some (if d = None then -1 else 0, d, start, s3))
          else requirev_loop kx packet_types match_ofs match_buf match_len start s2))"

definition libssh2_packet_requirev ::
  "kex_exchange_fn \<Rightarrow> session \<Rightarrow> byte list \<Rightarrow> nat \<Rightarrow> byte list option \<Rightarrow> nat \<Rightarrow> int \<Rightarrow>
   (int \<times> packet_data option \<times> int \<times> session) ub" where
  "libssh2_packet_requirev kx s packet_types match_ofs match_buf match_len start = do {
     (d, s1) \<leftarrow> libssh2_packet_askv s packet_types match_ofs match_buf match_len;
     if d \<noteq> None then Some (0, d, 0, s1)
     else (case (if start = 0 then libssh2_time s1 else (start, s1)) of (start', s2) \<Rightarrow>
       requirev_loop kx packet_types match_ofs match_buf match_len start' s2) }"

end
