(* ===== verification/Channel.thy ===== *)
theory Channel
  imports Packet
begin

text \<open>
  The channels of \<^verbatim>\<open>libssh2/src/channel.c\<close>: opening, requests, reading, writing, end of file,
  closing and freeing. \<^verbatim>\<open>LIBSSH2_CHANNEL *channel\<close> is the session and the local number of the
  channel; a call on a number no channel has is the use of a dangling pointer and gives \<open>None\<close>.

  The functions here are the non-blocking ones, \<^verbatim>\<open>_libssh2_channel_...\<close> and \<^verbatim>\<open>channel_...\<close>; the public
  functions call them again while they would block and the session is in blocking mode.
\<close>

abbreviation (input) "SSH_MSG_CHANNEL_SUCCESS \<equiv> 99 :: byte"
abbreviation (input) "LIBSSH2_CHANNEL_EXTENDED_DATA_IGNORE \<equiv> 1 :: nat"
abbreviation (input) "LIBSSH2_CHANNEL_EXTENDED_DATA_MERGE \<equiv> 2 :: nat"
abbreviation (input) "LIBSSH2_CHANNEL_FLUSH_EXTENDED_DATA \<equiv> -1 :: int"
abbreviation (input) "LIBSSH2_CHANNEL_FLUSH_ALL \<equiv> -2 :: int"

text \<open>Conversion of a \<^verbatim>\<open>size_t\<close> to \<^verbatim>\<open>int\<close>.\<close>

definition c_int :: "nat \<Rightarrow> int" where
  "c_int n = sint (word_of_nat n :: u32)"

text \<open>Reading packets until there are none.\<close>

partial_function (option) drain :: "kex_exchange_fn \<Rightarrow> session \<Rightarrow> (int \<times> session) option" where
  "drain kx s = Option.bind (transport_read kx s) (\<lambda>(rc, s1). if rc > 0 then drain kx s1 else Some (rc, s1))"

section \<open>Opening a channel\<close>

text \<open>Packets meant for a channel are thrown away.\<close>

partial_function (option) purge_loop :: "byte list \<Rightarrow> session \<Rightarrow> session option" where
  "purge_loop channel_id s =
     Option.bind (libssh2_packet_ask s SSH_MSG_CHANNEL_DATA 1 (Some channel_id) 4) (\<lambda>(d, s1).
       if d \<noteq> None then purge_loop channel_id s1
       else Option.bind (libssh2_packet_ask s1 SSH_MSG_CHANNEL_EXTENDED_DATA 1 (Some channel_id) 4) (\<lambda>(d2, s2).
         if d2 \<noteq> None then purge_loop channel_id s2 else Some s2))"

text \<open>\<^verbatim>\<open>_libssh2_list_remove\<close> on a channel: from the list of the session, or from the queue of a
  listener.\<close>

fun remove_first :: "('a \<Rightarrow> bool) \<Rightarrow> 'a list \<Rightarrow> 'a list option" where
  "remove_first P [] = None"
| "remove_first P (x # xs) = (if P x then Some xs else map_option ((#) x) (remove_first P xs))"

fun remove_queued :: "('a \<Rightarrow> bool) \<Rightarrow> 'a list list \<Rightarrow> 'a list list option" where
  "remove_queued P [] = None"
| "remove_queued P (q # qs) =
     (case remove_first P q of
        Some q' \<Rightarrow> Some (q' # qs)
      | None \<Rightarrow> map_option ((#) q) (remove_queued P qs))"

definition remove_channel :: "session \<Rightarrow> u32 \<Rightarrow> session ub" where
  "remove_channel s cid =
     (case remove_first (\<lambda>ch. local_id ch = cid) (channels s) of
        Some chs \<Rightarrow> Some (s\<lparr>channels := chs\<rparr>)
      | None \<Rightarrow>
          map_option (\<lambda>qs. s\<lparr>listeners := map2 (\<lambda>l q. l\<lparr>ln_queue := q\<rparr>) (listeners s) qs\<rparr>)
            (remove_queued (\<lambda>ch. local_id ch = cid) (map ln_queue (listeners s))))"

text \<open>The label \<^verbatim>\<open>channel_error\<close>.\<close>

definition open_error :: "session \<Rightarrow> session ub" where
  "open_error s =
     (let s1 = s\<lparr>open_packet := None\<rparr> in
      case open_channel s1 of
        None \<Rightarrow> Some (s1\<lparr>open_state := NB_idle\<rparr>)
      | Some cid \<Rightarrow> do {
          s2 \<leftarrow> remove_channel s1 cid;
          s3 \<leftarrow> purge_loop (libssh2_htonu32 cid) s2;
          Some (s3\<lparr>open_channel := None, open_state := NB_idle\<rparr>) })"

text \<open>The request: \<open>Inl\<close> when memory for it is lacking.\<close>

definition open_prepare :: "session \<Rightarrow> byte list \<Rightarrow> u32 \<Rightarrow> u32 \<Rightarrow> (session + session) ub" where
  "open_prepare s0 ctype window psize =
     (case libssh2_channel_nextid (s0\<lparr>open_channel := None, open_packet := None\<rparr>) of (cid, s1) \<Rightarrow>
      let s = s1\<lparr>open_local_channel := cid, open_start := 0\<rparr> in
      case libssh2_alloc s of (ok, s2) \<Rightarrow>
        if \<not> ok then Some (Inl (snd (libssh2_error s2 LIBSSH2_ERROR_ALLOC
                            ''Unable to allocate space for channel data'')))
        else case libssh2_alloc s2 of (ok2, s3) \<Rightarrow>
          if \<not> ok2 then Some (Inl (snd (libssh2_error s3 LIBSSH2_ERROR_ALLOC
                              ''Failed allocating memory for channel type name'')))
          else let ch = channel0\<lparr>channel_type := ctype, ch_local := (ch_local channel0)\<lparr>cd_id := cid\<rparr>,
                  ch_remote := (ch_remote channel0)\<lparr>window_size := window, window_size_initial := window,
                    packet_size := psize\<rparr>\<rparr>;
                s4 = s3\<lparr>open_channel := Some cid, channels := channels s3 @ [ch]\<rparr>
            in case libssh2_alloc s4 of (ok3, s5) \<Rightarrow>
              if \<not> ok3 then map_option Inl (open_error (snd (libssh2_error s5 LIBSSH2_ERROR_ALLOC
                                  ''Unable to allocate temporary space for packet'')))
              else Some (Inr (s5\<lparr>open_packet := Some (SSH_MSG_CHANNEL_OPEN # libssh2_store_str ctype (length ctype)
                     @ libssh2_store_u32 cid @ libssh2_store_u32 window @ libssh2_store_u32 psize),
                   open_state := NB_created\<rparr>)))"

definition open_send :: "session \<Rightarrow> byte list option \<Rightarrow> (session + session) ub" where
  "open_send s message = do {
     pkt \<leftarrow> open_packet s;
     (rc, s1) \<leftarrow> libssh2_transport_send s addr_open_packet pkt message;
     if rc = LIBSSH2_ERROR_EAGAIN
     then Some (Inl (snd (libssh2_error s1 rc ''Would block sending channel-open request'')))
     else if rc \<noteq> 0
     then map_option Inl (open_error (snd (libssh2_error s1 rc ''Unable to send channel-open request'')))
     else Some (Inr (s1\<lparr>open_state := NB_sent\<rparr>)) }"

text \<open>The answer; the result is the channel or NULL.\<close>

definition open_reply :: "session \<Rightarrow> byte list \<Rightarrow> (u32 option \<times> session) ub" where
  "open_reply s data = do {
     code \<leftarrow> rd8 data 0;
     if code = SSH_MSG_CHANNEL_OPEN_CONFIRMATION then do {
       cid \<leftarrow> open_channel s;
       rid \<leftarrow> rd32 data 5;
       window \<leftarrow> rd32 data 9;
       psize \<leftarrow> rd32 data 13;
       s1 \<leftarrow> update_channel s cid (\<lambda>c. c\<lparr>ch_remote := (ch_remote c)\<lparr>cd_id := rid\<rparr>,
               ch_local := (ch_local c)\<lparr>window_size := window, window_size_initial := window, packet_size := psize\<rparr>\<rparr>);
       Some (Some cid, s1\<lparr>open_packet := None, open_state := NB_idle\<rparr>) }
     else do {
       s1 \<leftarrow> open_error (if code = SSH_MSG_CHANNEL_OPEN_FAILURE
                then snd (libssh2_error s LIBSSH2_ERROR_CHANNEL_FAILURE ''Channel open failure'') else s);
       Some (None, s1) } }"

definition open_answer :: "kex_exchange_fn \<Rightarrow> session \<Rightarrow> nat \<Rightarrow> (u32 option \<times> session) ub" where
  "open_answer kx s ctype_len = do {
     pkt \<leftarrow> open_packet s;
     (rc, d, start, s1) \<leftarrow> libssh2_packet_requirev kx s
        [SSH_MSG_CHANNEL_OPEN_CONFIRMATION, SSH_MSG_CHANNEL_OPEN_FAILURE] 1 (Some (drop (5 + ctype_len) pkt)) 4
        (open_start s);
     let s2 = s1\<lparr>open_start := start\<rparr>;
     if rc = LIBSSH2_ERROR_EAGAIN
     then Some (None, snd (libssh2_error s2 LIBSSH2_ERROR_EAGAIN ''Would block''))
     else if rc \<noteq> 0 then do { s3 \<leftarrow> open_error s2; Some (None, s3) }
     else do { (data, n) \<leftarrow> d; open_reply s2 data } }"

definition libssh2_channel_open ::
  "kex_exchange_fn \<Rightarrow> session \<Rightarrow> byte list \<Rightarrow> u32 \<Rightarrow> u32 \<Rightarrow> byte list option \<Rightarrow> (u32 option \<times> session) ub" where
  "libssh2_channel_open kx s ctype window psize message = do {
     r1 \<leftarrow> (if open_state s = NB_idle then open_prepare s ctype window psize else Some (Inr s));
     (case r1 of
        Inl s1 \<Rightarrow> Some (None, s1)
      | Inr s1 \<Rightarrow> do {
          r2 \<leftarrow> (if open_state s1 = NB_created then open_send s1 message else Some (Inr s1));
          (case r2 of
             Inl s2 \<Rightarrow> Some (None, s2)
           | Inr s2 \<Rightarrow> if open_state s2 = NB_sent then open_answer kx s2 (length ctype)
                       else do { s3 \<leftarrow> open_error s2; Some (None, s3) }) }) }"

section \<open>Starting a program on a channel\<close>

definition process_prepare ::
  "session \<Rightarrow> u32 \<Rightarrow> byte list \<Rightarrow> byte list option \<Rightarrow> session step ub" where
  "process_prepare s cid request message = do {
     ch \<leftarrow> libssh2_channel_locate s cid;
     (case libssh2_alloc s of (ok, s1) \<Rightarrow> do {
        s2 \<leftarrow> update_channel s1 cid (\<lambda>c. c\<lparr>process_start := 0, process_packet := None\<rparr>);
        if \<not> ok then Some (Inl (libssh2_error s2 LIBSSH2_ERROR_ALLOC
                             ''Unable to allocate memory for channel-process request''))
        else do {
          s3 \<leftarrow> update_channel s2 cid (\<lambda>c. c\<lparr>process_packet := Some (SSH_MSG_CHANNEL_REQUEST
                  # libssh2_store_u32 (cd_id (ch_remote ch)) @ libssh2_store_str request (length request) @ [1]
                  @ (case message of None \<Rightarrow> [] | Some m \<Rightarrow> libssh2_store_u32 (word_of_nat (length m)))),
                process_state := NB_created\<rparr>);
          Some (Inr s3) } }) }"

definition process_send :: "session \<Rightarrow> u32 \<Rightarrow> byte list option \<Rightarrow> session step ub" where
  "process_send s cid message = do {
     ch \<leftarrow> libssh2_channel_locate s cid;
     pkt \<leftarrow> process_packet ch;
     (rc, s1) \<leftarrow> libssh2_transport_send s (addr_process cid) pkt message;
     if rc = LIBSSH2_ERROR_EAGAIN
     then Some (Inl (libssh2_error s1 rc ''Would block sending channel request''))
     else if rc \<noteq> 0 then do {
       s2 \<leftarrow> update_channel s1 cid (\<lambda>c. c\<lparr>process_packet := None, process_state := NB_idle\<rparr>);
       Some (Inl (libssh2_error s2 rc ''Unable to send channel request'')) }
     else do {
       s2 \<leftarrow> update_channel s1 cid (\<lambda>c. c\<lparr>process_packet := None,
               process_local_channel := libssh2_htonu32 (local_id c), process_state := NB_sent\<rparr>);
       Some (Inr s2) } }"

definition process_denied :: "session \<Rightarrow> int \<times> session" where
  "process_denied s = libssh2_error s LIBSSH2_ERROR_CHANNEL_REQUEST_DENIED
     ''Unable to complete request for channel-process-startup''"

definition process_answer :: "kex_exchange_fn \<Rightarrow> session \<Rightarrow> u32 \<Rightarrow> (int \<times> session) ub" where
  "process_answer kx s cid = do {
     ch \<leftarrow> libssh2_channel_locate s cid;
     (rc, d, start, s1) \<leftarrow> libssh2_packet_requirev kx s [SSH_MSG_CHANNEL_SUCCESS, SSH_MSG_CHANNEL_FAILURE] 1
        (Some (process_local_channel ch)) 4 (process_start ch);
     s2 \<leftarrow> update_channel s1 cid (\<lambda>c. c\<lparr>process_start := start\<rparr>);
     if rc = LIBSSH2_ERROR_EAGAIN then Some (rc, s2)
     else do {
       s3 \<leftarrow> update_channel s2 cid (\<lambda>c. c\<lparr>process_state := NB_idle\<rparr>);
       if rc \<noteq> 0 then Some (libssh2_error s3 rc ''Failed waiting for channel success'')
       else do {
         (data, n) \<leftarrow> d;
         code \<leftarrow> rd8 data 0;
         if code = SSH_MSG_CHANNEL_SUCCESS then Some (0, s3) else Some (process_denied s3) } } }"

definition libssh2_channel_process_startup ::
  "kex_exchange_fn \<Rightarrow> session \<Rightarrow> u32 \<Rightarrow> byte list \<Rightarrow> byte list option \<Rightarrow> (int \<times> session) ub" where
  "libssh2_channel_process_startup kx s cid request message = do {
     ch \<leftarrow> libssh2_channel_locate s cid;
     r1 \<leftarrow> (if process_state ch = NB_idle then process_prepare s cid request message else Some (Inr s));
     (case r1 of
        Inl ret \<Rightarrow> Some ret
      | Inr s1 \<Rightarrow> do {
          ch1 \<leftarrow> libssh2_channel_locate s1 cid;
          r2 \<leftarrow> (if process_state ch1 = NB_created then process_send s1 cid message else Some (Inr s1));
          (case r2 of
             Inl ret \<Rightarrow> Some ret
           | Inr s2 \<Rightarrow> do {
               ch2 \<leftarrow> libssh2_channel_locate s2 cid;
               if process_state ch2 = NB_sent then process_answer kx s2 cid
               else Some (process_denied s2) }) }) }"

section \<open>Throwing data away\<close>

text \<open>Whether a packet in the queue is data for the channel.\<close>

definition is_channel_data :: "u32 \<Rightarrow> ssh_packet \<Rightarrow> bool ub" where
  "is_channel_data cid p = do {
     t \<leftarrow> rd8 (pk_data p) 0;
     if t = SSH_MSG_CHANNEL_DATA \<or> t = SSH_MSG_CHANNEL_EXTENDED_DATA
     then do { i \<leftarrow> rd32 (pk_data p) 1; Some (i = cid) }
     else Some False }"

definition flush_wanted :: "u32 \<Rightarrow> int \<Rightarrow> ssh_packet \<Rightarrow> bool ub" where
  "flush_wanted cid streamid p = do {
     ours \<leftarrow> is_channel_data cid p;
     if \<not> ours then Some False
     else do {
       t \<leftarrow> rd8 (pk_data p) 0;
       sid \<leftarrow> (if t = SSH_MSG_CHANNEL_DATA then Some 0 else map_option (\<lambda>w. int (unat w)) (rd32 (pk_data p) 5));
       Some (streamid = LIBSSH2_CHANNEL_FLUSH_ALL
         \<or> t = SSH_MSG_CHANNEL_EXTENDED_DATA \<and> (streamid = LIBSSH2_CHANNEL_FLUSH_EXTENDED_DATA \<or> streamid = sid)
         \<or> t = SSH_MSG_CHANNEL_DATA \<and> streamid = 0) } }"

text \<open>The packets kept, the bytes to refund and the bytes flushed.\<close>

fun flush_loop :: "u32 \<Rightarrow> int \<Rightarrow> ssh_packet list \<Rightarrow> (ssh_packet list \<times> nat \<times> nat) ub" where
  "flush_loop cid streamid [] = Some ([], 0, 0)"
| "flush_loop cid streamid (p # ps) = do {
     w \<leftarrow> flush_wanted cid streamid p;
     (qs, refund, flushed) \<leftarrow> flush_loop cid streamid ps;
     if w then Some (qs, (size_sub (pk_data_len p) 13 + refund) mod 2 ^ 64,
                     (nat (c_int (size_sub (pk_data_len p) (pk_data_head p)) mod 2 ^ 64) + flushed) mod 2 ^ 64)
     else Some (p # qs, refund, flushed) }"

definition libssh2_channel_flush :: "session \<Rightarrow> u32 \<Rightarrow> int \<Rightarrow> (int \<times> session) ub" where
  "libssh2_channel_flush s cid streamid = do {
     ch \<leftarrow> libssh2_channel_locate s cid;
     s1 \<leftarrow> (if flush_state ch = NB_idle then do {
              (qs, refund, flushed) \<leftarrow> flush_loop cid streamid (packets s);
              update_channel (s\<lparr>packets := qs\<rparr>) cid (\<lambda>c. c\<lparr>flush_refund_bytes := refund,
                flush_flush_bytes := flushed, flush_state := NB_created\<rparr>) }
            else Some s);
     ch1 \<leftarrow> libssh2_channel_locate s1 cid;
     (rc, s2) \<leftarrow> (if flush_refund_bytes ch1 \<noteq> 0
                 then libssh2_channel_receive_window_adjust s1 cid (word_of_nat (flush_refund_bytes ch1)) False
                 else Some (0, s1));
     if rc = LIBSSH2_ERROR_EAGAIN then Some (rc, s2)
     else do {
       s3 \<leftarrow> update_channel s2 cid (\<lambda>c. c\<lparr>flush_state := NB_idle\<rparr>);
       Some (c_int (flush_flush_bytes ch1), s3) } }"

text \<open>The second test of the state repeats the first one, after which the state is never idle.\<close>

definition libssh2_channel_extended_data :: "session \<Rightarrow> u32 \<Rightarrow> nat \<Rightarrow> (int \<times> session) ub" where
  "libssh2_channel_extended_data s cid ignore_mode = do {
     ch \<leftarrow> libssh2_channel_locate s cid;
     s1 \<leftarrow> (if extData2_state ch = NB_idle
            then update_channel s cid (\<lambda>c. c\<lparr>ch_remote := (ch_remote c)\<lparr>extended_data_ignore_mode := ignore_mode\<rparr>,
                                            extData2_state := NB_created\<rparr>)
            else Some s);
     ch1 \<leftarrow> libssh2_channel_locate s1 cid;
     (rc, s2) \<leftarrow> (if extData2_state ch1 = NB_idle \<and> ignore_mode = LIBSSH2_CHANNEL_EXTENDED_DATA_IGNORE
                 then libssh2_channel_flush s1 cid LIBSSH2_CHANNEL_FLUSH_EXTENDED_DATA else Some (0, s1));
     if rc = LIBSSH2_ERROR_EAGAIN then Some (rc, s2)
     else do {
       s3 \<leftarrow> update_channel s2 cid (\<lambda>c. c\<lparr>extData2_state := NB_idle\<rparr>);
       Some (0, s3) } }"

section \<open>Reading from a channel\<close>

text \<open>Whether a packet in the queue has data of the stream: the standard stream, a given extended
  stream, or extended data merged into the standard stream.\<close>

definition read_wanted :: "channel \<Rightarrow> int \<Rightarrow> ssh_packet \<Rightarrow> bool ub" where
  "read_wanted ch stream_id p = do {
     i \<leftarrow> rd32 (pk_data p) 1;
     t \<leftarrow> rd8 (pk_data p) 0;
     if local_id ch \<noteq> i then Some False
     else if stream_id \<noteq> 0 then
       (if t = SSH_MSG_CHANNEL_EXTENDED_DATA then map_option (\<lambda>w. stream_id = sint w) (rd32 (pk_data p) 5)
        else Some False)
     else Some (t = SSH_MSG_CHANNEL_DATA \<or> t = SSH_MSG_CHANNEL_EXTENDED_DATA \<and>
            extended_data_ignore_mode (ch_remote ch) = LIBSSH2_CHANNEL_EXTENDED_DATA_MERGE) }"

text \<open>The loop over the queue. \<open>acc\<close> is what has been copied to the buffer so far; a packet whose data is
  used up leaves the queue.\<close>

fun read_packets ::
  "channel \<Rightarrow> int \<Rightarrow> nat \<Rightarrow> ssh_packet list \<Rightarrow> byte list \<Rightarrow> (byte list \<times> ssh_packet list) ub" where
  "read_packets ch stream_id buflen [] acc = Some (acc, [])"
| "read_packets ch stream_id buflen (p # ps) acc =
     (if \<not> int (length acc) < c_int buflen then Some (acc, p # ps)
      else do {
        w \<leftarrow> read_wanted ch stream_id p;
        if w then do {
          let want = c_int (size_sub buflen (length acc));
          let avail = c_int (size_sub (pk_data_len p) (pk_data_head p));
          let n = min want avail;
          if n < 0 then None
          else do {
            d \<leftarrow> rdn (pk_data p) (pk_data_head p) (nat n);
            (acc', qs) \<leftarrow> read_packets ch stream_id buflen ps (acc @ d);
            Some (acc', if want \<ge> avail then qs else p\<lparr>pk_data_head := pk_data_head p + nat n\<rparr> # qs) } }
        else do {
          (acc', qs) \<leftarrow> read_packets ch stream_id buflen ps acc;
          Some (acc', p # qs) } })"

text \<open>The result is the return value, the bytes stored in the buffer and the session.\<close>

definition libssh2_channel_read ::
  "kex_exchange_fn \<Rightarrow> session \<Rightarrow> u32 \<Rightarrow> int \<Rightarrow> nat \<Rightarrow> (int \<times> byte list \<times> session) ub" where
  "libssh2_channel_read kx s cid stream_id buflen = do {
     s1 \<leftarrow> update_channel s cid (\<lambda>c. if read_state c = NB_idle then c\<lparr>read_state := NB_created\<rparr> else c);
     (rc, s2) \<leftarrow> drain kx s1;
     if rc < 0 \<and> rc \<noteq> LIBSSH2_ERROR_EAGAIN then
       (case libssh2_error s2 rc ''transport read'' of (rc', s3) \<Rightarrow> Some (rc', [], s3))
     else do {
       ch \<leftarrow> libssh2_channel_locate s2 cid;
       (bs, qs) \<leftarrow> read_packets ch stream_id buflen (packets s2) [];
       let s3 = s2\<lparr>packets := qs\<rparr>;
       if bs = [] then do {
         s4 \<leftarrow> update_channel s3 cid (\<lambda>c. c\<lparr>read_state := NB_idle\<rparr>);
         if cd_eof (ch_remote ch) \<or> cd_close (ch_remote ch) then Some (0, [], s4)
         else if rc \<noteq> LIBSSH2_ERROR_EAGAIN then Some (0, [], s4)
         else (case libssh2_error s4 rc ''would block'' of (rc', s5) \<Rightarrow> Some (rc', [], s5)) }
       else do {
         s4 \<leftarrow> update_channel s3 cid (\<lambda>c. c\<lparr>read_state := NB_created\<rparr>);
         Some (int (length bs), bs, s4) } } }"

fun data_len_loop :: "channel \<Rightarrow> int \<Rightarrow> ssh_packet list \<Rightarrow> nat ub" where
  "data_len_loop ch stream_id [] = Some 0"
| "data_len_loop ch stream_id (p # ps) = do {
     w \<leftarrow> read_wanted ch stream_id p;
     if w then Some (size_sub (pk_data_len p) (pk_data_head p)) else data_len_loop ch stream_id ps }"

definition libssh2_channel_packet_data_len :: "session \<Rightarrow> u32 \<Rightarrow> int \<Rightarrow> nat ub" where
  "libssh2_channel_packet_data_len s cid stream_id = do {
     ch \<leftarrow> libssh2_channel_locate s cid;
     data_len_loop ch stream_id (packets s) }"

section \<open>Writing to a channel\<close>

text \<open>How much of the buffer goes into one packet, and the head of the packet.\<close>

definition write_amount :: "channel \<Rightarrow> nat \<Rightarrow> nat" where
  "write_amount ch buflen =
     (let n = (if buflen > unat (window_size (ch_local ch)) then unat (window_size (ch_local ch)) else buflen)
      in if n > unat (packet_size (ch_local ch)) then unat (packet_size (ch_local ch)) else n)"

definition write_header :: "channel \<Rightarrow> int \<Rightarrow> nat \<Rightarrow> byte list" where
  "write_header ch stream_id n =
     (if stream_id \<noteq> 0 then SSH_MSG_CHANNEL_EXTENDED_DATA else SSH_MSG_CHANNEL_DATA)
     # libssh2_store_u32 (cd_id (ch_remote ch))
     @ (if stream_id \<noteq> 0 then libssh2_store_u32 (word_of_int stream_id) else [])
     @ libssh2_store_u32 (word_of_nat n)"

definition write_prepare :: "kex_exchange_fn \<Rightarrow> session \<Rightarrow> u32 \<Rightarrow> int \<Rightarrow> nat \<Rightarrow> session step ub" where
  "write_prepare kx s cid stream_id buflen = do {
     ch0 \<leftarrow> libssh2_channel_locate s cid;
     if cd_close (ch_local ch0) then
       Some (Inl (libssh2_error s LIBSSH2_ERROR_CHANNEL_CLOSED ''We've already closed this channel''))
     else if cd_eof (ch_local ch0) then
       Some (Inl (libssh2_error s LIBSSH2_ERROR_CHANNEL_EOF_SENT
         ''EOF has already been received, data might be ignored''))
     else do {
       (rc, s1) \<leftarrow> drain kx s;
       ch \<leftarrow> libssh2_channel_locate s1 cid;
       if window_size (ch_local ch) = 0 then
         Some (Inl (if rc = LIBSSH2_ERROR_EAGAIN then rc else 0, s1))
       else do {
         let n = write_amount ch buflen;
         s2 \<leftarrow> update_channel s1 cid (\<lambda>c. c\<lparr>write_bufwrite := n, write_packet := write_header ch stream_id n,
                                          write_state := NB_created\<rparr>);
         Some (Inr s2) } } }"

definition write_send :: "session \<Rightarrow> u32 \<Rightarrow> byte list \<Rightarrow> (int \<times> session) ub" where
  "write_send s cid bufp = do {
     ch \<leftarrow> libssh2_channel_locate s cid;
     d \<leftarrow> rdn bufp 0 (write_bufwrite ch);
     (rc, s1) \<leftarrow> libssh2_transport_send s (addr_write cid) (write_packet ch) (Some d);
     if rc = LIBSSH2_ERROR_EAGAIN then Some (libssh2_error s1 rc ''Unable to send channel data'')
     else if rc \<noteq> 0 then do {
       s2 \<leftarrow> update_channel s1 cid (\<lambda>c. c\<lparr>write_state := NB_idle\<rparr>);
       Some (libssh2_error s2 rc ''Unable to send channel data'') }
     else do {
       s2 \<leftarrow> update_channel s1 cid (\<lambda>c. c\<lparr>ch_local := (ch_local c)\<lparr>window_size :=
               window_size (ch_local c) - word_of_nat (write_bufwrite c)\<rparr>, write_state := NB_idle\<rparr>);
       Some (int (write_bufwrite ch), s2) } }"

definition libssh2_channel_write ::
  "kex_exchange_fn \<Rightarrow> session \<Rightarrow> u32 \<Rightarrow> int \<Rightarrow> byte list \<Rightarrow> (int \<times> session) ub" where
  "libssh2_channel_write kx s cid stream_id bufp = do {
     let buflen = (if length bufp > 32700 then 32700 else length bufp);
     ch \<leftarrow> libssh2_channel_locate s cid;
     r \<leftarrow> (if write_state ch = NB_idle then write_prepare kx s cid stream_id buflen else Some (Inr s));
     (case r of
        Inl ret \<Rightarrow> Some ret
      | Inr s1 \<Rightarrow> do {
          ch1 \<leftarrow> libssh2_channel_locate s1 cid;
          if write_state ch1 = NB_created then write_send s1 cid bufp else Some (LIBSSH2_ERROR_INVAL, s1) }) }"

section \<open>End of file and closing\<close>

definition channel_send_eof :: "session \<Rightarrow> u32 \<Rightarrow> (int \<times> session) ub" where
  "channel_send_eof s cid = do {
     ch \<leftarrow> libssh2_channel_locate s cid;
     (rc, s1) \<leftarrow> libssh2_transport_send s addr_eof_packet
                  (SSH_MSG_CHANNEL_EOF # libssh2_htonu32 (cd_id (ch_remote ch))) None;
     if rc = LIBSSH2_ERROR_EAGAIN then Some (libssh2_error s1 rc ''Would block sending EOF'')
     else if rc \<noteq> 0 then
       Some (libssh2_error s1 LIBSSH2_ERROR_SOCKET_SEND ''Unable to send EOF on channel'')
     else do {
       s2 \<leftarrow> update_channel s1 cid (\<lambda>c. c\<lparr>ch_local := (ch_local c)\<lparr>cd_eof := True\<rparr>\<rparr>);
       Some (0, s2) } }"

fun eof_loop :: "u32 \<Rightarrow> bool \<Rightarrow> ssh_packet list \<Rightarrow> bool ub" where
  "eof_loop cid eof [] = Some eof"
| "eof_loop cid eof (p # ps) = do {
     w \<leftarrow> is_channel_data cid p;
     if w then Some False else eof_loop cid eof ps }"

definition libssh2_channel_eof :: "session \<Rightarrow> u32 \<Rightarrow> bool ub" where
  "libssh2_channel_eof s cid = do {
     ch \<leftarrow> libssh2_channel_locate s cid;
     eof_loop cid (cd_eof (ch_remote ch)) (packets s) }"

partial_function (option) wait_eof_loop ::
  "kex_exchange_fn \<Rightarrow> u32 \<Rightarrow> session \<Rightarrow> (int \<times> session) option" where
  "wait_eof_loop kx cid s =
     Option.bind (libssh2_channel_locate s cid) (\<lambda>ch.
       if cd_eof (ch_remote ch) then
         Option.bind (update_channel s cid (\<lambda>c. c\<lparr>wait_eof_state := NB_idle\<rparr>)) (\<lambda>s1. Some (0, s1))
       else Option.bind (transport_read kx s) (\<lambda>(rc, s1).
         if rc = LIBSSH2_ERROR_EAGAIN then Some (rc, s1)
         else if rc < 0 then
           Option.bind (update_channel s1 cid (\<lambda>c. c\<lparr>wait_eof_state := NB_idle\<rparr>)) (\<lambda>s2.
             Some (libssh2_error s2 rc ''_libssh2_transport_read() bailed out!''))
         else wait_eof_loop kx cid s1))"

definition channel_wait_eof :: "kex_exchange_fn \<Rightarrow> session \<Rightarrow> u32 \<Rightarrow> (int \<times> session) ub" where
  "channel_wait_eof kx s cid = do {
     s1 \<leftarrow> update_channel s cid
            (\<lambda>c. if wait_eof_state c = NB_idle then c\<lparr>wait_eof_state := NB_created\<rparr> else c);
     wait_eof_loop kx cid s1 }"

text \<open>The loop that waits for the close of the other side; it goes on while the reader returns 0.\<close>

partial_function (option) close_wait ::
  "kex_exchange_fn \<Rightarrow> u32 \<Rightarrow> int \<Rightarrow> session \<Rightarrow> (int \<times> session) option" where
  "close_wait kx cid rc s =
     Option.bind (libssh2_channel_locate s cid) (\<lambda>ch.
       if \<not> cd_close (ch_remote ch) \<and> rc = 0 \<and> socket_state s \<noteq> LIBSSH2_SOCKET_DISCONNECTED
       then Option.bind (transport_read kx s) (\<lambda>(rc', s1). close_wait kx cid rc' s1)
       else Some (rc, s))"

definition close_send :: "session \<Rightarrow> u32 \<Rightarrow> session step ub" where
  "close_send s cid = do {
     s1 \<leftarrow> update_channel s cid (\<lambda>c. if close_state c = NB_idle
             then c\<lparr>close_packet := SSH_MSG_CHANNEL_CLOSE # libssh2_htonu32 (cd_id (ch_remote c)),
                     close_state := NB_created\<rparr> else c);
     ch \<leftarrow> libssh2_channel_locate s1 cid;
     if close_state ch = NB_created then do {
       (rc, s2) \<leftarrow> libssh2_transport_send s1 (addr_close cid) (close_packet ch) None;
       if rc = LIBSSH2_ERROR_EAGAIN then
         Some (Inl (rc, snd (libssh2_error s2 0 ''Would block sending close-channel'')))
       else do {
         s3 \<leftarrow> update_channel s2 cid (\<lambda>c. c\<lparr>close_state := (if rc = 0 then NB_sent else NB_idle)\<rparr>);
         if rc \<noteq> 0 then Some (Inl (libssh2_error s3 rc ''Unable to send close-channel request''))
         else Some (Inr s3) } }
     else Some (Inr s1) }"

definition close_done :: "session \<Rightarrow> u32 \<Rightarrow> int \<Rightarrow> (int \<times> session) ub" where
  "close_done s cid rc = do {
     s1 \<leftarrow> (if rc \<noteq> LIBSSH2_ERROR_EAGAIN then do {
              ch \<leftarrow> libssh2_channel_locate s cid;
              update_channel (if has_close_cb ch then log_cb (CB_channel_close cid) s else s) cid
                (\<lambda>c. c\<lparr>ch_local := (ch_local c)\<lparr>cd_close := True\<rparr>, close_state := NB_idle\<rparr>) }
            else Some s);
     Some (if rc \<ge> 0 then 0 else rc, s1) }"

definition libssh2_channel_close :: "kex_exchange_fn \<Rightarrow> session \<Rightarrow> u32 \<Rightarrow> (int \<times> session) ub" where
  "libssh2_channel_close kx s cid = do {
     ch \<leftarrow> libssh2_channel_locate s cid;
     if cd_close (ch_local ch) then do {
       s1 \<leftarrow> update_channel s cid (\<lambda>c. c\<lparr>close_state := NB_idle\<rparr>);
       Some (0, s1) }
     else do {
       (rc0, s1) \<leftarrow> (if \<not> cd_eof (ch_local ch) then channel_send_eof s cid else Some (0, s));
       if rc0 \<noteq> 0 then Some (rc0, s1)
       else do {
         r \<leftarrow> close_send s1 cid;
         (case r of
            Inl ret \<Rightarrow> Some ret
          | Inr s2 \<Rightarrow> do {
              ch2 \<leftarrow> libssh2_channel_locate s2 cid;
              (rc, s3) \<leftarrow> (if close_state ch2 = NB_sent then close_wait kx cid 0 s2 else Some (0, s2));
              close_done s3 cid rc }) } } }"

partial_function (option) wait_closed_loop ::
  "kex_exchange_fn \<Rightarrow> u32 \<Rightarrow> session \<Rightarrow> (int \<times> session) option" where
  "wait_closed_loop kx cid s =
     Option.bind (transport_read kx s) (\<lambda>(rc, s1).
       Option.bind (libssh2_channel_locate s1 cid) (\<lambda>ch.
         if cd_close (ch_remote ch) then Some (rc, s1)
         else if rc > 0 then wait_closed_loop kx cid s1 else Some (rc, s1)))"

definition channel_wait_closed :: "kex_exchange_fn \<Rightarrow> session \<Rightarrow> u32 \<Rightarrow> (int \<times> session) ub" where
  "channel_wait_closed kx s cid = do {
     eof \<leftarrow> libssh2_channel_eof s cid;
     if \<not> eof then Some (libssh2_error s LIBSSH2_ERROR_INVAL
       ''libssh2_channel_wait_closed() invoked when channel is not in EOF state'')
     else do {
       s1 \<leftarrow> update_channel s cid
              (\<lambda>c. if wait_closed_state c = NB_idle then c\<lparr>wait_closed_state := NB_created\<rparr> else c);
       ch \<leftarrow> libssh2_channel_locate s1 cid;
       (rc, s2) \<leftarrow> (if \<not> cd_close (ch_remote ch) then wait_closed_loop kx cid s1 else Some (0, s1));
       if rc < 0 then Some (rc, s2)
       else do {
         s3 \<leftarrow> update_channel s2 cid (\<lambda>c. c\<lparr>wait_closed_state := NB_idle\<rparr>);
         Some (0, s3) } } }"

definition libssh2_channel_free :: "kex_exchange_fn \<Rightarrow> session \<Rightarrow> u32 \<Rightarrow> (int \<times> session) ub" where
  "libssh2_channel_free kx s cid = do {
     s1 \<leftarrow> update_channel s cid (\<lambda>c. if free_state c = NB_idle then c\<lparr>free_state := NB_created\<rparr> else c);
     ch \<leftarrow> libssh2_channel_locate s1 cid;
     (rc, s2) \<leftarrow> (if \<not> cd_close (ch_local ch) \<and> socket_state s1 = LIBSSH2_SOCKET_CONNECTED
                 then libssh2_channel_close kx s1 cid else Some (0, s1));
     if rc = LIBSSH2_ERROR_EAGAIN then Some (rc, s2)
     else do {
       s3 \<leftarrow> purge_loop (libssh2_htonu32 cid) s2;
       s4 \<leftarrow> remove_channel s3 cid;
       Some (0, s4) } }"

section \<open>Windows and exit status\<close>

fun queued_bytes :: "u32 \<Rightarrow> ssh_packet list \<Rightarrow> nat ub" where
  "queued_bytes cid [] = Some 0"
| "queued_bytes cid (p # ps) = do {
     w \<leftarrow> is_channel_data cid p;
     n \<leftarrow> queued_bytes cid ps;
     Some (if w then (size_sub (pk_data_len p) (pk_data_head p) + n) mod 2 ^ 64 else n) }"

text \<open>The window, the bytes that can be read and the initial window.\<close>

definition libssh2_channel_window_read_ex :: "session \<Rightarrow> u32 \<Rightarrow> (u32 \<times> nat \<times> u32) ub" where
  "libssh2_channel_window_read_ex s cid = do {
     ch \<leftarrow> libssh2_channel_locate s cid;
     n \<leftarrow> queued_bytes cid (packets s);
     Some (window_size (ch_remote ch), n, window_size_initial (ch_remote ch)) }"

definition libssh2_channel_window_write_ex :: "session \<Rightarrow> u32 \<Rightarrow> (u32 \<times> u32) ub" where
  "libssh2_channel_window_write_ex s cid = do {
     ch \<leftarrow> libssh2_channel_locate s cid;
     Some (window_size (ch_local ch), window_size_initial (ch_local ch)) }"

definition libssh2_channel_get_exit_status :: "session \<Rightarrow> u32 \<Rightarrow> int ub" where
  "libssh2_channel_get_exit_status s cid = do {
     ch \<leftarrow> libssh2_channel_locate s cid; Some (sint (exit_status ch)) }"

text \<open>The name of the signal, NULL without one, and its length.\<close>

definition libssh2_channel_get_exit_signal ::
  "session \<Rightarrow> u32 \<Rightarrow> (int \<times> (byte list option \<times> nat) \<times> session) ub" where
  "libssh2_channel_get_exit_signal s cid = do {
     ch \<leftarrow> libssh2_channel_locate s cid;
     (case exit_signal ch of
        None \<Rightarrow> Some (LIBSSH2_ERROR_NONE, (None, 0), s)
      | Some name \<Rightarrow>
          (case libssh2_alloc s of (ok, s1) \<Rightarrow>
             if \<not> ok then (case libssh2_error s1 LIBSSH2_ERROR_ALLOC
                       ''Unable to allocate memory for signal name'' of (rc, s2) \<Rightarrow> Some (rc, (None, 0), s2))
             else Some (LIBSSH2_ERROR_NONE, (Some (cstring name), strlen name), s1))) }"

end
