(* ===== verification/Packet_Frame.thy ===== *)
theory Packet_Frame
  imports Packet
begin

text \<open>
  What the operations of the packet layer leave alone, the frame the proofs about it rest on.

  \<^item> \<open>send_view\<close>: sending touches only the socket, the packet buffers, the sending side and the
    blocked directions.
  \<^item> \<open>kept\<close> and \<open>add_kept\<close>: only the key exchange changes the flags of the session, and only
    \<open>libssh2_packet_add\<close> its own resume state.
  \<^item> The locale \<open>channel_table\<close> is the interface through which handlers find and change channels,
    interpreted on \<open>libssh2_channel_locate\<close> and \<open>update_channel\<close>.
\<close>

section \<open>What sending leaves alone\<close>

text \<open>Everything but the socket, the packet buffers, the sending side and the blocked directions.\<close>

definition send_view :: "session \<Rightarrow> session" where
  "send_view s = s\<lparr>env := env0, packet := transportpacket0, local_ep := endpoint0,
     socket_block_directions := 0\<rparr>"

lemma send_view_direction [simp]:
  "send_view (block_direction d s) = send_view s" "send_view (clear_direction d s) = send_view s"
  by (simp_all add: send_view_def block_direction_def clear_direction_def)

lemma libssh2_send_view: "libssh2_send s d = (rc, s') \<Longrightarrow> send_view s' = send_view s"
  by (auto simp: libssh2_send_def send_view_def split: list.splits if_splits)

lemma send_new_view: "send_new s a n m = (rc, s') \<Longrightarrow> send_view s' = send_view s"
  by (auto simp: send_new_def Let_def split: prod.splits if_splits dest!: libssh2_send_view)
    (simp_all add: send_view_def block_direction_def)

lemma send_existing_view: "send_existing s a n = (rc, ret, s') \<Longrightarrow> send_view s' = send_view s"
  by (auto simp: send_existing_def Let_def split: prod.splits if_splits dest!: libssh2_send_view)
    (simp_all add: send_view_def)

lemma send_view_comp [simp]:
  "send_view (s\<lparr>local_ep := e\<rparr>) = send_view s" "send_view (s\<lparr>packet := p\<rparr>) = send_view s"
  by (simp_all add: send_view_def)

lemma send_payload_view:
  assumes "send_payload s e d d2 = Some r"
  shows "case r of Inl (rc, s') \<Rightarrow> send_view s' = send_view s | Inr (x, s') \<Rightarrow> send_view s' = send_view s"
proof (cases "e \<and> map_option pm_compress (comp (local_ep s)) = Some True")
  case False
  then show ?thesis using assms
    by (auto simp: send_payload_def Let_def bind_eq_Some_conv split: if_splits)
next
  case True
  then obtain pm where pm: "comp (local_ep s) = Some pm" "pm_compress pm" by auto
  let ?d2 = "case d2 of None \<Rightarrow> [] | Some d \<Rightarrow> d"
  obtain rc x ab where c1: "pm_comp pm (comp_abstract (local_ep s)) (MAX_SSH_PACKET_LEN - 5 - 256) d = (rc, x, ab)"
    by (metis prod_cases3)
  obtain rc2 x2 ab2 where c2: "pm_comp pm ab (size_sub (MAX_SSH_PACKET_LEN - 5 - 256) (length x)) ?d2 = (rc2, x2, ab2)"
    by (metis prod_cases3)
  show ?thesis using assms True pm
    unfolding send_payload_def Let_def
    by (auto simp: c1 [simplified] c2 [simplified] split: if_splits)
qed

lemma seal_packet_view:
  assumes "seal_packet s p = Some r"
  shows "case r of Inl (rc, s') \<Rightarrow> send_view s' = send_view s | Inr (x, s') \<Rightarrow> send_view s' = send_view s"
proof -
  obtain cm mm where m: "crypt (local_ep s) = Some cm" "mac (local_ep s) = Some mm"
    using assms by (auto simp: seal_packet_def bind_eq_Some_conv)
  obtain ok ab enc where "crypt_blocks (cm_crypt cm) (blocksize cm) (crypt_abstract (local_ep s)) p = (ok, ab, enc)"
    by (metis prod_cases3)
  then show ?thesis using assms m by (auto simp: seal_packet_def Let_def send_view_def split: if_splits)
qed

lemma libssh2_random_view: "libssh2_random s n = (r, s') \<Longrightarrow> send_view s' = send_view s"
  by (auto simp: libssh2_random_def send_view_def)

lemma send_packet_view:
  assumes "send_packet s e bs a n d = Some (rc, s')"
  shows "send_view s' = send_view s"
proof -
  let ?n = "padding_for bs (length d)"
  obtain rand s1 where r: "libssh2_random s ?n = (rand, s1)" by force
  let ?pkt = "plain_packet (length d + 1 + 4 + ?n) d rand"
  have "\<exists>q m. (if e then seal_packet s1 ?pkt else Some (Inr (?pkt, s1))) = Some q \<and>
     (case q of Inl x \<Rightarrow> Some x | Inr (out, s2) \<Rightarrow>
       Some (send_new (s2\<lparr>packet := (packet s2)\<lparr>outbuf := out\<rparr>,
          local_ep := (local_ep s2)\<lparr>seqno := seqno (local_ep s2) + 1\<rparr>\<rparr>) a n m)) = Some (rc, s')"
    using assms unfolding send_packet_def Let_def r prod.case
    by (cases e) (auto simp: bind_eq_Some_conv split: if_splits)
  then obtain q m where q: "(if e then seal_packet s1 ?pkt else Some (Inr (?pkt, s1))) = Some q"
    and fin: "(case q of Inl x \<Rightarrow> Some x | Inr (out, s2) \<Rightarrow>
       Some (send_new (s2\<lparr>packet := (packet s2)\<lparr>outbuf := out\<rparr>,
          local_ep := (local_ep s2)\<lparr>seqno := seqno (local_ep s2) + 1\<rparr>\<rparr>) a n m)) = Some (rc, s')" by blast
  have "case q of Inl (rc, s') \<Rightarrow> send_view s' = send_view s1 | Inr (x, s') \<Rightarrow> send_view s' = send_view s1"
    using q seal_packet_view [of s1 ?pkt q] by (cases e) auto
  then show ?thesis using fin libssh2_random_view [OF r]
    by (cases q) (auto dest!: send_new_view)
qed

lemma transport_send_view:
  assumes "libssh2_transport_send s a d d2 = Some (rc, s')"
  shows "send_view s' = send_view s"
proof -
  obtain rc1 ret s1 where ex: "send_existing s a (length d) = (rc1, ret, s1)" by (metis prod_cases3)
  note v1 = send_existing_view [OF ex]
  let ?s = "clear_direction LIBSSH2_SESSION_BLOCK_OUTBOUND s1"
  have "(rc, s') = (rc1, s1) \<or> (rc, s') = (rc1, ?s) \<or>
      (\<exists>e bs r. send_payload ?s e d d2 = Some r \<and>
        (case r of Inl x \<Rightarrow> Some x
         | Inr (dd, s3) \<Rightarrow> send_packet s3 e bs a (length d) dd) = Some (rc, s'))"
    using assms unfolding libssh2_transport_send_def Let_def ex prod.case
    by (auto simp: bind_eq_Some_conv split: if_splits)
  then show ?thesis
  proof (elim disjE exE conjE)
    fix e bs r
    assume r: "send_payload ?s e d d2 = Some r"
      "(case r of Inl x \<Rightarrow> Some x | Inr (dd, s3) \<Rightarrow> send_packet s3 e bs a (length d) dd) = Some (rc, s')"
    from send_payload_view [OF r(1)] r(2) v1 show ?thesis
      by (cases r) (auto dest!: send_packet_view)
  qed (use v1 in auto)
qed

section \<open>The session state flags\<close>

text \<open>Only the key exchange changes the flags, and only \<open>libssh2_packet_add\<close> its own state.\<close>

named_theorems flag_simps "how the session state is kept"

definition kept :: "session \<Rightarrow> u32 \<times> nb_state" where
  "kept s = (sstate s, packAdd_state s)"

lemma kept_update [simp]:
  "kept (s\<lparr>err_code := x0\<rparr>) = kept s" "kept (s\<lparr>err_msg := x1\<rparr>) = kept s"
  "kept (s\<lparr>env := x2\<rparr>) = kept s" "kept (s\<lparr>packet := x3\<rparr>) = kept s"
  "kept (s\<lparr>local_ep := x4\<rparr>) = kept s" "kept (s\<lparr>remote_ep := x5\<rparr>) = kept s"
  "kept (s\<lparr>socket_block_directions := x6\<rparr>) = kept s" "kept (s\<lparr>socket_state := x7\<rparr>) = kept s"
  "kept (s\<lparr>next_channel := x8\<rparr>) = kept s" "kept (s\<lparr>channels := x9\<rparr>) = kept s"
  "kept (s\<lparr>listeners := x10\<rparr>) = kept s" "kept (s\<lparr>packets := x11\<rparr>) = kept s"
  "kept (s\<lparr>packAdd_Qlstn_state := x12\<rparr>) = kept s" "kept (s\<lparr>packAdd_x11open_state := x13\<rparr>) = kept s"
  "kept (s\<lparr>packAdd_channelp := x14\<rparr>) = kept s" "kept (s\<lparr>readPack_state := x15\<rparr>) = kept s"
  "kept (s\<lparr>readPack_encrypted := x16\<rparr>) = kept s" "kept (s\<lparr>fullpacket_state := x17\<rparr>) = kept s"
  "kept (s\<lparr>fullpacket_macstate := x18\<rparr>) = kept s" "kept (s\<lparr>fullpacket_payload_len := x19\<rparr>) = kept s"
  "kept (s\<lparr>fullpacket_packet_type := x20\<rparr>) = kept s"
  by (simp_all add: kept_def)

lemma transport_send_kept:
  assumes "libssh2_transport_send s a d d2 = Some (rc, s')"
  shows "kept s' = kept s"
  using arg_cong [OF transport_send_view [OF assms], of kept] by (simp add: send_view_def)

lemma direction_kept [flag_simps]:
  "kept (block_direction d s) = kept s" "kept (clear_direction d s) = kept s"
  by (simp_all add: block_direction_def clear_direction_def)

lemma small_kept [flag_simps]:
  "kept (snd (libssh2_error s c m)) = kept s" "kept (snd (libssh2_alloc s)) = kept s"
  "sstate (add_done s) = sstate s" "kept (log_cb cb s) = kept s"
  "kept (snd (libssh2_channel_nextid s)) = kept s" "kept (snd (libssh2_time s)) = kept s"
  "kept (snd (macerror_result s)) = kept s"
  by (auto simp: libssh2_error_def libssh2_alloc_def add_done_def log_cb_def libssh2_channel_nextid_def
      libssh2_time_def macerror_result_def Let_def split: list.splits)

lemma alloc_kept: "libssh2_alloc s = (ok, s') \<Longrightarrow> kept s' = kept s"
  using small_kept(2) [of s] by simp

lemma error_kept: "libssh2_error s c m = (rc, s') \<Longrightarrow> kept s' = kept s"
  by (auto simp: libssh2_error_def)

lemma nextid_kept: "libssh2_channel_nextid s = (i, s') \<Longrightarrow> kept s' = kept s"
  using small_kept(5) [of s] by simp

lemma update_channel_kept: "update_channel s cid f = Some s' \<Longrightarrow> kept s' = kept s"
  by (auto simp: update_channel_def split: option.split_asm)

lemmas kept_dests = transport_send_kept alloc_kept error_kept nextid_kept update_channel_kept

lemma window_adjust_kept:
  "libssh2_channel_receive_window_adjust s cid a f = Some (rc, s') \<Longrightarrow> kept s' = kept s"
  by (auto simp: libssh2_channel_receive_window_adjust_def
      split: sum.split_asm if_split_asm elim!: bind_SomeE dest!: kept_dests)

lemma Qlstn_kept:
  "Qlstn_accept s l = Inl (c, s') \<Longrightarrow> kept s' = kept s"
  "Qlstn_accept s l = Inr s' \<Longrightarrow> kept s' = kept s"
  by (auto simp: Qlstn_accept_def Let_def split: if_split_asm prod.split_asm elim!: bind_SomeE dest!: kept_dests)
    (auto simp: flag_simps libssh2_error_def)

lemma Qlstn_send_kept:
  "Qlstn_confirm s i = Some (rc, s') \<Longrightarrow> kept s' = kept s"
  "Qlstn_reject s c = Some (rc, s') \<Longrightarrow> kept s' = kept s"
  by (auto simp: Qlstn_confirm_def Qlstn_reject_def Let_def
      split: if_split_asm option.split_asm elim!: bind_SomeE dest!: kept_dests)

lemma packet_queue_listener_kept:
  "packet_queue_listener s data = Some (rc, s') \<Longrightarrow> kept s' = kept s"
  by (auto simp: packet_queue_listener_def Let_def
      split: if_split_asm option.split_asm sum.split_asm elim!: bind_SomeE dest!: Qlstn_kept Qlstn_send_kept)

lemma x11_kept:
  "x11_accept s = Inl (c, s') \<Longrightarrow> kept s' = kept s"
  "x11_accept s = Inr (ch, s') \<Longrightarrow> kept s' = kept s"
  by (auto simp: x11_accept_def Let_def split: if_split_asm prod.split_asm elim!: bind_SomeE dest!: kept_dests)
    (auto simp: flag_simps libssh2_error_def)

lemma x11_send_kept:
  "x11_confirm s data ch = Some (rc, s') \<Longrightarrow> kept s' = kept s"
  "x11_reject s c = Some (rc, s') \<Longrightarrow> kept s' = kept s"
  by (auto simp: x11_confirm_def x11_reject_def Let_def
      split: if_split_asm option.split_asm elim!: bind_SomeE dest!: kept_dests)

lemma packet_x11_open_kept:
  "packet_x11_open s data = Some (rc, s') \<Longrightarrow> kept s' = kept s"
  by (auto simp: packet_x11_open_def Let_def
      split: if_split_asm option.split_asm sum.split_asm elim!: bind_SomeE dest!: x11_kept x11_send_kept)

text \<open>What handling a message keeps.\<close>

definition add_kept :: "session \<Rightarrow> session \<Rightarrow> bool" where
  "add_kept s s' \<longleftrightarrow> sstate s' = sstate s \<and> packAdd_state s' \<noteq> NB_sent2"

lemma log_cb_kept_fields:
  "sstate (log_cb c s) = sstate s" "packAdd_state (log_cb c s) = packAdd_state s"
  "sstate (snd (libssh2_error s e m)) = sstate s"
  "packAdd_state (snd (libssh2_error s e m)) = packAdd_state s"
  by (simp_all add: log_cb_def libssh2_error_def)

lemmas kept_simps = kept_def add_kept_def add_done_def log_cb_kept_fields

lemma keptD: "kept s' = kept s \<Longrightarrow> sstate s' = sstate s \<and> packAdd_state s' = packAdd_state s"
  by (simp add: kept_def)

lemma add_keptD: "add_kept s s' \<Longrightarrow> sstate s' = sstate s \<and> packAdd_state s' \<noteq> NB_sent2"
  by (simp add: add_kept_def)

lemma add_kept_done: "sstate s' = sstate s \<Longrightarrow> add_kept s (add_done s')"
  by (simp add: add_kept_def add_done_def)

lemma kept_done: "kept s' = kept s \<Longrightarrow> add_kept s (add_done s')"
  by (simp add: kept_def add_kept_done)

lemma jump_point_kept:
  "jump_point1 s n = Some (rc, s') \<Longrightarrow> add_kept s s'"
  "jump_point2 s data = Some (rc, s') \<Longrightarrow> add_kept s s'"
  "jump_point3 s data = Some (rc, s') \<Longrightarrow> add_kept s s'"
  "jump_point4 s data = Some (rc, s') \<Longrightarrow> add_kept s s'"
  "jump_point5 s = Some (rc, s') \<Longrightarrow> add_kept s s'"
  by (auto simp: jump_point1_def jump_point2_def jump_point3_def jump_point4_def jump_point5_def flag_simps kept_simps
      elim!: bind_SomeE split: asm_splits
      dest!: kept_dests window_adjust_kept packet_queue_listener_kept packet_x11_open_kept)

lemma exit_request_kept:
  "exit_status_request s data n cid = Some (rc, s') \<Longrightarrow> kept s' = kept s"
  "exit_signal_request s data n cid = Some (rc, s') \<Longrightarrow> kept s' = kept s"
  by (auto simp: exit_status_request_def exit_signal_request_def elim!: bind_SomeE split: asm_splits
      dest!: kept_dests)

lemma add_disconnect_kept: "add_disconnect s data n = Some (rc, s') \<Longrightarrow> add_kept s s'"
  by (auto simp: add_disconnect_def flag_simps kept_simps elim!: bind_SomeE split: asm_splits dest!: error_kept)

lemma add_message_kept:
  "add_ignore s data n = Some (rc, s') \<Longrightarrow> add_kept s s'"
  "add_debug s data n = Some (rc, s') \<Longrightarrow> add_kept s s'"
  "add_global_request s data n = Some (rc, s') \<Longrightarrow> add_kept s s'"
  "add_eof s data n = Some (rc, s') \<Longrightarrow> add_kept s s'"
  "add_close s data n = Some (rc, s') \<Longrightarrow> add_kept s s'"
  "add_window_adjust s data n = Some (rc, s') \<Longrightarrow> add_kept s s'"
  by (auto simp: add_ignore_def add_debug_def add_global_request_def add_eof_def add_close_def
      add_window_adjust_def Let_def flag_simps kept_simps elim!: bind_SomeE split: asm_splits
      dest!: jump_point_kept update_channel_kept)

lemma add_channel_request_kept:
  "add_channel_request s data n = Some (rc, s') \<Longrightarrow> add_kept s s'"
  by (auto simp: add_channel_request_def flag_simps kept_simps elim!: bind_SomeE split: asm_splits
      dest!: jump_point_kept exit_request_kept)

lemma add_channel_open_kept:
  "add_channel_open s data n = Some (rc, s') \<Longrightarrow> add_kept s s'"
  by (auto simp: add_channel_open_def flag_simps kept_simps elim!: bind_SomeE split: asm_splits
      dest!: jump_point_kept)

lemma add_channel_data_kept:
  "add_channel_data s msg data n = Some (Inl (rc, s')) \<Longrightarrow> add_kept s s'"
  "add_channel_data s msg data n = Some (Inr (k, h, s')) \<Longrightarrow> kept s' = kept s"
  by (auto simp: add_channel_data_def Let_def flag_simps kept_simps elim!: bind_SomeE split: asm_splits
      dest!: jump_point_kept update_channel_kept)

text \<open>The messages that are neither queued nor able to start a key exchange.\<close>

definition handled_msg :: "byte \<Rightarrow> bool" where
  "handled_msg msg \<longleftrightarrow> msg \<in> {SSH_MSG_DISCONNECT, SSH_MSG_IGNORE, SSH_MSG_DEBUG, SSH_MSG_GLOBAL_REQUEST,
     SSH_MSG_CHANNEL_EOF, SSH_MSG_CHANNEL_REQUEST, SSH_MSG_CHANNEL_CLOSE, SSH_MSG_CHANNEL_OPEN,
     SSH_MSG_CHANNEL_WINDOW_ADJUST}"

lemma add_dispatch_handled:
  assumes "handled_msg msg"
  shows "add_dispatch kx s msg data n = add_dispatch kx' s msg data n"
    "add_dispatch kx s msg data n = Some (rc, s') \<Longrightarrow> add_kept s s'"
  using assms
  by (auto simp: handled_msg_def add_dispatch_def dest!: add_disconnect_kept add_message_kept
      add_channel_request_kept add_channel_open_kept)

section \<open>The reader and the flags\<close>

definition step_kept :: "session \<Rightarrow> session step \<Rightarrow> bool" where
  "step_kept s r \<longleftrightarrow> (case r of Inl (rc, s') \<Rightarrow> kept s' = kept s | Inr s' \<Rightarrow> kept s' = kept s)"

lemma recv_kept: "libssh2_recv s n = (rc, d, s') \<Longrightarrow> kept s' = kept s"
  by (auto simp: libssh2_recv_def split: list.split_asm recv_result.split_asm)

lemma decrypt_kept: "decrypt s i n = Some (rc, s') \<Longrightarrow> kept s' = kept s"
  by (auto simp: decrypt_def Let_def split: asm_splits)

lemma read_fill_kept: "step_kept s (read_fill s bs)"
  by (auto simp: step_kept_def read_fill_def Let_def flag_simps dest!: recv_kept split: prod.splits)

lemma read_start_kept: "read_start s e bs = Some r \<Longrightarrow> step_kept s r"
  by (auto simp: step_kept_def read_start_def Let_def flag_simps elim!: bind_SomeE split: asm_splits
      dest!: decrypt_kept alloc_kept)

lemma read_body_kept: "read_body s e bs = Some r \<Longrightarrow> step_kept s r"
  by (auto simp: step_kept_def read_body_def take_bytes_def Let_def flag_simps elim!: bind_SomeE
      split: asm_splits dest!: decrypt_kept alloc_kept)

lemma read_round_kept:
  assumes "read_round s = Some r"
  shows "step_kept s r"
proof -
  obtain bs where r: "(case read_fill s bs of
         Inl ret \<Rightarrow> Some (Inl ret)
       | Inr s1 \<Rightarrow> Option.bind (if total_num (packet s1) = 0
             then read_start s1 (state_has s LIBSSH2_STATE_NEWKEYS) bs else Some (Inr s1))
           (\<lambda>r. case r of Inl ret \<Rightarrow> Some (Inl ret)
                 | Inr s2 \<Rightarrow> read_body s2 (state_has s LIBSSH2_STATE_NEWKEYS) bs)) = Some r"
    using assms unfolding read_round_def Let_def by (auto elim!: bind_SomeE split: if_split_asm)
  show ?thesis using r read_fill_kept [of s bs]
    by (cases "read_fill s bs") (auto simp: step_kept_def split: sum.split_asm if_split_asm elim!: bind_SomeE
        dest!: read_start_kept read_body_kept)
qed

lemma fullpacket_decode_kept: "fullpacket_decode s e = Some r \<Longrightarrow> step_kept s r"
  by (auto simp: step_kept_def fullpacket_decode_def fullpacket_decomp_def Let_def elim!: bind_SomeE
      split: asm_splits)

section \<open>Finding and changing channels\<close>

text \<open>What the handlers rely on when they look up a channel by its number and change it.\<close>

locale channel_table =
  fixes find_ch :: "'s \<Rightarrow> u32 \<Rightarrow> 'c option" and upd :: "'s \<Rightarrow> u32 \<Rightarrow> ('c \<Rightarrow> 'c) \<Rightarrow> 's option"
    and ident :: "'c \<Rightarrow> u32"
  assumes find_ident: "find_ch s i = Some ch \<Longrightarrow> ident ch = i"
    and upd_total: "find_ch s i \<noteq> None \<longleftrightarrow> upd s i f \<noteq> None"
    and find_upd_same: "find_ch s i = Some ch \<Longrightarrow> ident (f ch) = i \<Longrightarrow> upd s i f = Some s' \<Longrightarrow>
      find_ch s' i = Some (f ch)"
    and find_upd_other: "find_ch s i = Some ch \<Longrightarrow> ident (f ch) = i \<Longrightarrow> upd s i f = Some s' \<Longrightarrow> j \<noteq> i \<Longrightarrow>
      find_ch s' j = find_ch s j"
begin

lemma upd_obtains:
  assumes "find_ch s i = Some ch" "ident (f ch) = i"
  obtains s' where "upd s i f = Some s'" "find_ch s' i = Some (f ch)" "\<forall>j. j \<noteq> i \<longrightarrow> find_ch s' j = find_ch s j"
proof -
  obtain s' where u: "upd s i f = Some s'" using upd_total [of s i f] assms(1) by auto
  with find_upd_same [of s i ch f s'] find_upd_other [of s i ch f s'] assms show ?thesis
    by (intro that [of s']) auto
qed

lemma upd_twice:
  assumes "find_ch s i = Some ch" "ident (f ch) = i" "ident (g (f ch)) = i"
  obtains s1 s2 where "upd s i f = Some s1" "upd s1 i g = Some s2" "find_ch s2 i = Some (g (f ch))"
    "\<forall>j. j \<noteq> i \<longrightarrow> find_ch s2 j = find_ch s j"
proof -
  obtain s1 where 1: "upd s i f = Some s1" "find_ch s1 i = Some (f ch)" "\<forall>j. j \<noteq> i \<longrightarrow> find_ch s1 j = find_ch s j"
    by (rule upd_obtains [of s i ch f]) (use assms in auto)
  obtain s2 where 2: "upd s1 i g = Some s2" "find_ch s2 i = Some (g (f ch))" "\<forall>j. j \<noteq> i \<longrightarrow> find_ch s2 j = find_ch s1 j"
    by (rule upd_obtains [of s1 i "f ch" g]) (use assms 1 in auto)
  show ?thesis using 1 2 by (intro that [of s1 s2]) auto
qed

end

lemma update_first_None: "update_first P f xs = None \<longleftrightarrow> find P xs = None"
  by (induction xs) auto

lemma update_first_find:
  assumes "update_first P f xs = Some ys" "find P xs = Some x"
  shows "P (f x) \<Longrightarrow> find P ys = Some (f x)"
    "\<not> Q x \<Longrightarrow> \<not> Q (f x) \<Longrightarrow> find Q ys = find Q xs"
  using assms by (induction xs arbitrary: ys) (auto split: if_split_asm)

lemma update_first_append:
  "update_first P f (q @ r) = (case update_first P f q of Some q' \<Rightarrow> Some (q' @ r)
     | None \<Rightarrow> map_option ((@) q) (update_first P f r))"
  by (induction q; cases "update_first P f r") (auto split: option.splits)

lemma update_queues_concat:
  "map_option concat (update_queues P f qs) = update_first P f (concat qs)"
proof (induction qs)
  case (Cons q qs)
  then show ?case
    by (cases "update_queues P f qs"; cases "update_first P f (concat qs)")
      (auto simp: update_first_append split: option.splits)
qed simp

lemma update_queues_length: "update_queues P f qs = Some qs' \<Longrightarrow> length qs' = length qs"
  by (induction qs arbitrary: qs') (auto split: option.split_asm)

text \<open>All channels of a session, in the order of the search.\<close>

definition all_channels :: "session \<Rightarrow> channel list" where
  "all_channels s = channels s @ queued_channels s"

lemma map_ln_queue:
  "length qs = length ls \<Longrightarrow> map (ln_queue \<circ> (\<lambda>(l, q). l\<lparr>ln_queue := q\<rparr>)) (zip ls qs) = qs"
  by (induction qs ls rule: list_induct2) auto

lemma update_channel_all:
  "map_option all_channels (update_channel s cid f) = update_first (\<lambda>ch. local_id ch = cid) f (all_channels s)"
proof (cases "update_first (\<lambda>ch. local_id ch = cid) f (channels s)")
  case None
  have q: "map_option concat (update_queues (\<lambda>ch. local_id ch = cid) f (map ln_queue (listeners s)))
     = update_first (\<lambda>ch. local_id ch = cid) f (queued_channels s)"
    by (simp add: update_queues_concat queued_channels_def)
  show ?thesis
    using None q [symmetric] update_first_append [of "\<lambda>ch. local_id ch = cid" f "channels s" "queued_channels s"]
    by (cases "update_queues (\<lambda>ch. local_id ch = cid) f (map ln_queue (listeners s))")
      (auto simp: update_channel_def all_channels_def queued_channels_def map_ln_queue dest: update_queues_length)
next
  case (Some chs)
  then show ?thesis using update_first_append [of "\<lambda>ch. local_id ch = cid" f "channels s" "queued_channels s"]
    by (simp add: update_channel_def all_channels_def queued_channels_def)
qed

interpretation chans: channel_table libssh2_channel_locate update_channel local_id
proof
  fix s i ch f s' and j :: u32
  have loc: "libssh2_channel_locate s k = find (\<lambda>ch. local_id ch = k) (all_channels s)" for s k
    by (simp add: libssh2_channel_locate_def all_channels_def)
  show "libssh2_channel_locate s i = Some ch \<Longrightarrow> local_id ch = i" by (auto simp: loc find_Some_iff)
  show "(libssh2_channel_locate s i \<noteq> None) = (update_channel s i f \<noteq> None)"
    using update_channel_all [of s i f] update_first_None [of "\<lambda>ch. local_id ch = i" f "all_channels s"]
    by (auto simp: loc)
  assume a: "libssh2_channel_locate s i = Some ch" "local_id (f ch) = i" "update_channel s i f = Some s'"
  then have u: "update_first (\<lambda>ch. local_id ch = i) f (all_channels s) = Some (all_channels s')"
    using update_channel_all [of s i f] by simp
  show "libssh2_channel_locate s' i = Some (f ch)"
    using update_first_find(1) [OF u] a by (simp add: loc)
  assume "j \<noteq> i"
  moreover have "local_id ch = i" using a(1) by (auto simp: loc find_Some_iff)
  ultimately show "libssh2_channel_locate s' j = libssh2_channel_locate s j"
    using update_first_find(2) [OF u, of ch "\<lambda>ch. local_id ch = j"] a by (simp add: loc)
qed

lemma locate_cong: "channels s' = channels s \<Longrightarrow> listeners s' = listeners s \<Longrightarrow>
  libssh2_channel_locate s' = libssh2_channel_locate s"
  by (auto simp: libssh2_channel_locate_def queued_channels_def)

lemma update_channel_frame:
  assumes "update_channel s i f = Some s'"
  shows "packets s' = packets s" "env s' = env s" "packAdd_state s' = packAdd_state s" "sstate s' = sstate s"
  using assms by (auto simp: update_channel_def split: option.split_asm)


lemma transport_send_frame:
  assumes "libssh2_transport_send s a d d2 = Some (rc, s')"
  shows "channels s' = channels s" "listeners s' = listeners s" "packAdd_x11open_state s' = packAdd_x11open_state s"
    "packAdd_Qlstn_state s' = packAdd_Qlstn_state s" "packets s' = packets s" "has_x11_cb s' = has_x11_cb s"
    "libssh2_channel_locate s' = libssh2_channel_locate s" "packAdd_state s' = packAdd_state s"
proof -
  note v = arg_cong [OF transport_send_view [OF assms]]
  show "channels s' = channels s" "listeners s' = listeners s" "packAdd_x11open_state s' = packAdd_x11open_state s"
    "packAdd_Qlstn_state s' = packAdd_Qlstn_state s" "packets s' = packets s" "has_x11_cb s' = has_x11_cb s"
    "packAdd_state s' = packAdd_state s"
    using v [of channels] v [of listeners] v [of packAdd_x11open_state] v [of packAdd_Qlstn_state]
      v [of packets] v [of has_x11_cb] v [of packAdd_state] by (simp_all add: send_view_def)
  then show "libssh2_channel_locate s' = libssh2_channel_locate s" by (intro locate_cong)
qed

lemma locate_error [simp]: "libssh2_channel_locate (snd (libssh2_error s c m)) = libssh2_channel_locate s"
  by (rule locate_cong) (simp_all add: libssh2_error_def)


end
