(* ===== verification/Transport_Reader.thy ===== *)
theory Transport_Reader
  imports Transport
begin

text \<open>
  How the packet reader of \<^verbatim>\<open>transport.c\<close> assembles a packet from the bytes the socket delivers.

  \<^item> Block-wise encryption: \<open>crypt_blocks\<close> over a concatenation, and a receiving cipher that undoes
    the sending one block after block (\<open>ciphers_match\<close>).
  \<^item> The stream: \<open>input_stream\<close> is everything the reader has not consumed, in its buffer or still in
    the socket. A round of the loop (\<open>read_round\<close>) consumes a prefix of it; \<open>completes\<close> says what the
    payload area will be once the missing bytes have arrived, and every round keeps it.
  \<^item> \<open>rounds\<close> is the loop across calls that return \<^verbatim>\<open>LIBSSH2_ERROR_EAGAIN\<close>, \<open>polls\<close> the sequence of
    such calls. \<open>rounds_packet\<close>: a packet at the head of the stream (\<open>arriving\<close>) is collected, for
    every way of cutting it into pieces.
  \<^item> \<open>fullpacket_decode_data\<close>: what is made of a collected packet.
\<close>

section \<open>Block-wise encryption\<close>

text \<open>The cipher functions keep the length of a block.\<close>

definition block_preserving ::
  "(abstract_state \<Rightarrow> byte list \<Rightarrow> (abstract_state \<times> byte list) option) \<Rightarrow> bool" where
  "block_preserving f \<longleftrightarrow> (\<forall>ab d ab' b. f ab d = Some (ab', b) \<longrightarrow> length b = length d)"

lemma crypt_blocks_short: "length d < bs \<Longrightarrow> crypt_blocks f bs ab d = (True, ab, d)"
  by (simp add: crypt_blocks.simps)

lemma crypt_blocks_Nil [simp]: "crypt_blocks f bs ab [] = (True, ab, [])"
  by (cases "bs = 0") (simp_all add: crypt_blocks.simps)

lemma length_crypt_blocks:
  "block_preserving f \<Longrightarrow> crypt_blocks f bs ab d = (ok, ab', y) \<Longrightarrow> length y = length d"
proof (induction f bs ab d arbitrary: ok ab' y rule: crypt_blocks.induct)
  case (1 f bs ab d)
  show ?case
  proof (cases "bs = 0 \<or> length d < bs \<or> f ab (take bs d) = None")
    case True
    with 1(3) show ?thesis by (auto simp: crypt_blocks.simps [of f bs ab d] split: if_splits)
  next
    case False
    then obtain ab1 b where step: "f ab (take bs d) = Some (ab1, b)" by auto
    obtain ok2 ab2 y2 where rest: "crypt_blocks f bs ab1 (drop bs d) = (ok2, ab2, y2)"
      by (metis prod_cases3)
    have "length y2 = length (drop bs d)"
      using 1(1)[OF _ step refl 1(2) rest] False by simp
    moreover have "length b = bs" using 1(2) step False by (auto simp: block_preserving_def)
    ultimately show ?thesis using 1(3) False step rest
      by (auto simp: crypt_blocks.simps [of f bs ab d])
  qed
qed

lemma crypt_blocks_append:
  assumes "length d1 mod bs = 0" "0 < bs"
  shows "crypt_blocks f bs ab (d1 @ d2) =
     (case crypt_blocks f bs ab d1 of
        (True, ab1, y1) \<Rightarrow> (case crypt_blocks f bs ab1 d2 of (ok, ab2, y2) \<Rightarrow> (ok, ab2, y1 @ y2))
      | (False, ab1, y1) \<Rightarrow> (False, ab1, y1 @ d2))"
  using assms
proof (induction f bs ab d1 rule: crypt_blocks.induct)
  case (1 f bs ab d1)
  show ?case
  proof (cases "d1 = []")
    case True
    then show ?thesis by (auto split: prod.splits bool.splits)
  next
    case False
    with 1(2,3) have long: "bs \<le> length d1"
      by (metis length_0_conv mod_less not_le_imp_less)
    show ?thesis
    proof (cases "f ab (take bs d1)")
      case None
      then show ?thesis using long 1(3)
        by (simp add: crypt_blocks.simps [of f bs ab])
    next
      case (Some r)
      obtain ab1 b where r: "r = (ab1, b)" by force
      have m: "length (drop bs d1) mod bs = 0"
        using 1(2) long by (simp add: le_mod_geq)
      note IH = 1(1)[OF _ Some r [symmetric] m 1(3)]
      show ?thesis using long 1(3) Some r IH
        by (simp add: crypt_blocks.simps [of f bs ab] split: prod.splits bool.splits)
    qed
  qed
qed

lemma crypt_blocks_split:
  assumes "length d1 mod bs = 0" "0 < bs" "crypt_blocks f bs ab (d1 @ d2) = (True, ab', y)"
  obtains ab1 y1 y2 where "crypt_blocks f bs ab d1 = (True, ab1, y1)"
    "crypt_blocks f bs ab1 d2 = (True, ab', y2)" "y = y1 @ y2"
  using assms(3) by (auto simp: crypt_blocks_append [OF assms(1,2)] split: prod.splits bool.splits)

text \<open>A receiver's cipher undoes the sender's, and keeps step with it.\<close>

definition ciphers_match ::
  "(abstract_state \<Rightarrow> abstract_state \<Rightarrow> bool) \<Rightarrow> nat \<Rightarrow>
   (abstract_state \<Rightarrow> byte list \<Rightarrow> (abstract_state \<times> byte list) option) \<Rightarrow>
   (abstract_state \<Rightarrow> byte list \<Rightarrow> (abstract_state \<times> byte list) option) \<Rightarrow> bool" where
  "ciphers_match R bs enc dec \<longleftrightarrow>
     (\<forall>a b d. R a b \<and> length d = bs \<longrightarrow>
        (\<exists>a' b' c. enc a d = Some (a', c) \<and> length c = bs \<and> dec b c = Some (b', d) \<and> R a' b'))"

lemma ciphers_match_blocks:
  assumes "ciphers_match R bs enc dec" "0 < bs" "R a b" "length d mod bs = 0"
  shows "\<exists>a' b' c. crypt_blocks enc bs a d = (True, a', c) \<and> length c = length d \<and>
     crypt_blocks dec bs b c = (True, b', d) \<and> R a' b'"
  using assms
proof (induction d arbitrary: a b rule: length_induct)
  case (1 d)
  show ?case
  proof (cases "d = []")
    case True
    with 1(4) show ?thesis by auto
  next
    case False
    with 1(3,5) have long: "bs \<le> length d"
      by (metis length_0_conv mod_less not_le_imp_less)
    obtain a1 b1 c1 where h: "enc a (take bs d) = Some (a1, c1)" "length c1 = bs"
      "dec b c1 = Some (b1, take bs d)" "R a1 b1"
      using 1(2,4) long unfolding ciphers_match_def by (metis length_take min.absorb2)
    have "length (drop bs d) < length d" "length (drop bs d) mod bs = 0"
      using long 1(3,5) by (simp_all add: le_mod_geq)
    from 1(1)[rule_format, OF this(1) 1(2,3) h(4) this(2)] obtain a2 b2 c2 where t: "crypt_blocks enc bs a1 (drop bs d) = (True, a2, c2)"
      "length c2 = length (drop bs d)" "crypt_blocks dec bs b1 c2 = (True, b2, drop bs d)" "R a2 b2"
      by blast
    have "crypt_blocks enc bs a d = (True, a2, c1 @ c2)"
      using long 1(3) h(1) t(1) by (simp add: crypt_blocks.simps [of enc bs a])
    moreover have "crypt_blocks dec bs b (c1 @ c2) = (True, b2, d)"
      using 1(3) h(2,3) t(3) by (simp add: crypt_blocks.simps [of dec bs b])
    moreover have "length (c1 @ c2) = length d" using h(2) t(2) long by simp
    ultimately show ?thesis using t(4) by blast
  qed
qed

section \<open>Collecting a packet from the stream\<close>

text \<open>The bytes received and not yet consumed, and everything the peer has sent that the reader
  has not consumed.\<close>

definition unread :: "session \<Rightarrow> byte list" where
  "unread s = drop (readidx (packet s)) (buf (packet s))"

primrec recv_bytes :: "recv_result \<Rightarrow> byte list" where
  "recv_bytes (Received bs) = bs"
| "recv_bytes (RecvError e) = []"

definition input_stream :: "session \<Rightarrow> byte list" where
  "input_stream s = unread s @ concat (map recv_bytes (recvs (env s)))"

text \<open>A connection that only delivers data or would block.\<close>

primrec recv_alive :: "recv_result \<Rightarrow> bool" where
  "recv_alive (Received bs) = (bs \<noteq> [])"
| "recv_alive (RecvError e) = (e = 11 \<or> e = ENOENT)"

definition encrypted :: "session \<Rightarrow> bool" where
  "encrypted s = state_has s LIBSSH2_STATE_NEWKEYS"

text \<open>What the reader needs of the session: the connection is alive and, once keys are in use, a
  cipher with a sensible block and a MAC that is not empty.\<close>

definition reader_ok :: "session \<Rightarrow> bool" where
  "reader_ok s \<longleftrightarrow>
     socket_state s \<noteq> LIBSSH2_SOCKET_DISCONNECTED \<and> (\<forall>r\<in>set (recvs (env s)). recv_alive r) \<and>
     readidx (packet s) \<le> length (buf (packet s)) \<and>
     (encrypted s \<longrightarrow>
       (\<exists>cm mm. crypt (remote_ep s) = Some cm \<and> mac (remote_ep s) = Some mm \<and>
          5 \<le> blocksize cm \<and> blocksize cm \<le> MAX_BLOCKSIZE \<and> block_preserving (cm_crypt cm) \<and>
          0 < mac_len mm \<and> mac_len mm \<le> 64))"

definition rd_bs :: "session \<Rightarrow> nat" where
  "rd_bs s = (if encrypted s then blocksize (the (crypt (remote_ep s))) else 5)"

definition rd_mac :: "session \<Rightarrow> nat" where
  "rd_mac s = (if encrypted s then mac_len (the (mac (remote_ep s))) else 0)"

text \<open>How many payload bytes pass through the cipher; none on a plain connection.\<close>

definition rd_limit :: "session \<Rightarrow> nat" where
  "rd_limit s = (if encrypted s then total_num (packet s) - rd_mac s else 0)"

definition missing :: "session \<Rightarrow> nat" where
  "missing s = total_num (packet s) - length (payload (packet s))"

text \<open>The payload area once the missing bytes have arrived: the part before the MAC decrypted, the
  MAC as it came. The second result is the cipher state then.\<close>

definition completes :: "session \<Rightarrow> byte list \<Rightarrow> abstract_state \<Rightarrow> bool" where
  "completes s fin ab \<longleftrightarrow>
     (let x = take (missing s) (input_stream s); k = rd_limit s - length (payload (packet s)) in
      length x = missing s \<and>
      (\<exists>y. crypt_blocks (cm_crypt (the (crypt (remote_ep s)))) (rd_bs s)
             (crypt_abstract (remote_ep s)) (take k x) = (True, ab, y) \<and>
         fin = payload (packet s) @ y @ drop k x))"

definition mid_packet :: "session \<Rightarrow> bool" where
  "mid_packet s \<longleftrightarrow>
     reader_ok s \<and> 0 < total_num (packet s) \<and> total_num (packet s) < 2 ^ 32 \<and>
     length (payload (packet s)) \<le> total_num (packet s) \<and> rd_mac s \<le> total_num (packet s) \<and>
     (rd_limit s - length (payload (packet s))) mod rd_bs s = 0"

text \<open>Everything but the receive buffer, the payload area, the socket and the cipher state.\<close>

definition reader_view :: "session \<Rightarrow> session" where
  "reader_view s =
     s\<lparr>packet := (packet s)\<lparr>buf := [], readidx := 0, payload := []\<rparr>,
       remote_ep := (remote_ep s)\<lparr>crypt_abstract := []\<rparr>, env := (env s)\<lparr>recvs := []\<rparr>,
       socket_block_directions := 0\<rparr>"

lemma reader_view_simps:
  assumes "reader_view s' = reader_view s"
  shows "encrypted s' = encrypted s" "rd_bs s' = rd_bs s" "rd_mac s' = rd_mac s"
    "total_num (packet s') = total_num (packet s)" "rd_limit s' = rd_limit s"
    "crypt (remote_ep s') = crypt (remote_ep s)" "mac (remote_ep s') = mac (remote_ep s)"
    "socket_state s' = socket_state s" "state_has s' f = state_has s f"
    "readPack_state s' = readPack_state s"
proof -
  have "sstate (reader_view s') = sstate (reader_view s)"
    "total_num (packet (reader_view s')) = total_num (packet (reader_view s))"
    "crypt (remote_ep (reader_view s')) = crypt (remote_ep (reader_view s))"
    "mac (remote_ep (reader_view s')) = mac (remote_ep (reader_view s))"
    "socket_state (reader_view s') = socket_state (reader_view s)"
    "readPack_state (reader_view s') = readPack_state (reader_view s)"
    by (simp_all add: assms)
  then have "sstate s' = sstate s" "total_num (packet s') = total_num (packet s)"
    "crypt (remote_ep s') = crypt (remote_ep s)" "mac (remote_ep s') = mac (remote_ep s)"
    "socket_state s' = socket_state s" "readPack_state s' = readPack_state s"
    by (simp_all add: reader_view_def)
  then show "encrypted s' = encrypted s" "rd_bs s' = rd_bs s" "rd_mac s' = rd_mac s"
    "total_num (packet s') = total_num (packet s)" "rd_limit s' = rd_limit s"
    "crypt (remote_ep s') = crypt (remote_ep s)" "mac (remote_ep s') = mac (remote_ep s)"
    "socket_state s' = socket_state s" "state_has s' f = state_has s f"
    "readPack_state s' = readPack_state s"
    by (simp_all add: encrypted_def state_has_def rd_bs_def rd_mac_def rd_limit_def)
qed

lemma length_unread: "length (unread s) = length (buf (packet s)) - readidx (packet s)"
  by (simp add: unread_def)

text \<open>Consuming bytes from the buffer, plain and through the cipher.\<close>

lemma take_bytes_facts:
  assumes "n \<le> length (unread s)" "readidx (packet s) \<le> length (buf (packet s))"
  shows "unread (take_bytes s n) = drop n (unread s)"
    "payload (packet (take_bytes s n)) = payload (packet s) @ take n (unread s)"
    "crypt_abstract (remote_ep (take_bytes s n)) = crypt_abstract (remote_ep s)"
    "readidx (packet (take_bytes s n)) \<le> length (buf (packet (take_bytes s n)))"
    "recvs (env (take_bytes s n)) = recvs (env s)"
    "reader_view (take_bytes s n) = reader_view s"
  using assms by (simp_all add: take_bytes_def unread_def Let_def reader_view_def add.commute)

lemma decrypt_facts:
  assumes "crypt (remote_ep s) = Some cm" "0 < blocksize cm" "n mod blocksize cm = 0"
    "n \<le> length (unread s)" "readidx (packet s) \<le> length (buf (packet s))"
    "block_preserving (cm_crypt cm)"
    "crypt_blocks (cm_crypt cm) (blocksize cm) (crypt_abstract (remote_ep s)) (take n (unread s))
       = (True, ab, y)"
  obtains s' where "decrypt s (readidx (packet s)) n = Some (LIBSSH2_ERROR_NONE, s')"
    "unread s' = y @ drop n (unread s)" "length y = n"
    "payload (packet s') = payload (packet s)" "crypt_abstract (remote_ep s') = ab"
    "readidx (packet s') \<le> length (buf (packet s'))" "recvs (env s') = recvs (env s)"
    "reader_view s' = reader_view s"
proof -
  let ?p = "packet s"
  have ly: "length y = n" using length_crypt_blocks [OF assms(6,7)] assms(4) by simp
  show ?thesis
    by (rule that [of "s\<lparr>remote_ep := (remote_ep s)\<lparr>crypt_abstract := ab\<rparr>,
        packet := ?p\<lparr>buf := take (readidx ?p) (buf ?p) @ y @ drop (readidx ?p + n) (buf ?p)\<rparr>\<rparr>"])
      (use assms ly in \<open>auto simp: decrypt_def Let_def unread_def reader_view_def add.commute\<close>)
qed

lemma reader_ok_cong:
  assumes "reader_ok s" "reader_view s' = reader_view s" "set (recvs (env s')) \<subseteq> set (recvs (env s))"
    "readidx (packet s') \<le> length (buf (packet s'))"
  shows "reader_ok s'"
  using assms(1,3,4) reader_view_simps [OF assms(2)] unfolding reader_ok_def by auto

lemma reader_ok_cipher:
  assumes "reader_ok s" "encrypted s"
  obtains cm mm where "crypt (remote_ep s) = Some cm" "mac (remote_ep s) = Some mm"
    "rd_bs s = blocksize cm" "rd_mac s = mac_len mm" "5 \<le> blocksize cm" "blocksize cm \<le> MAX_BLOCKSIZE"
    "block_preserving (cm_crypt cm)" "0 < mac_len mm" "mac_len mm \<le> 64"
  using assms by (auto simp: reader_ok_def rd_bs_def rd_mac_def)

lemma rd_bs_ge: "reader_ok s \<Longrightarrow> 5 \<le> rd_bs s"
  by (auto simp: reader_ok_def rd_bs_def)

text \<open>A round of the loop body consumes \<open>n\<close> bytes through the cipher and \<open>m\<close> bytes as they are.\<close>

lemma read_body_consumes:
  assumes ok: "reader_ok s" and e: "0 < n \<Longrightarrow> encrypted s"
    and am: "read_amounts s (encrypted s) (rd_bs s) = Some (nd, nb)"
    and n: "n = nat nd" and m: "m = nat (if nd > 0 then nb - nd else nb)"
    and bs: "n mod rd_bs s = 0" and le: "n + m \<le> length (unread s)"
    and cr: "crypt_blocks (cm_crypt (the (crypt (remote_ep s)))) (rd_bs s)
               (crypt_abstract (remote_ep s)) (take n (unread s)) = (True, ab, y)"
  obtains s' where "read_body s (encrypted s) (rd_bs s) = Some (Inr s')"
    "unread s' = drop (n + m) (unread s)" "reader_view s' = reader_view s"
    "payload (packet s') = payload (packet s) @ y @ take m (drop n (unread s))" "length y = n"
    "crypt_abstract (remote_ep s') = ab" "recvs (env s') = recvs (env s)" "reader_ok s'"
proof -
  obtain s1 where s1: "(if nd > 0 then decrypt s (readidx (packet s)) (nat nd)
        else Some (LIBSSH2_ERROR_NONE, s)) = Some (LIBSSH2_ERROR_NONE, s1)"
    "unread s1 = y @ drop n (unread s)" "length y = n" "payload (packet s1) = payload (packet s)"
    "crypt_abstract (remote_ep s1) = ab" "readidx (packet s1) \<le> length (buf (packet s1))"
    "recvs (env s1) = recvs (env s)" "reader_view s1 = reader_view s"
  proof (cases "nd > 0")
    case True
    with e n have enc: "encrypted s" by simp
    from ok enc obtain cm where c: "crypt (remote_ep s) = Some cm" "rd_bs s = blocksize cm"
      "5 \<le> blocksize cm" "block_preserving (cm_crypt cm)" by (rule reader_ok_cipher)
    have r: "readidx (packet s) \<le> length (buf (packet s))" using ok by (simp add: reader_ok_def)
    have b: "0 < blocksize cm" "n mod blocksize cm = 0" "n \<le> length (unread s)"
      "crypt_blocks (cm_crypt cm) (blocksize cm) (crypt_abstract (remote_ep s))
         (take n (unread s)) = (True, ab, y)" using c bs le cr by simp_all
    obtain s' where "decrypt s (readidx (packet s)) n = Some (LIBSSH2_ERROR_NONE, s')"
      "unread s' = y @ drop n (unread s)" "length y = n" "payload (packet s') = payload (packet s)"
      "crypt_abstract (remote_ep s') = ab" "readidx (packet s') \<le> length (buf (packet s'))"
      "recvs (env s') = recvs (env s)" "reader_view s' = reader_view s"
      by (rule decrypt_facts [OF c(1) b(1-3) r c(4) b(4)])
    then show ?thesis using True n by (intro that [of s']) simp_all
  next
    case False
    then show ?thesis using that [of s] n cr ok by (auto simp: reader_ok_def)
  qed
  define s2 where "s2 = (if nd > 0 then take_bytes s1 (nat nd) else s1)"
  have s2: "unread s2 = drop n (unread s)" "payload (packet s2) = payload (packet s) @ y"
    "crypt_abstract (remote_ep s2) = ab" "readidx (packet s2) \<le> length (buf (packet s2))"
    "recvs (env s2) = recvs (env s)" "reader_view s2 = reader_view s"
    using take_bytes_facts [of "nat nd" s1] s1 n by (auto simp: s2_def)
  define s3 where "s3 = (if (if nd > 0 then nb - nd else nb) > 0 then take_bytes s2 m else s2)"
  have lem: "m \<le> length (unread s2)" using s2(1) le by simp
  have s3: "unread s3 = drop (n + m) (unread s)"
    "payload (packet s3) = payload (packet s) @ y @ take m (drop n (unread s))"
    "crypt_abstract (remote_ep s3) = ab" "readidx (packet s3) \<le> length (buf (packet s3))"
    "recvs (env s3) = recvs (env s)" "reader_view s3 = reader_view s"
    using take_bytes_facts [OF lem s2(4)] s2 m by (auto simp: s3_def add.commute)
  have "read_body s (encrypted s) (rd_bs s) = Some (Inr s3)"
    unfolding read_body_def am using s1(1) m by (simp add: s2_def s3_def Let_def)
  moreover have "reader_ok s3" using reader_ok_cong [OF ok s3(6)] s3(4,5) by simp
  ultimately show ?thesis using that s3 s1(3) by blast
qed

text \<open>The amounts: up to the MAC everything at hand in whole blocks, across it everything.\<close>

lemma read_amounts_plain:
  "\<not> encrypted s \<Longrightarrow> read_amounts s (encrypted s) bs =
     Some (0, min (int (length (buf (packet s))) - int (readidx (packet s)))
                 (int (total_num (packet s)) - int (length (payload (packet s)))))"
  by (simp add: read_amounts_def Let_def)

lemma read_amounts_cipher:
  assumes "mid_packet s" "encrypted s"
  shows "read_amounts s (encrypted s) (rd_bs s) =
     (let dn = int (length (payload (packet s))); nb = int (min (length (unread s)) (missing s));
          lim = int (rd_limit s)
      in if dn + nb > lim then Some (lim - dn, nb)
         else if nb mod int (rd_bs s) \<noteq> 0 then Some (nb - nb mod int (rd_bs s), 0) else Some (nb, nb))"
proof -
  obtain cm mm where c: "mac (remote_ep s) = Some mm" "rd_mac s = mac_len mm"
    using assms reader_ok_cipher unfolding mid_packet_def by metis
  have "size_sub (total_num (packet s)) (mac_len mm) = rd_limit s"
    using assms c by (simp add: mid_packet_def size_sub_exact rd_limit_def)
  moreover have "min (int (length (buf (packet s))) - int (readidx (packet s)))
      (int (total_num (packet s)) - int (length (payload (packet s))))
      = int (min (length (unread s)) (missing s))"
  proof -
    have "readidx (packet s) \<le> length (buf (packet s))"
      "length (payload (packet s)) \<le> total_num (packet s)"
      using assms by (simp_all add: mid_packet_def reader_ok_def)
    then show ?thesis by (simp add: length_unread missing_def of_nat_diff)
  qed
  ultimately show ?thesis using assms(2) c by (simp add: read_amounts_def Let_def)
qed

lemma input_stream_split:
  "reader_view s' = reader_view s \<Longrightarrow> recvs (env s') = recvs (env s) \<Longrightarrow>
   unread s' = drop n (unread s) \<Longrightarrow> n \<le> length (unread s) \<Longrightarrow>
   input_stream s' = drop n (input_stream s)"
  by (simp add: input_stream_def)

lemma completesI:
  assumes "length (take (missing s) (input_stream s)) = missing s"
    "crypt_blocks (cm_crypt (the (crypt (remote_ep s)))) (rd_bs s) (crypt_abstract (remote_ep s))
       (take (rd_limit s - length (payload (packet s))) (take (missing s) (input_stream s)))
       = (True, ab, y)"
    "fin = payload (packet s) @ y @
       drop (rd_limit s - length (payload (packet s))) (take (missing s) (input_stream s))"
  shows "completes s fin ab"
  using assms by (auto simp: completes_def Let_def)

lemma completesE:
  assumes "completes s fin ab"
  obtains y where "missing s \<le> length (input_stream s)"
    "crypt_blocks (cm_crypt (the (crypt (remote_ep s)))) (rd_bs s) (crypt_abstract (remote_ep s))
       (take (rd_limit s - length (payload (packet s))) (take (missing s) (input_stream s)))
       = (True, ab, y)"
    "fin = payload (packet s) @ y @
       drop (rd_limit s - length (payload (packet s))) (take (missing s) (input_stream s))"
  using assms by (auto simp: completes_def Let_def min_def split: if_splits)

text \<open>What a round leaves behind: the finished packet, or a packet that still completes to the
  same payload, with less than a block and less than what is missing in the buffer.\<close>

definition round_result :: "session \<Rightarrow> byte list \<Rightarrow> abstract_state \<Rightarrow> session \<Rightarrow> bool" where
  "round_result s fin ab s' \<longleftrightarrow>
     reader_view s' = reader_view s \<and> recvs (env s') = recvs (env s) \<and> reader_ok s' \<and>
     (if missing s \<le> length (unread s)
      then payload (packet s') = fin \<and> crypt_abstract (remote_ep s') = ab \<and>
           length fin = total_num (packet s) \<and> input_stream s' = drop (missing s) (input_stream s)
      else mid_packet s' \<and> completes s' fin ab \<and> length (payload (packet s')) < total_num (packet s') \<and>
           length (unread s') < rd_bs s \<and> length (unread s') < missing s' \<and>
           drop (missing s') (input_stream s') = drop (missing s) (input_stream s))"

text \<open>Across the MAC, and on a plain connection: all bytes at hand are consumed.\<close>

lemma read_body_across:
  assumes mid: "mid_packet s" and comp: "completes s fin ab"
    and cross: "encrypted s \<Longrightarrow>
      rd_limit s < length (payload (packet s)) + min (length (unread s)) (missing s)"
  obtains s' where "read_body s (encrypted s) (rd_bs s) = Some (Inr s')" "round_result s fin ab s'"
proof -
  let ?P = "payload (packet s)" and ?U = "unread s"
  define k where "k = rd_limit s - length ?P"
  define nb where "nb = min (length ?U) (missing s)"
  have ok: "reader_ok s" and lp: "length ?P \<le> total_num (packet s)" and km: "k mod rd_bs s = 0"
    and rl: "readidx (packet s) \<le> length (buf (packet s))"
    using mid by (auto simp: mid_packet_def reader_ok_def k_def)
  have k0: "\<not> encrypted s \<Longrightarrow> k = 0" by (simp add: k_def rd_limit_def)
  have kn: "k \<le> nb" using cross k0 by (cases "encrypted s") (auto simp: k_def nb_def)
  obtain y where y: "missing s \<le> length (input_stream s)"
    "crypt_blocks (cm_crypt (the (crypt (remote_ep s)))) (rd_bs s) (crypt_abstract (remote_ep s))
       (take k (take (missing s) (input_stream s))) = (True, ab, y)"
    "fin = ?P @ y @ drop k (take (missing s) (input_stream s))"
    using comp unfolding k_def by (rule completesE)
  have pre: "take k (take (missing s) (input_stream s)) = take k ?U"
    using kn by (simp add: input_stream_def nb_def min_def split: if_splits)
  obtain nd nbi where am: "read_amounts s (encrypted s) (rd_bs s) = Some (nd, nbi)"
    and n: "k = nat nd" and m: "nb - k = nat (if nd > 0 then nbi - nd else nbi)"
  proof (cases "encrypted s")
    case True
    then have "read_amounts s (encrypted s) (rd_bs s) =
        Some (int (rd_limit s) - int (length ?P), int nb)"
      using read_amounts_cipher [OF mid True] cross by (simp add: nb_def Let_def)
    then show ?thesis by (rule that) (use kn k_def in auto)
  next
    case False
    have "int nb = min (int (length (buf (packet s))) - int (readidx (packet s)))
        (int (total_num (packet s)) - int (length ?P))"
      using lp rl by (simp add: nb_def length_unread missing_def of_nat_diff)
    then show ?thesis using read_amounts_plain [OF False, of "rd_bs s"] k0 [OF False]
      by (intro that [of 0 "int nb"]) simp_all
  qed
  have e: "0 < k \<Longrightarrow> encrypted s" using k0 by auto
  have le: "k + (nb - k) \<le> length ?U" using kn by (simp add: nb_def)
  obtain s' where s': "read_body s (encrypted s) (rd_bs s) = Some (Inr s')"
    "unread s' = drop (k + (nb - k)) ?U" "reader_view s' = reader_view s"
    "payload (packet s') = ?P @ y @ take (nb - k) (drop k ?U)" "length y = k"
    "crypt_abstract (remote_ep s') = ab" "recvs (env s') = recvs (env s)" "reader_ok s'"
    by (rule read_body_consumes [OF ok e am n m km le]) (use y(2) pre in \<open>simp_all\<close>)
  note v = reader_view_simps [OF s'(3)]
  have u': "unread s' = drop nb ?U" using s'(2) kn by simp
  have inp: "input_stream s' = drop nb (input_stream s)"
    by (rule input_stream_split [OF s'(3,7) u']) (simp add: nb_def)
  have lp': "length (payload (packet s')) = length ?P + nb"
    using s'(4,5) kn le by (simp add: nb_def)
  have "round_result s fin ab s'"
  proof (cases "missing s \<le> length ?U")
    case True
    then have nb: "nb = missing s" by (simp add: nb_def)
    have "drop k (take (missing s) (input_stream s)) = take (nb - k) (drop k ?U)"
      using True by (simp add: input_stream_def nb drop_take)
    then have fin: "payload (packet s') = fin" using s'(4) y(3) by simp
    moreover have "length fin = total_num (packet s)"
      using lp' lp nb unfolding fin [symmetric] by (simp add: missing_def)
    ultimately show ?thesis unfolding round_result_def using True s' inp nb by simp
  next
    case False
    then have nb: "nb = length ?U" and lt: "length ?U < missing s" by (simp_all add: nb_def)
    have mis: "missing s' = missing s - length ?U" using v(4) lp' nb by (simp add: missing_def)
    have k': "rd_limit s' - length (payload (packet s')) = 0"
      using v(5) lp' nb kn unfolding k_def by simp
    have mid': "mid_packet s'"
      using mid s'(8) v lp' nb lt k' unfolding mid_packet_def missing_def by simp
    have X: "take (missing s) (input_stream s) = ?U @ take (missing s') (input_stream s')"
      using lt by (simp add: inp nb mis) (simp add: input_stream_def)
    have "completes s' fin ab"
    proof (rule completesI [where y = "[]"])
      show "length (take (missing s') (input_stream s')) = missing s'"
        using y(1) by (simp add: inp nb mis)
      show "fin = payload (packet s') @ [] @ drop (rd_limit s' - length (payload (packet s')))
          (take (missing s') (input_stream s'))"
        using y(3) s'(4) kn nb unfolding k' X by simp
    qed (simp add: k' s'(6))
    moreover have "drop (missing s') (input_stream s') = drop (missing s) (input_stream s)"
      using lt by (simp add: inp nb mis)
    ultimately show ?thesis unfolding round_result_def
      using False s' mid' lt mis u' nb lp' rd_bs_ge [OF ok] v(4)
      by (simp add: missing_def)
  qed
  with s'(1) show ?thesis by (rule that)
qed

text \<open>Before the MAC: whole blocks are consumed, a fraction stays in the buffer.\<close>

lemma read_body_blocks:
  assumes mid: "mid_packet s" and comp: "completes s fin ab" and enc: "encrypted s"
    and below: "length (payload (packet s)) + min (length (unread s)) (missing s) \<le> rd_limit s"
  obtains s' where "read_body s (encrypted s) (rd_bs s) = Some (Inr s')" "round_result s fin ab s'"
proof -
  let ?P = "payload (packet s)" and ?U = "unread s"
  have ok: "reader_ok s" and lp: "length ?P \<le> total_num (packet s)" and mt: "rd_mac s \<le> total_num (packet s)"
    and km: "(rd_limit s - length ?P) mod rd_bs s = 0"
    using mid by (auto simp: mid_packet_def)
  have m0: "0 < rd_mac s" using ok enc by (auto simp: reader_ok_def rd_mac_def)
  have lt: "length ?U < missing s"
    using below m0 mt lp enc by (simp add: missing_def rd_limit_def min_def split: if_splits)
  define n where "n = length ?U - length ?U mod rd_bs s"
  have nU: "n \<le> length ?U" and nm: "n mod rd_bs s = 0"
    by (simp_all add: n_def minus_mod_eq_mult_div)
  define k where "k = rd_limit s - length ?P"
  have nk: "n \<le> k" using below lt nU by (simp add: k_def)
  obtain y where y: "missing s \<le> length (input_stream s)"
    "crypt_blocks (cm_crypt (the (crypt (remote_ep s)))) (rd_bs s) (crypt_abstract (remote_ep s))
       (take k (take (missing s) (input_stream s))) = (True, ab, y)"
    "fin = ?P @ y @ drop k (take (missing s) (input_stream s))"
    using comp unfolding k_def by (rule completesE)
  have X: "take k (take (missing s) (input_stream s)) =
      take n ?U @ take (k - n) (take (missing s - n) (drop n (input_stream s)))"
    using nk nU lt by (simp add: input_stream_def take_drop min_def)
      (metis (no_types, lifting) append_take_drop_id drop_append drop_take le_add_diff_inverse
        less_or_eq_imp_le take_add take_append)
  have ln: "length (take n ?U) mod rd_bs s = 0" using nU nm by simp
  have bs: "0 < rd_bs s" using rd_bs_ge [OF ok] by simp
  obtain ab1 y1 y2 where c: "crypt_blocks (cm_crypt (the (crypt (remote_ep s)))) (rd_bs s)
      (crypt_abstract (remote_ep s)) (take n ?U) = (True, ab1, y1)"
    "crypt_blocks (cm_crypt (the (crypt (remote_ep s)))) (rd_bs s) ab1
       (take (k - n) (take (missing s - n) (drop n (input_stream s)))) = (True, ab, y2)" "y = y1 @ y2"
    by (rule crypt_blocks_split [OF ln bs y(2) [unfolded X]])
  obtain nd nbi where am: "read_amounts s (encrypted s) (rd_bs s) = Some (nd, nbi)"
    and nd: "n = nat nd" and m: "0 = nat (if nd > 0 then nbi - nd else nbi)"
  proof -
    have eq: "int (length ?U) - int (length ?U) mod int (rd_bs s) = int n"
      by (simp add: n_def of_nat_diff flip: zmod_int)
    have am: "read_amounts s (encrypted s) (rd_bs s) =
        (if length ?U mod rd_bs s \<noteq> 0 then Some (int n, 0) else Some (int (length ?U), int (length ?U)))"
      using read_amounts_cipher [OF mid enc] below lt eq by (simp add: Let_def flip: zmod_int)
    show ?thesis
    proof (cases "length ?U mod rd_bs s = 0")
      case True
      then show ?thesis using am by (intro that) (auto simp: n_def)
    next
      case False
      then show ?thesis using am by (intro that) auto
    qed
  qed
  obtain s' where s': "read_body s (encrypted s) (rd_bs s) = Some (Inr s')"
    "unread s' = drop (n + 0) ?U" "reader_view s' = reader_view s"
    "payload (packet s') = ?P @ y1 @ take 0 (drop n ?U)" "length y1 = n"
    "crypt_abstract (remote_ep s') = ab1" "recvs (env s') = recvs (env s)" "reader_ok s'"
    by (rule read_body_consumes [OF ok enc am nd m nm]) (use nU c in simp_all)
  note v = reader_view_simps [OF s'(3)]
  have inp: "input_stream s' = drop n (input_stream s)"
    using input_stream_split [OF s'(3,7) _ nU] s'(2) by simp
  have mis: "missing s' = missing s - n" using v(4) s'(4,5) by (simp add: missing_def)
  have k': "rd_limit s' - length (payload (packet s')) = k - n"
    using v(5) s'(4,5) by (simp add: k_def)
  have "(k - n) mod rd_bs s = 0" 
    using km nm unfolding k_def [symmetric] by (simp flip: dvd_eq_mod_eq_0)
  then have mid': "mid_packet s'"
    using mid s'(4,5,8) v k' lt nU unfolding mid_packet_def missing_def by simp
  have "completes s' fin ab"
    by (rule completesI [where y = y2])
      (use y(1,3) c s'(4-6) v mis k' nk nU lt in \<open>simp_all add: inp drop_take\<close>)
  moreover have "length (unread s') = length ?U mod rd_bs s" using s'(2) by (simp add: n_def)
  ultimately have "round_result s fin ab s'"
    unfolding round_result_def using lt s' mid' mis nU v(4) mod_less_divisor [OF bs, of "length ?U"]
    by (simp add: inp) (simp add: missing_def, intro conjI; linarith)
  with s'(1) show ?thesis by (rule that)
qed

lemma read_body_step:
  assumes "mid_packet s" "completes s fin ab"
  obtains s' where "read_body s (encrypted s) (rd_bs s) = Some (Inr s')" "round_result s fin ab s'"
proof (cases "encrypted s \<and> length (payload (packet s)) + min (length (unread s)) (missing s) \<le> rd_limit s")
  case True
  then show ?thesis using read_body_blocks [OF assms] that by blast
next
  case False
  then show ?thesis using read_body_across [OF assms] that by (metis not_le_imp_less)
qed

section \<open>Rounds and calls\<close>

text \<open>A session in which the reader neither enters the key exchange nor resumes a packet.\<close>

definition quiet :: "session \<Rightarrow> bool" where
  "quiet s \<longleftrightarrow> socket_state s \<noteq> LIBSSH2_SOCKET_DISCONNECTED \<and> readPack_state s \<noteq> NB_jump1 \<and>
     (state_has s LIBSSH2_STATE_EXCHANGING_KEYS \<longrightarrow> state_has s LIBSSH2_STATE_KEX_ACTIVE)"

text \<open>Rounds of the loop until a packet is complete, across calls that would block.\<close>

inductive rounds :: "session \<Rightarrow> session \<Rightarrow> bool" where
  rounds_done: "quiet s \<Longrightarrow> read_round s = Some (Inr s') \<Longrightarrow>
    total_num (packet s') = length (payload (packet s')) \<Longrightarrow> rounds s s'"
| rounds_more: "quiet s \<Longrightarrow> read_round s = Some (Inr s1) \<Longrightarrow>
    total_num (packet s1) \<noteq> length (payload (packet s1)) \<Longrightarrow> rounds s1 s' \<Longrightarrow> rounds s s'"
| rounds_wait: "quiet s \<Longrightarrow> read_round s = Some (Inl (LIBSSH2_ERROR_EAGAIN, s1)) \<Longrightarrow>
    rounds (clear_direction LIBSSH2_SESSION_BLOCK_INBOUND s1) s' \<Longrightarrow> rounds s s'"

text \<open>Calling the reader again after each result \<^verbatim>\<open>LIBSSH2_ERROR_EAGAIN\<close>.\<close>

inductive polls :: "kex_exchange_fn \<Rightarrow> packet_add_fn \<Rightarrow> session \<Rightarrow> session \<Rightarrow> bool"
  for kx :: kex_exchange_fn and padd :: packet_add_fn where
  polls_refl: "polls kx padd s s"
| polls_step: "libssh2_transport_read kx padd s = Some (LIBSSH2_ERROR_EAGAIN, s1) \<Longrightarrow>
    polls kx padd s1 s2 \<Longrightarrow> polls kx padd s s2"

lemma quiet_read:
  "quiet (clear_direction LIBSSH2_SESSION_BLOCK_INBOUND s) \<Longrightarrow>
   libssh2_transport_read kx padd s =
     read_loop padd (clear_direction LIBSSH2_SESSION_BLOCK_INBOUND s)"
  by (auto simp: quiet_def libssh2_transport_read_def Let_def)

lemma rounds_quiet: "rounds s s' \<Longrightarrow> quiet s"
  by (erule rounds.cases) auto

lemma read_loop_rounds:
  "rounds t s' \<Longrightarrow>
     read_loop padd t = read_point1 padd s' (encrypted s') \<or>
     (\<exists>s1 s2. read_loop padd t = Some (LIBSSH2_ERROR_EAGAIN, s1) \<and> polls kx padd s1 s2 \<and>
        libssh2_transport_read kx padd s2 = read_point1 padd s' (encrypted s'))"
proof (induction rule: rounds.induct)
  case (rounds_done s s')
  then show ?case by (simp add: read_loop.simps [of padd s] quiet_def encrypted_def)
next
  case (rounds_more s s1 s')
  then have "read_loop padd s = read_loop padd s1"
    by (simp add: read_loop.simps [of padd s] quiet_def)
  with rounds_more.IH show ?case by simp
next
  case (rounds_wait s s1 s')
  let ?t = "clear_direction LIBSSH2_SESSION_BLOCK_INBOUND s1"
  have l: "read_loop padd s = Some (LIBSSH2_ERROR_EAGAIN, s1)"
    using rounds_wait.hyps by (simp add: read_loop.simps [of padd s] quiet_def)
  have r: "libssh2_transport_read kx padd s1 = read_loop padd ?t"
    by (rule quiet_read [OF rounds_quiet [OF rounds_wait.hyps(3)]])
  from rounds_wait.IH show ?case
  proof (elim disjE exE conjE)
    assume "read_loop padd ?t = read_point1 padd s' (encrypted s')"
    with l r show ?case using polls_refl by metis
  next
    fix u1 u2
    assume u: "read_loop padd ?t = Some (LIBSSH2_ERROR_EAGAIN, u1)" "polls kx padd u1 u2"
      "libssh2_transport_read kx padd u2 = read_point1 padd s' (encrypted s')"
    have "polls kx padd s1 u2" using polls_step [OF _ u(2)] r u(1) by simp
    with l u(3) show ?case by blast
  qed
qed

lemma rounds_transport_read:
  assumes "rounds (clear_direction LIBSSH2_SESSION_BLOCK_INBOUND s) s'"
  obtains s1 where "polls kx padd s s1"
    "libssh2_transport_read kx padd s1 = read_point1 padd s' (encrypted s')"
proof -
  have r: "libssh2_transport_read kx padd s =
      read_loop padd (clear_direction LIBSSH2_SESSION_BLOCK_INBOUND s)"
    by (rule quiet_read [OF rounds_quiet [OF assms]])
  from read_loop_rounds [OF assms, of padd kx] show ?thesis
  proof (elim disjE exE conjE)
    assume "read_loop padd (clear_direction LIBSSH2_SESSION_BLOCK_INBOUND s) =
      read_point1 padd s' (encrypted s')"
    with r show ?thesis by (intro that [OF polls_refl]) simp
  next
    fix s1 s2
    assume "read_loop padd (clear_direction LIBSSH2_SESSION_BLOCK_INBOUND s) =
        Some (LIBSSH2_ERROR_EAGAIN, s1)" "polls kx padd s1 s2"
      "libssh2_transport_read kx padd s2 = read_point1 padd s' (encrypted s')"
    with r show ?thesis by (intro that [OF polls_step]) simp_all
  qed
qed

section \<open>Refilling the buffer\<close>

definition recv_measure :: "session \<Rightarrow> nat" where
  "recv_measure s = sum_list (map (\<lambda>r. Suc (length (recv_bytes r))) (recvs (env s)))"

lemma read_fill_full: "rd_bs s \<le> length (unread s) \<Longrightarrow> read_fill s (rd_bs s) = Inr s"
  by (simp add: read_fill_def length_unread Let_def)

text \<open>A refill either delivers bytes or reports that it would block; either way the stream stays
  the same and the socket has less to offer.\<close>

lemma read_fill_cases:
  assumes ok: "reader_ok s" and short: "length (unread s) < rd_bs s"
    and more: "length (unread s) < length (input_stream s)"
  obtains (blocked) s' where "read_fill s (rd_bs s) = Inl (LIBSSH2_ERROR_EAGAIN, s')"
      "reader_view s' = reader_view s" "input_stream s' = input_stream s" "unread s' = unread s"
      "payload (packet s') = payload (packet s)" "crypt_abstract (remote_ep s') = crypt_abstract (remote_ep s)"
      "recv_measure s' < recv_measure s" "reader_ok s'"
  | (filled) s' where "read_fill s (rd_bs s) = Inr s'"
      "reader_view s' = reader_view s" "input_stream s' = input_stream s"
      "payload (packet s') = payload (packet s)" "crypt_abstract (remote_ep s') = crypt_abstract (remote_ep s)"
      "recv_measure s' < recv_measure s" "reader_ok s'"
proof -
  have room: "0 < PACKETBUFSIZE - length (unread s)"
    using short ok by (auto simp: reader_ok_def rd_bs_def split: if_splits)
  let ?rest = "s\<lparr>packet := (packet s)\<lparr>buf := unread s, readidx := 0\<rparr>\<rparr>"
  have alive: "\<forall>r\<in>set (recvs (env s)). recv_alive r" using ok by (simp add: reader_ok_def)
  obtain r rs where rs: "recvs (env s) = r # rs"
    using more by (cases "recvs (env s)") (auto simp: input_stream_def)
  note fill = read_fill_def Let_def libssh2_recv_def length_unread [symmetric] unread_def [symmetric]
  note defs = unread_def reader_view_def input_stream_def recv_measure_def block_direction_def
  show ?thesis
  proof (cases r)
    case (RecvError e)
    define s' where "s' = block_direction LIBSSH2_SESSION_BLOCK_INBOUND
      (?rest\<lparr>env := (env s)\<lparr>recvs := rs\<rparr>\<rparr>)"
    have v: "reader_view s' = reader_view s" by (simp add: s'_def defs)
    have "read_fill s (rd_bs s) = Inl (LIBSSH2_ERROR_EAGAIN, s')"
      using short alive rs RecvError by (auto simp: s'_def fill)
    moreover have "reader_ok s'" by (rule reader_ok_cong [OF ok v]) (auto simp: s'_def defs rs)
    ultimately show ?thesis using v by (intro blocked) (simp_all add: s'_def defs rs RecvError)
  next
    case (Received b)
    let ?room = "PACKETBUFSIZE - length (unread s)"
    let ?rs = "if length b \<le> ?room then rs else Received (drop ?room b) # rs"
    define s' where "s' = s\<lparr>packet := (packet s)\<lparr>buf := unread s @ take ?room b, readidx := 0\<rparr>,
      env := (env s)\<lparr>recvs := ?rs\<rparr>\<rparr>"
    have b: "b \<noteq> []" using alive rs Received by simp
    have v: "reader_view s' = reader_view s" by (simp add: s'_def defs)
    have "read_fill s (rd_bs s) = Inr s'"
      using short rs Received b room by (auto simp: s'_def fill)
    moreover have "reader_ok s'"
      using reader_view_simps [OF v] ok rs Received by (auto simp: reader_ok_def s'_def)
    moreover have "input_stream s' = input_stream s"
      using rs Received by (simp add: s'_def input_stream_def unread_def)
    moreover have "recv_measure s' < recv_measure s"
      using rs Received room b by (simp add: s'_def recv_measure_def) linarith
    ultimately show ?thesis using v by (intro filled) (simp_all add: s'_def)
  qed
qed

text \<open>The packet is complete: the payload area, the cipher state and the rest of the stream.\<close>

definition collected :: "session \<Rightarrow> byte list \<Rightarrow> abstract_state \<Rightarrow> byte list \<Rightarrow> session \<Rightarrow> bool" where
  "collected v fin ab rest s' \<longleftrightarrow>
     reader_view s' = reader_view v \<and> reader_ok s' \<and> payload (packet s') = fin \<and>
     total_num (packet s') = length fin \<and> crypt_abstract (remote_ep s') = ab \<and>
     input_stream s' = rest"

lemma quiet_cong: "reader_view s' = reader_view s \<Longrightarrow> quiet s' = quiet s"
  using reader_view_simps [of s' s] by (simp add: quiet_def)

lemma clear_direction_simps [simp]:
  "reader_view (clear_direction d s) = reader_view s" "unread (clear_direction d s) = unread s"
  "input_stream (clear_direction d s) = input_stream s"
  "recv_measure (clear_direction d s) = recv_measure s"
  "packet (clear_direction d s) = packet s" "remote_ep (clear_direction d s) = remote_ep s"
  "reader_ok (clear_direction d s) = reader_ok s" "encrypted (clear_direction d s) = encrypted s"
  "env (clear_direction d s) = env s"
  by (simp_all add: clear_direction_def reader_view_def unread_def input_stream_def
      recv_measure_def reader_ok_def encrypted_def state_has_def)

lemma missing_cong:
  "reader_view s' = reader_view s \<Longrightarrow> payload (packet s') = payload (packet s) \<Longrightarrow>
   missing s' = missing s"
  using reader_view_simps(4) [of s' s] by (simp add: missing_def)

lemma mid_packet_cong:
  "mid_packet s \<Longrightarrow> reader_view s' = reader_view s \<Longrightarrow> payload (packet s') = payload (packet s) \<Longrightarrow>
   reader_ok s' \<Longrightarrow> mid_packet s'"
  using reader_view_simps [of s' s] by (simp add: mid_packet_def)

lemma completes_cong:
  assumes "completes s fin ab" "reader_view s' = reader_view s"
    "payload (packet s') = payload (packet s)" "input_stream s' = input_stream s"
    "crypt_abstract (remote_ep s') = crypt_abstract (remote_ep s)"
  shows "completes s' fin ab"
  using assms missing_cong [OF assms(2,3)] reader_view_simps [OF assms(2)]
  by (simp add: completes_def)

lemma read_blocksize_rd_bs: "reader_ok s \<Longrightarrow> read_blocksize s = Some (rd_bs s)"
  by (auto simp: read_blocksize_def rd_bs_def reader_ok_def encrypted_def)

lemma read_round_reader_ok:
  assumes "reader_ok s"
  shows "read_round s =
     (case read_fill s (rd_bs s) of
        Inl ret \<Rightarrow> Some (Inl ret)
      | Inr s1 \<Rightarrow> do {
          r \<leftarrow> (if total_num (packet s1) = 0 then read_start s1 (encrypted s) (rd_bs s) else Some (Inr s1));
          (case r of Inl ret \<Rightarrow> Some (Inl ret) | Inr s2 \<Rightarrow> read_body s2 (encrypted s) (rd_bs s)) })"
proof -
  have "readidx (packet s) \<le> length (buf (packet s))" using assms by (simp add: reader_ok_def)
  then show ?thesis
    unfolding encrypted_def by (simp add: read_round_def read_blocksize_rd_bs [OF assms] Let_def)
qed

lemma round_result_collected:
  assumes "round_result s fin ab s'" "missing s \<le> length (unread s)"
    "reader_view s = reader_view v"
  shows "collected v fin ab (drop (missing s) (input_stream s)) s'"
    "total_num (packet s') = length (payload (packet s'))"
  using assms reader_view_simps(4) [of s' s] by (simp_all add: round_result_def collected_def)

text \<open>Once the first block is there, the packet is collected whatever the pieces in which the rest
  arrives.\<close>

lemma rounds_mid_packet:
  assumes "mid_packet s" "completes s fin ab" "length (unread s) < rd_bs s"
    "length (unread s) < missing s" "quiet s"
  shows "\<exists>s'. rounds s s' \<and> collected s fin ab (drop (missing s) (input_stream s)) s'"
  using assms
proof (induction "recv_measure s" arbitrary: s rule: less_induct)
  case less
  have ok: "reader_ok s" and tot: "total_num (packet s) \<noteq> 0"
    using less.prems(1) by (simp_all add: mid_packet_def)
  have more: "length (unread s) < length (input_stream s)"
    using less.prems(2,4) by (auto elim: completesE)
  show ?case
  proof (cases rule: read_fill_cases [OF ok less.prems(3) more])
    case (1 s1)
    let ?t = "clear_direction LIBSSH2_SESSION_BLOCK_INBOUND s1"
    have wait: "read_round s = Some (Inl (LIBSSH2_ERROR_EAGAIN, s1))"
      by (simp add: read_round_reader_ok [OF ok] 1(1))
    have v: "reader_view ?t = reader_view s" "payload (packet ?t) = payload (packet s)"
      using 1 by simp_all
    have "\<exists>s'. rounds ?t s' \<and> collected ?t fin ab (drop (missing ?t) (input_stream ?t)) s'"
      using less.prems 1 v mid_packet_cong [OF less.prems(1) v] completes_cong [OF less.prems(2) v]
        missing_cong [OF v] quiet_cong [OF v(1)] reader_view_simps [OF v(1)]
      by (intro less.hyps) simp_all
    then show ?thesis using rounds_wait [OF less.prems(5) wait] 1 v missing_cong [OF v]
      by (auto simp: collected_def)
  next
    case (2 s1)
    note v = reader_view_simps [OF 2(2)]
    obtain s2 where s2: "read_body s1 (encrypted s1) (rd_bs s1) = Some (Inr s2)"
      "round_result s1 fin ab s2"
      using read_body_step mid_packet_cong [OF less.prems(1) 2(2,4,7)]
        completes_cong [OF less.prems(2) 2(2,4,3,5)] by blast
    have round: "read_round s = Some (Inr s2)"
      using s2(1) v tot by (simp add: read_round_reader_ok [OF ok] 2(1))
    note mis = missing_cong [OF 2(2,4)]
    show ?thesis
    proof (cases "missing s1 \<le> length (unread s1)")
      case True
      note c = round_result_collected [OF s2(2) True 2(2)]
      from rounds_done [OF less.prems(5) round c(2)] c(1) show ?thesis
        by (auto simp: mis 2(3))
    next
      case False
      with s2(2) have r: "mid_packet s2" "completes s2 fin ab" "length (unread s2) < rd_bs s1"
        "length (payload (packet s2)) < total_num (packet s2)"
        "length (unread s2) < missing s2" "reader_view s2 = reader_view s1"
        "recvs (env s2) = recvs (env s1)"
        "drop (missing s2) (input_stream s2) = drop (missing s1) (input_stream s1)"
        by (simp_all add: round_result_def)
      have vs: "reader_view s2 = reader_view s" using r(6) 2(2) by simp
      have "recv_measure s2 < recv_measure s" using r(7) 2(6) by (simp add: recv_measure_def)
      from less.hyps [OF this r(1,2)] r(3,5) reader_view_simps [OF r(6)] quiet_cong [OF vs] less.prems(5)
      obtain s' where "rounds s2 s'" "collected s2 fin ab (drop (missing s2) (input_stream s2)) s'"
        by auto
      with rounds_more [OF less.prems(5) round] r(4,8) vs show ?thesis
        by (auto simp: collected_def mis 2(3))
    qed
  qed
qed

text \<open>The first five bytes of a packet, and the session once it has seen them.\<close>

definition packet_header :: "nat \<Rightarrow> byte \<Rightarrow> byte list" where
  "packet_header n pad = libssh2_htonu32 (word_of_nat (n + 1)) @ [pad]"

definition opened :: "session \<Rightarrow> nat \<Rightarrow> byte \<Rightarrow> session" where
  "opened s n pad =
     s\<lparr>packet := (packet s)\<lparr>packet_length := word_of_nat (n + 1), padding_length := pad,
         init5 := (if encrypted s then packet_header n pad else init5 (packet s)),
         total_num := n + rd_mac s\<rparr>\<rparr>"

text \<open>A packet at the head of the stream: \<open>body\<close> is what follows the header once decrypted,
  \<open>macb\<close> the MAC.\<close>

definition arriving ::
  "session \<Rightarrow> byte \<Rightarrow> byte list \<Rightarrow> byte list \<Rightarrow> byte list \<Rightarrow> abstract_state \<Rightarrow> bool" where
  "arriving s pad body macb rest ab \<longleftrightarrow>
     (\<exists>w. input_stream s = w @ macb @ rest \<and> length macb = rd_mac s \<and>
        (if encrypted s
         then length w mod rd_bs s = 0 \<and>
              crypt_blocks (cm_crypt (the (crypt (remote_ep s)))) (rd_bs s)
                (crypt_abstract (remote_ep s)) w = (True, ab, packet_header (length body) pad @ body)
         else w = packet_header (length body) pad @ body \<and> ab = crypt_abstract (remote_ep s))) \<and>
     body \<noteq> [] \<and> length body + rd_mac s \<le> LIBSSH2_PACKET_MAXPAYLOAD"

lemma length_packet_header [simp]: "length (packet_header n pad) = 5"
  by (simp add: packet_header_def)

lemma packet_header_fields:
  assumes "n < 2 ^ 31"
  shows "rd32 (packet_header n pad @ r) 0 = Some (word_of_nat (n + 1))"
    "(packet_header n pad @ r) ! 4 = pad"
    "(word_of_nat (n + 1) :: u32) - 1 = word_of_nat n" "\<not> (word_of_nat (n + 1) :: u32) < 1"
proof -
  show "rd32 (packet_header n pad @ r) 0 = Some (word_of_nat (n + 1))"
    using rd32_htonu32_app [of "word_of_nat (n + 1)" "[pad] @ r"] by (simp add: packet_header_def)
  show "(packet_header n pad @ r) ! 4 = pad"
    by (simp add: packet_header_def nth_append)
  show "(word_of_nat (n + 1) :: u32) - 1 = word_of_nat n" by simp
  have "unat (word_of_nat (n + 1) :: u32) = n + 1" by (rule unat_u32_of_nat) (use assms in simp)
  then show "\<not> (word_of_nat (n + 1) :: u32) < 1" by (simp add: word_less_nat_alt)
qed

lemma packet_total:
  assumes "n + m < 2 ^ 32"
  shows "unat ((word_of_nat (n + 1) :: u32) - 1 + word_of_nat m) = n + m"
proof -
  have "(word_of_nat (n + 1) :: u32) - 1 + word_of_nat m = word_of_nat (n + m)" by simp
  then show ?thesis by (simp only: unat_u32_of_nat [OF assms])
qed

lemma unread_prefix:
  assumes "input_stream s = w @ r" "n \<le> length (unread s)" "n \<le> length w"
  shows "take n (unread s) = take n w"
proof -
  have "take n (input_stream s) = take n (unread s)" using assms(2) by (simp add: input_stream_def)
  moreover have "take n (input_stream s) = take n w" using assms(1,3) by simp
  ultimately show ?thesis by simp
qed

text \<open>The first block, decrypted in place when the connection is encrypted.\<close>

lemma first_block:
  assumes ok: "reader_ok s" and arr: "arriving s pad body macb rest ab"
    and room: "rd_bs s \<le> length (unread s)"
  obtains s1 w where
    "(if encrypted s then decrypt s (readidx (packet s)) (rd_bs s) else Some (LIBSSH2_ERROR_NONE, s))
       = Some (LIBSSH2_ERROR_NONE, s1)"
    "take (rd_bs s) (unread s1) = take (rd_bs s) (packet_header (length body) pad @ body)"
    "drop (rd_bs s) (unread s1) = drop (rd_bs s) (unread s)"
    "reader_view s1 = reader_view s" "recvs (env s1) = recvs (env s)"
    "readidx (packet s1) \<le> length (buf (packet s1))"
    "drop (rd_bs s) (input_stream s) = w @ macb @ rest"
    "length w + rd_bs s = length body + 5"
    "if encrypted s
     then length w mod rd_bs s = 0 \<and>
       crypt_blocks (cm_crypt (the (crypt (remote_ep s)))) (rd_bs s) (crypt_abstract (remote_ep s1)) w
         = (True, ab, drop (rd_bs s) (packet_header (length body) pad @ body))
     else w = body \<and> ab = crypt_abstract (remote_ep s1)"
proof (cases "encrypted s")
  case False
  then have bs: "rd_bs s = 5" by (simp add: rd_bs_def)
  have inp: "input_stream s = packet_header (length body) pad @ body @ macb @ rest"
    using arr False by (auto simp: arriving_def)
  have "take 5 (unread s) = packet_header (length body) pad"
    using unread_prefix [OF inp, of 5] room bs by simp
  with False arr ok bs inp show ?thesis
    by (intro that [of s body]) (auto simp: arriving_def reader_ok_def)
next
  case True
  from ok True obtain cm where c: "crypt (remote_ep s) = Some cm" "rd_bs s = blocksize cm"
    "5 \<le> blocksize cm" "block_preserving (cm_crypt cm)" by (rule reader_ok_cipher)
  from arr True c obtain w where w: "input_stream s = w @ macb @ rest" "length w mod rd_bs s = 0"
    "crypt_blocks (cm_crypt cm) (rd_bs s) (crypt_abstract (remote_ep s)) w
       = (True, ab, packet_header (length body) pad @ body)" by (auto simp: arriving_def)
  have lw: "length w = length body + 5" using length_crypt_blocks [OF c(4) w(3)] by simp
  with w(2) have bw: "rd_bs s \<le> length w" by (metis add_is_0 mod_less not_le_imp_less zero_neq_numeral)
  have uw: "take (rd_bs s) (unread s) = take (rd_bs s) w" by (rule unread_prefix [OF w(1) room bw])
  have bs: "0 < rd_bs s" "length (take (rd_bs s) w) mod rd_bs s = 0" using c bw by simp_all
  have sp: "crypt_blocks (cm_crypt cm) (rd_bs s) (crypt_abstract (remote_ep s))
      (take (rd_bs s) w @ drop (rd_bs s) w) = (True, ab, packet_header (length body) pad @ body)"
    using w(3) by simp
  obtain ab1 y1 y2 where y: "crypt_blocks (cm_crypt cm) (rd_bs s) (crypt_abstract (remote_ep s))
        (take (rd_bs s) w) = (True, ab1, y1)"
    "crypt_blocks (cm_crypt cm) (rd_bs s) ab1 (drop (rd_bs s) w) = (True, ab, y2)"
    "packet_header (length body) pad @ body = y1 @ y2"
    by (rule crypt_blocks_split [OF bs(2,1) sp])
  have r: "readidx (packet s) \<le> length (buf (packet s))" using ok by (simp add: reader_ok_def)
  obtain s1 where s1: "decrypt s (readidx (packet s)) (rd_bs s) = Some (LIBSSH2_ERROR_NONE, s1)"
    "unread s1 = y1 @ drop (rd_bs s) (unread s)" "length y1 = rd_bs s"
    "crypt_abstract (remote_ep s1) = ab1" "readidx (packet s1) \<le> length (buf (packet s1))"
    "recvs (env s1) = recvs (env s)" "reader_view s1 = reader_view s"
    by (rule decrypt_facts [OF c(1) _ _ room r c(4), of ab1 y1]) (use bs c y(1) uw in simp_all)
  have "(length w - rd_bs s) mod rd_bs s = 0" using w(2) bw by (simp add: le_mod_geq)
  then show ?thesis using True s1 y c lw bw w(1)
    by (intro that [of s1 "drop (rd_bs s) w"]) simp_all
qed

lemma arriving_bounds:
  "arriving s pad body macb rest ab \<Longrightarrow> length body + rd_mac s \<le> LIBSSH2_PACKET_MAXPAYLOAD \<and> body \<noteq> []"
  by (simp add: arriving_def)

lemma rd_bs_bounds: "reader_ok s \<Longrightarrow> 5 \<le> rd_bs s \<and> rd_bs s \<le> MAX_BLOCKSIZE"
  by (auto simp: reader_ok_def rd_bs_def)

lemma rd_mac_method:
  "reader_ok s \<Longrightarrow> (if encrypted s then map_option mac_len (mac (remote_ep s)) else Some 0) = Some (rd_mac s)"
  by (auto simp: reader_ok_def rd_mac_def)

lemma header_block:
  assumes "5 \<le> n" "length body < 2 ^ 31"
  shows "rd32 (take n (packet_header (length body) pad @ body)) 0 = Some (word_of_nat (length body + 1))"
    "take n (packet_header (length body) pad @ body) ! 4 = pad"
    "take 5 (take n (packet_header (length body) pad @ body)) = packet_header (length body) pad"
    "drop 5 (take n (packet_header (length body) pad @ body)) = take (n - 5) body"
  using packet_header_fields(1,2) [OF assms(2), where r = "take (n - 5) body"] assms(1) by simp_all

lemma reader_view_encrypted [simp]:
  "encrypted (reader_view s) = encrypted s" "rd_mac (reader_view s) = rd_mac s"
  by (simp_all add: reader_view_def encrypted_def state_has_def rd_mac_def)

lemma reader_view_opened: "reader_view (opened s n pad) = opened (reader_view s) n pad"
  by (simp add: opened_def) (simp add: reader_view_def)

text \<open>The start of a packet: the header is decoded and the rest of the first block is kept.\<close>

lemma read_start_step:
  assumes ok: "reader_ok s" and arr: "arriving s pad body macb rest ab"
    and room: "rd_bs s \<le> length (unread s)" and al: "allocs (env s) = []"
  obtains s1 where "read_start s (encrypted s) (rd_bs s) = Some (Inr s1)"
    "reader_view s1 = reader_view (opened s (length body) pad)" "recvs (env s1) = recvs (env s)"
    "mid_packet s1" "completes s1 (body @ macb) ab"
    "drop (missing s1) (input_stream s1) = rest"
proof -
  let ?bs = "rd_bs s" and ?plain = "packet_header (length body) pad @ body"
  note bnd = arriving_bounds [OF arr] rd_bs_bounds [OF ok]
  obtain s0 w where s0: "(if encrypted s then decrypt s (readidx (packet s)) ?bs
        else Some (LIBSSH2_ERROR_NONE, s)) = Some (LIBSSH2_ERROR_NONE, s0)"
    "take ?bs (unread s0) = take ?bs ?plain" "drop ?bs (unread s0) = drop ?bs (unread s)"
    "reader_view s0 = reader_view s" "recvs (env s0) = recvs (env s)"
    "readidx (packet s0) \<le> length (buf (packet s0))"
    and w: "drop ?bs (input_stream s) = w @ macb @ rest" "length w + ?bs = length body + 5"
    "if encrypted s then length w mod ?bs = 0 \<and> crypt_blocks (cm_crypt (the (crypt (remote_ep s)))) ?bs
         (crypt_abstract (remote_ep s0)) w = (True, ab, drop ?bs ?plain)
     else w = body \<and> ab = crypt_abstract (remote_ep s0)"
    by (rule first_block [OF ok arr room])
  note v0 = reader_view_simps [OF s0(4)]
  have al0: "allocs (env s0) = []"
  proof -
    have "allocs (env (reader_view s0)) = allocs (env (reader_view s))" using s0(4) by simp
    then show ?thesis using al by (simp add: reader_view_def)
  qed
  have hb: "rd32 (take ?bs (unread s0)) 0 = Some (word_of_nat (length body + 1))"
    "take ?bs (unread s0) ! 4 = pad" "take 5 (take ?bs (unread s0)) = packet_header (length body) pad"
    "drop 5 (take ?bs (unread s0)) = take (?bs - 5) body"
    unfolding s0(2) using header_block [of ?bs body pad] bnd by auto
  define p where "p = (packet s0)\<lparr>packet_length := word_of_nat (length body + 1), padding_length := pad,
      init5 := (if encrypted s then packet_header (length body) pad else init5 (packet s0)),
      readidx := readidx (packet s0) + ?bs, total_num := length body + rd_mac s,
      payload := take (?bs - 5) body\<rparr>"
  define s1 where "s1 = s0\<lparr>packet := p\<rparr>"
  have len: "length (unread s0) = length (unread s)"
    using s0(2,3) room bnd w(2) by (metis (no_types, lifting) append_take_drop_id length_append
        length_packet_header length_take le_add2 add.commute min.absorb2)
  have room0: "?bs \<le> length (unread s0)" using len room by simp
  have mlen: "(if encrypted s then map_option mac_len (mac (remote_ep s0)) else Some 0) = Some (rd_mac s)"
    using rd_mac_method [OF ok] by (simp only: v0(7))
  have tot: "unat ((word_of_nat (length body + 1) :: u32) - 1 + word_of_nat (rd_mac s)) = length body + rd_mac s"
    by (rule packet_total) (use bnd in simp)
  have start: "read_start s (encrypted s) ?bs = Some (Inr s1)"
  proof -
    have a: "\<not> length (buf (packet s)) - readidx (packet s) < ?bs" using room by (simp add: length_unread)
    have b: "\<not> (?bs < 5 \<or> ?bs > MAX_BLOCKSIZE)" using bnd by simp
    have d: "\<not> (?bs - 5 > length body + rd_mac s)" using w(2) by simp
    have c: "\<not> length body + rd_mac s > LIBSSH2_PACKET_MAXPAYLOAD" using bnd by simp
    have e: "\<not> (word_of_nat (length body + 1) :: u32) < 1"
      by (rule packet_header_fields(4)) (use bnd in simp)
    show ?thesis
      unfolding read_start_def if_not_P [OF a] if_not_P [OF b] s0(1)
      using mlen hb [unfolded unread_def] tot c d e al0
      by (simp add: s1_def p_def libssh2_alloc_unlimited Let_def)
  qed
  have v1: "reader_view s1 = reader_view (opened s (length body) pad)"
  proof -
    have "reader_view s1 = opened (reader_view s0) (length body) pad"
      by (simp add: opened_def v0) (simp add: s1_def p_def reader_view_def)
    then show ?thesis by (simp add: reader_view_opened s0(4))
  qed
  have e1: "encrypted s1 = encrypted s" "rd_bs s1 = ?bs" "rd_mac s1 = rd_mac s"
    "total_num (packet s1) = length body + rd_mac s" "payload (packet s1) = take (?bs - 5) body"
    "crypt (remote_ep s1) = crypt (remote_ep s)"
    "crypt_abstract (remote_ep s1) = crypt_abstract (remote_ep s0)"
    using v0 by (simp_all add: s1_def p_def encrypted_def state_has_def rd_bs_def rd_mac_def)
  have u1: "unread s1 = drop ?bs (unread s)"
    using s0(3) by (simp add: s1_def p_def unread_def add.commute)
  have in1: "input_stream s1 = w @ macb @ rest"
    using u1 s0(5) room w(1) by (simp add: input_stream_def s1_def)
  have lm: "length macb = rd_mac s" using arr by (auto simp: arriving_def)
  have dn: "length (payload (packet s1)) = ?bs - 5" using e1(5) w(2) by simp
  have mis: "missing s1 = length w + length macb"
    using dn e1(4) lm w(2) bnd by (simp add: missing_def)
  have k: "rd_limit s1 - length (payload (packet s1)) = (if encrypted s then length w else 0)"
    using dn e1 w(2) bnd by (auto simp: rd_limit_def)
  have ok1: "reader_ok s1"
    using ok v0 s0(5,6) room0 by (auto simp: reader_ok_def s1_def p_def length_unread encrypted_def state_has_def)
  have mid: "mid_packet s1"
    using ok1 bnd dn e1 k w(2,3) by (auto simp: mid_packet_def split: if_splits)
  have "completes s1 (body @ macb) ab"
  proof (cases "encrypted s")
    case True
    then show ?thesis using w(3) e1 k mis bnd
      by (intro completesI [where y = "drop (?bs - 5) body"]) (simp_all add: in1)
  next
    case False
    then show ?thesis using w(3) e1 k mis by (intro completesI [where y = "[]"])
        (simp_all add: in1 rd_bs_def)
  qed
  moreover have "recvs (env s1) = recvs (env s)" using s0(5) by (simp add: s1_def)
  ultimately show ?thesis using start v1 mid mis by (intro that [of s1]) (simp_all add: in1)
qed

text \<open>A packet at the head of the stream is collected, whatever the pieces in which it arrives and
  however often the socket would block in between.\<close>

lemma arriving_cong:
  assumes "arriving s pad body macb rest ab" "reader_view s' = reader_view s"
    "input_stream s' = input_stream s" "crypt_abstract (remote_ep s') = crypt_abstract (remote_ep s)"
  shows "arriving s' pad body macb rest ab"
  using assms(1) unfolding arriving_def assms(3,4) reader_view_simps [OF assms(2)] .

lemma opened_cong: "reader_view s' = reader_view s \<Longrightarrow>
  reader_view (opened s' n pad) = reader_view (opened s n pad)"
  by (simp add: reader_view_opened)

lemma arriving_long:
  assumes "reader_ok s" "arriving s pad body macb rest ab"
  shows "rd_bs s \<le> length (input_stream s)"
proof (cases "encrypted s")
  case True
  from assms(1) True obtain cm where c: "crypt (remote_ep s) = Some cm" "rd_bs s = blocksize cm"
    "block_preserving (cm_crypt cm)" by (rule reader_ok_cipher)
  from assms(2) True c obtain w where w: "input_stream s = w @ macb @ rest" "length w mod rd_bs s = 0"
    "crypt_blocks (cm_crypt cm) (rd_bs s) (crypt_abstract (remote_ep s)) w
       = (True, ab, packet_header (length body) pad @ body)" by (auto simp: arriving_def)
  have "length w = length body + 5" using length_crypt_blocks [OF c(3) w(3)] by simp
  with w(2) have "rd_bs s \<le> length w" by (metis add_is_0 mod_less not_le_imp_less zero_neq_numeral)
  then show ?thesis by (simp add: w(1))
next
  case False
  then show ?thesis using assms(2) by (auto simp: arriving_def rd_bs_def)
qed

lemma rounds_start:
  assumes ok: "reader_ok s" and arr: "arriving s pad body macb rest ab" and q: "quiet s0" "quiet s"
    and room: "rd_bs s \<le> length (unread s)" and al: "allocs (env s) = []"
    and tot: "total_num (packet s) = 0"
    and rd: "read_round s0 = (case read_start s (encrypted s) (rd_bs s) of None \<Rightarrow> None
       | Some (Inl ret) \<Rightarrow> Some (Inl ret) | Some (Inr s2) \<Rightarrow> read_body s2 (encrypted s) (rd_bs s))"
  shows "\<exists>s'. rounds s0 s' \<and> collected (opened s (length body) pad) (body @ macb) ab rest s'"
proof -
  obtain s1 where s1: "read_start s (encrypted s) (rd_bs s) = Some (Inr s1)"
    "reader_view s1 = reader_view (opened s (length body) pad)" "recvs (env s1) = recvs (env s)"
    "mid_packet s1" "completes s1 (body @ macb) ab" "drop (missing s1) (input_stream s1) = rest"
    by (rule read_start_step [OF ok arr room al])
  obtain s2 where s2: "read_body s1 (encrypted s1) (rd_bs s1) = Some (Inr s2)"
    "round_result s1 (body @ macb) ab s2" by (rule read_body_step [OF s1(4,5)])
  have o: "encrypted (opened s n pad) = encrypted s" "rd_bs (opened s n pad) = rd_bs s"
    "quiet (opened s n pad) = quiet s" for n
    by (simp_all add: opened_def encrypted_def rd_bs_def state_has_def quiet_def)
  have round: "read_round s0 = Some (Inr s2)"
    using rd s1(1) s2(1) reader_view_simps [OF s1(2)] o by simp
  show ?thesis
  proof (cases "missing s1 \<le> length (unread s1)")
    case True
    note c = round_result_collected [OF s2(2) True s1(2)]
    from rounds_done [OF q(1) round c(2)] c(1) s1(6) show ?thesis by auto
  next
    case False
    with s2(2) have r: "mid_packet s2" "completes s2 (body @ macb) ab" "length (unread s2) < rd_bs s1"
      "length (payload (packet s2)) < total_num (packet s2)"
      "length (unread s2) < missing s2" "reader_view s2 = reader_view s1"
      "drop (missing s2) (input_stream s2) = drop (missing s1) (input_stream s1)"
      by (simp_all add: round_result_def)
    have "quiet s2" using quiet_cong [OF r(6)] quiet_cong [OF s1(2)] o q(2) by simp
    moreover have "length (unread s2) < rd_bs s2" using r(3) reader_view_simps [OF r(6)] by simp
    ultimately obtain s' where "rounds s2 s'"
      "collected s2 (body @ macb) ab (drop (missing s2) (input_stream s2)) s'"
      using rounds_mid_packet [OF r(1,2) _ r(5)] by blast
    with rounds_more [OF q(1) round] r(4,6,7) s1(2,6) show ?thesis by (auto simp: collected_def)
  qed
qed

lemma read_start_short:
  "length (unread s) < bs \<Longrightarrow> read_start s e bs =
     Some (Inl (LIBSSH2_ERROR_EAGAIN, block_direction LIBSSH2_SESSION_BLOCK_INBOUND s))"
  by (simp add: read_start_def length_unread)

lemma block_direction_simps [simp]:
  "reader_view (block_direction d s) = reader_view s" "unread (block_direction d s) = unread s"
  "input_stream (block_direction d s) = input_stream s"
  "recv_measure (block_direction d s) = recv_measure s"
  "packet (block_direction d s) = packet s" "remote_ep (block_direction d s) = remote_ep s"
  "reader_ok (block_direction d s) = reader_ok s" "env (block_direction d s) = env s"
  by (simp_all add: block_direction_def reader_view_def unread_def input_stream_def
      recv_measure_def reader_ok_def encrypted_def state_has_def)

lemma reader_view_allocs: "reader_view s' = reader_view s \<Longrightarrow> allocs (env s') = allocs (env s)"
proof -
  assume "reader_view s' = reader_view s"
  then have "allocs (env (reader_view s')) = allocs (env (reader_view s))" by simp
  then show ?thesis by (simp add: reader_view_def)
qed

lemma rounds_packet:
  assumes "reader_ok s" "arriving s pad body macb rest ab" "quiet s" "allocs (env s) = []"
    "total_num (packet s) = 0"
  shows "\<exists>s'. rounds s s' \<and> collected (opened s (length body) pad) (body @ macb) ab rest s'"
  using assms
proof (induction "recv_measure s" arbitrary: s rule: less_induct)
  case less
  show ?case
  proof (cases "rd_bs s \<le> length (unread s)")
    case True
    have "read_round s = (case read_start s (encrypted s) (rd_bs s) of None \<Rightarrow> None
       | Some (Inl ret) \<Rightarrow> Some (Inl ret) | Some (Inr s2) \<Rightarrow> read_body s2 (encrypted s) (rd_bs s))"
      using read_fill_full [OF True] less.prems(5)
      by (simp add: read_round_reader_ok [OF less.prems(1)] Option.bind_eq_Some_conv
          split: option.split sum.split)
    then show ?thesis by (rule rounds_start [OF less.prems(1,2,3,3) True less.prems(4,5)])
  next
    case False
    then have short: "length (unread s) < rd_bs s" by simp
    then have more: "length (unread s) < length (input_stream s)"
      using arriving_long [OF less.prems(1,2)] by simp
    have again: "\<exists>s'. rounds s s' \<and> collected (opened s (length body) pad) (body @ macb) ab rest s'"
      if b: "read_round s = Some (Inl (LIBSSH2_ERROR_EAGAIN, s1))" "reader_view s1 = reader_view s"
        "input_stream s1 = input_stream s" "crypt_abstract (remote_ep s1) = crypt_abstract (remote_ep s)"
        "recv_measure s1 < recv_measure s" "reader_ok s1" for s1
    proof -
      let ?t = "clear_direction LIBSSH2_SESSION_BLOCK_INBOUND s1"
      have v: "reader_view ?t = reader_view s" using b by simp
      have "\<exists>s'. rounds ?t s' \<and> collected (opened ?t (length body) pad) (body @ macb) ab rest s'"
        using b less.prems arriving_cong [OF less.prems(2) v] quiet_cong [OF v]
          reader_view_simps(4) [OF v] reader_view_allocs [OF v]
        by (intro less.hyps) simp_all
      then show ?thesis using rounds_wait [OF less.prems(3) b(1)] opened_cong [OF v]
        by (auto simp: collected_def)
    qed
    show ?thesis
    proof (cases rule: read_fill_cases [OF less.prems(1) short more])
      case (1 s1)
      then show ?thesis using again [of s1] by (simp add: read_round_reader_ok [OF less.prems(1)])
    next
      case (2 s1)
      note v = reader_view_simps [OF 2(2)]
      have round: "read_round s = (case read_start s1 (encrypted s1) (rd_bs s1) of None \<Rightarrow> None
         | Some (Inl ret) \<Rightarrow> Some (Inl ret) | Some (Inr s2) \<Rightarrow> read_body s2 (encrypted s1) (rd_bs s1))"
        using 2(1) less.prems(5) v
        by (simp add: read_round_reader_ok [OF less.prems(1)] split: option.split sum.split)
      show ?thesis
      proof (cases "rd_bs s1 \<le> length (unread s1)")
        case True
        have "\<exists>s'. rounds s s' \<and> collected (opened s1 (length body) pad) (body @ macb) ab rest s'"
          by (rule rounds_start [OF 2(7) arriving_cong [OF less.prems(2) 2(2,3,5)] less.prems(3) _ True _ _ round])
            (use quiet_cong [OF 2(2)] less.prems v reader_view_allocs [OF 2(2)] in simp_all)
        then show ?thesis by (simp add: collected_def opened_cong [OF 2(2)])
      next
        case False
        then show ?thesis
          using again [of "block_direction LIBSSH2_SESSION_BLOCK_INBOUND s1"] round 2
          by (simp add: read_start_short)
      qed
    qed
  qed
qed

section \<open>A collected packet\<close>

text \<open>What \<^verbatim>\<open>fullpacket\<close> makes of a packet whose payload area is \<open>data @ padding @ macb\<close>, without
  compression: \<^verbatim>\<open>_libssh2_packet_add\<close> is called with the data and the verdict on the MAC.\<close>

definition no_decompression :: "endpoint \<Rightarrow> bool" where
  "no_decompression e \<longleftrightarrow> (case comp e of None \<Rightarrow> True | Some pm \<Rightarrow> \<not> pm_compress pm)"

definition mac_verdict :: "session \<Rightarrow> byte list \<Rightarrow> byte list \<Rightarrow> bool" where
  "mac_verdict s body macb \<longleftrightarrow> \<not> encrypted s \<or>
     take (rd_mac s) (mm_hash (the (mac (remote_ep s))) (mac_abstract (remote_ep s))
        (seqno (remote_ep s)) (init5 (packet s)) body) = macb"

definition decoded :: "session \<Rightarrow> byte list \<Rightarrow> byte list \<Rightarrow> byte list \<Rightarrow> session" where
  "decoded s data padding macb =
     s\<lparr>fullpacket_macstate := mac_verdict s (data @ padding) macb,
       remote_ep := (remote_ep s)\<lparr>seqno := seqno (remote_ep s) + 1\<rparr>,
       fullpacket_payload_len := length data, fullpacket_packet_type := hd data,
       fullpacket_state := NB_created\<rparr>"

lemma fullpacket_decode_data:
  assumes pl: "payload (packet s) = data @ padding @ macb" and ne: "data \<noteq> []"
    and len: "packet_length (packet s) = word_of_nat (length data + length padding + 1)"
    and pad: "padding_length (packet s) = word_of_nat (length padding)" "length padding < 256"
    and mac: "length macb = rd_mac s" "encrypted s \<longrightarrow> mac (remote_ep s) \<noteq> None"
    and small: "length data + length padding < 2 ^ 31" and nc: "no_decompression (remote_ep s)"
  shows "fullpacket_decode s (encrypted s) = Some (Inr (decoded s data padding macb))"
proof -
  have plen: "unat (packet_length (packet s) - 1) = length data + length padding"
    unfolding len using packet_total [of "length data + length padding" 0] small by simp
  have pn: "unat (padding_length (packet s)) = length padding"
    using pad by (simp add: unsigned_of_nat take_bit_nat_eq_self)
  have mok: "fullpacket_mac (s\<lparr>fullpacket_macstate := True, fullpacket_payload_len :=
        length data + length padding\<rparr>) (encrypted s) = Some (mac_verdict s (data @ padding) macb)"
    using mac pl by (auto simp: fullpacket_mac_def Let_def rdn_def mac_verdict_def rd_mac_def)
  have dec: "size_sub (length data + length padding) (length padding) = length data"
    using small by (subst size_sub_exact) simp_all
  show ?thesis
    using nc ne pl by (simp add: fullpacket_decode_def Let_def plen mok pn dec fullpacket_decomp_def
        no_decompression_def rd8_def decoded_def hd_append hd_conv_nth nth_append split: option.splits)
qed

end
