(* ===== verification/Transport_Roundtrip.thy ===== *)
theory Transport_Roundtrip
  imports Transport_Reader
begin

text \<open>
  The properties of the binary packet layer of \<^verbatim>\<open>transport.c\<close>.

  \<^item> Sending: padding and layout of a packet, and \<open>transport_sends\<close>, the calls of the sender with the
    same data until the packet is on the wire. \<open>pending_send\<close> and \<open>all_sent\<close> describe the session in
    between and afterwards.
  \<^item> \<open>in_step\<close> relates the sending side of one session to the receiving side of another; a packet
    sent by the first and read by the second keeps it (\<open>transport_roundtrip\<close>).
  \<^item> The library functions (ciphers, HMAC) are parameters; what is assumed of them is in
    \<open>ciphers_match\<close>, \<open>block_preserving\<close> and \<open>hmac_lengths\<close>. \<open>crypto1\<close> is a concrete instance used for
    the runs.
\<close>

section \<open>Padding\<close>

lemma padding_for_bounds:
  assumes "8 \<le> bs"
  shows "4 \<le> padding_for bs n" "padding_for bs n \<le> bs + 3" "(n + 5 + padding_for bs n) mod bs = 0"
proof -
  define r where "r = (n + 1 + 4) mod bs"
  have r: "r < bs" "r \<le> n + 1 + 4" and e: "(n + 1 + 4 - r) mod bs = 0"
    using assms by (simp_all add: r_def minus_mod_eq_mult_div)
  have p: "padding_for bs n = (if bs - r < 4 then bs - r + bs else bs - r)"
    by (simp only: padding_for_def Let_def r_def)
  show "4 \<le> padding_for bs n" "padding_for bs n \<le> bs + 3" using assms r by (auto simp: p)
  have "n + 5 + padding_for bs n = (n + 1 + 4 - r) + (if bs - r < 4 then bs + bs else bs)"
    using r unfolding p by (simp add: add.commute)
  then show "(n + 5 + padding_for bs n) mod bs = 0" using e
    by (simp only: mod_add_self2 add.assoc [symmetric] split: if_split) simp
qed

section \<open>Sending, and resuming a send\<close>

text \<open>A socket that accepts some bytes or would block.\<close>

definition sends_alive :: "session \<Rightarrow> bool" where
  "sends_alive s \<longleftrightarrow> (\<forall>r\<in>set (sends (env s)). 0 \<le> r \<or> r = - EAGAIN)"

text \<open>Part of a packet has been accepted by the socket, or all of it.\<close>

definition pending_send ::
  "endpoint \<Rightarrow> u32 \<Rightarrow> nat \<Rightarrow> nat \<Rightarrow> byte list \<Rightarrow> byte list \<Rightarrow> session \<Rightarrow> bool" where
  "pending_send ep st daddr n w0 wire s \<longleftrightarrow>
     local_ep s = ep \<and> sstate s = st \<and> outbuf (packet s) = wire \<and> odata (packet s) = daddr \<and>
     olen (packet s) = n \<and> ototal_num (packet s) = length wire \<and> osent (packet s) < length wire \<and>
     wire_out (env s) = w0 @ take (osent (packet s)) wire \<and> sends_alive s"

definition all_sent :: "endpoint \<Rightarrow> u32 \<Rightarrow> byte list \<Rightarrow> byte list \<Rightarrow> session \<Rightarrow> bool" where
  "all_sent ep st w0 wire s \<longleftrightarrow>
     local_ep s = ep \<and> sstate s = st \<and> olen (packet s) = 0 \<and> wire_out (env s) = w0 @ wire \<and>
     sends_alive s"

text \<open>Calling the sender again with the same data after each result \<^verbatim>\<open>LIBSSH2_ERROR_EAGAIN\<close>.\<close>

inductive transport_sends :: "nat \<Rightarrow> byte list \<Rightarrow> byte list option \<Rightarrow> session \<Rightarrow> session \<Rightarrow> bool"
  for daddr :: nat and data :: "byte list" and data2 :: "byte list option" where
  sends_done: "libssh2_transport_send s daddr data data2 = Some (LIBSSH2_ERROR_NONE, s') \<Longrightarrow>
    transport_sends daddr data data2 s s'"
| sends_again: "libssh2_transport_send s daddr data data2 = Some (LIBSSH2_ERROR_EAGAIN, s1) \<Longrightarrow>
    transport_sends daddr data data2 s1 s' \<Longrightarrow> transport_sends daddr data data2 s s'"

inductive_cases transport_sendsE: "transport_sends daddr data data2 s s'"

lemma direction_simps [simp]:
  "local_ep (block_direction d s) = local_ep s" "sstate (block_direction d s) = sstate s"
  "local_ep (clear_direction d s) = local_ep s" "sstate (clear_direction d s) = sstate s"
  by (simp_all add: block_direction_def clear_direction_def)

lemma libssh2_send_cases:
  assumes "sends_alive s"
  obtains (blocked) s' where "libssh2_send s d = (- EAGAIN, s')" "wire_out (env s') = wire_out (env s)"
      "packet s' = packet s \<and> local_ep s' = local_ep s \<and> sstate s' = sstate s" "sends_alive s'" "length (sends (env s')) < length (sends (env s))"
  | (accepted) n s' where "libssh2_send s d = (int n, s')" "n \<le> length d"
      "wire_out (env s') = wire_out (env s) @ take n d" "packet s' = packet s \<and> local_ep s' = local_ep s \<and> sstate s' = sstate s" "sends_alive s'"
      "n < length d \<Longrightarrow> length (sends (env s')) < length (sends (env s))"
proof (cases "sends (env s)")
  case Nil
  then show ?thesis
    by (intro accepted [of "length d" "snd (libssh2_send s d)"]) (auto simp: libssh2_send_def sends_alive_def)
next
  case (Cons r rs)
  show ?thesis
  proof (cases "r < 0")
    case True
    then show ?thesis using Cons assms
      by (intro blocked [of "s\<lparr>env := (env s)\<lparr>sends := rs\<rparr>\<rparr>"]) (auto simp: libssh2_send_def sends_alive_def)
  next
    case False
    then show ?thesis using Cons assms
      by (intro accepted [of "length (take (nat r) d)" "snd (libssh2_send s d)"])
        (auto simp: libssh2_send_def sends_alive_def min_def)
  qed
qed

lemma pending_step:
  assumes p: "pending_send ep st daddr (length data) w0 wire s" and ne: "data \<noteq> []"
    and cr: "st AND LIBSSH2_STATE_NEWKEYS \<noteq> 0 \<longrightarrow> crypt ep \<noteq> None"
  shows "(\<exists>s'. libssh2_transport_send s daddr data data2 = Some (LIBSSH2_ERROR_NONE, s') \<and>
            all_sent ep st w0 wire s') \<or>
         (\<exists>s'. libssh2_transport_send s daddr data data2 = Some (LIBSSH2_ERROR_EAGAIN, s') \<and>
            pending_send ep st daddr (length data) w0 wire s' \<and>
            length (sends (env s')) < length (sends (env s)))"
proof -
  let ?p = "packet s"
  define d where "d = drop (osent ?p) wire"
  have al: "sends_alive s" and ld: "length d = length wire - osent ?p" "0 < length d"
    using p by (auto simp: pending_send_def d_def)
  have ex: "send_existing s daddr (length data) =
      (case libssh2_send s d of (rc, s1) \<Rightarrow>
         if rc = int (length d)
         then (LIBSSH2_ERROR_NONE, True, s1\<lparr>packet := ?p\<lparr>ototal_num := 0, olen := 0\<rparr>\<rparr>)
         else if rc < 0 then
            (if rc \<noteq> - EAGAIN then (LIBSSH2_ERROR_SOCKET_SEND, True, s1)
             else (LIBSSH2_ERROR_EAGAIN, True, block_direction LIBSSH2_SESSION_BLOCK_OUTBOUND s1))
         else (if rc < int (length d) then LIBSSH2_ERROR_EAGAIN else LIBSSH2_ERROR_NONE, True,
               s1\<lparr>packet := ?p\<lparr>osent := osent ?p + nat rc\<rparr>\<rparr>))"
    using p ne ld by (simp add: send_existing_def pending_send_def d_def Let_def split: prod.split)
  obtain bs where bs: "(if state_has s LIBSSH2_STATE_NEWKEYS then map_option blocksize (crypt (local_ep s))
      else Some 8) = Some bs"
    using p cr by (cases "st AND LIBSSH2_STATE_NEWKEYS = 0") (auto simp: pending_send_def state_has_def)
  have send: "libssh2_transport_send s daddr data data2 =
      Some (rc, if rc \<noteq> 0 then s1 else clear_direction LIBSSH2_SESSION_BLOCK_OUTBOUND s1)"
    if "send_existing s daddr (length data) = (rc, True, s1)" for rc s1
    using that by (simp add: libssh2_transport_send_def Let_def bs)
  show ?thesis
  proof (cases rule: libssh2_send_cases [OF al, of d])
    case (1 s')
    have e: "send_existing s daddr (length data) =
        (LIBSSH2_ERROR_EAGAIN, True, block_direction LIBSSH2_SESSION_BLOCK_OUTBOUND s')"
      using ex 1(1) by simp
    show ?thesis
      apply (rule disjI2, intro exI conjI)
        apply (subst send [OF e]; simp)
      subgoal using p 1(2-) by (simp add: pending_send_def sends_alive_def)
      subgoal using 1 by simp
      done
  next
    case (2 n s')
    show ?thesis
    proof (cases "n = length d")
      case True
      have e: "send_existing s daddr (length data) =
          (LIBSSH2_ERROR_NONE, True, s'\<lparr>packet := ?p\<lparr>ototal_num := 0, olen := 0\<rparr>\<rparr>)"
        using ex 2(1) True by simp
      have "wire_out (env s') = w0 @ wire" using p 2(3) True by (simp add: pending_send_def d_def)
      then show ?thesis
        apply (intro disjI1 exI conjI)
         apply (subst send [OF e]; simp)
        using p 2(4,5) by (simp add: all_sent_def clear_direction_def pending_send_def sends_alive_def)
    next
      case False
      with 2(2) have lt: "n < length d" by simp
      have e: "send_existing s daddr (length data) =
          (LIBSSH2_ERROR_EAGAIN, True, s'\<lparr>packet := ?p\<lparr>osent := osent ?p + n\<rparr>\<rparr>)"
        using ex 2(1) lt by simp
      have w: "wire_out (env s') = w0 @ take (osent ?p + n) wire"
        using p 2(3) by (simp add: pending_send_def d_def take_add)
      show ?thesis
        apply (rule disjI2, intro exI conjI)
          apply (subst send [OF e]; simp)
        subgoal using p 2(4,5) w lt ld by (simp add: pending_send_def sends_alive_def)
        subgoal using 2(6) lt by simp
        done
    qed
  qed
qed

text \<open>The packet a session puts on the wire for a payload that is not compressed, and its sending
  side afterwards.\<close>

definition snd_bs :: "session \<Rightarrow> nat" where
  "snd_bs s = (if encrypted s then blocksize (the (crypt (local_ep s))) else 8)"

definition snd_padding :: "session \<Rightarrow> byte list \<Rightarrow> byte list" where
  "snd_padding s d = fst (libssh2_random s (padding_for (snd_bs s) (length d)))"

definition snd_plain :: "session \<Rightarrow> byte list \<Rightarrow> byte list" where
  "snd_plain s d = packet_header (length d + length (snd_padding s d))
     (word_of_nat (length (snd_padding s d))) @ d @ snd_padding s d"

definition snd_mac :: "session \<Rightarrow> byte list \<Rightarrow> byte list" where
  "snd_mac s d =
     (if encrypted s
      then mm_hash (the (mac (local_ep s))) (mac_abstract (local_ep s)) (seqno (local_ep s)) (snd_plain s d) []
      else [])"

definition snd_cipher :: "session \<Rightarrow> byte list \<Rightarrow> bool \<times> abstract_state \<times> byte list" where
  "snd_cipher s d =
     (if encrypted s
      then crypt_blocks (cm_crypt (the (crypt (local_ep s)))) (snd_bs s) (crypt_abstract (local_ep s)) (snd_plain s d)
      else (True, crypt_abstract (local_ep s), snd_plain s d))"

definition snd_wire :: "session \<Rightarrow> byte list \<Rightarrow> byte list" where
  "snd_wire s d = snd (snd (snd_cipher s d)) @ snd_mac s d"

definition snd_endpoint :: "session \<Rightarrow> byte list \<Rightarrow> endpoint" where
  "snd_endpoint s d = (local_ep s)\<lparr>crypt_abstract := fst (snd (snd_cipher s d)),
     seqno := seqno (local_ep s) + 1\<rparr>"

text \<open>What the sender needs of the session.\<close>

definition sender_ok :: "session \<Rightarrow> bool" where
  "sender_ok s \<longleftrightarrow> sends_alive s \<and>
     (encrypted s \<longrightarrow>
       (\<exists>cm mm pm. crypt (local_ep s) = Some cm \<and> mac (local_ep s) = Some mm \<and>
          comp (local_ep s) = Some pm \<and> \<not> pm_compress pm \<and>
          8 \<le> blocksize cm \<and> blocksize cm \<le> MAX_BLOCKSIZE \<and> block_preserving (cm_crypt cm) \<and>
          mac_len mm \<le> 64 \<and> (\<forall>ab q p a. length (mm_hash mm ab q p a) = mac_len mm)))"

lemma snd_bs_bounds: "sender_ok s \<Longrightarrow> 8 \<le> snd_bs s \<and> snd_bs s \<le> MAX_BLOCKSIZE"
  by (auto simp: sender_ok_def snd_bs_def)

lemma length_snd_padding [simp]: "length (snd_padding s d) = padding_for (snd_bs s) (length d)"
  by (simp add: snd_padding_def)

lemma length_snd_plain: "length (snd_plain s d) = length d + 5 + padding_for (snd_bs s) (length d)"
  by (simp add: snd_plain_def)

lemma plain_packet_header:
  "plain_packet (length d + 1 + 4 + length r) d r =
     packet_header (length d + length r) (word_of_nat (length r)) @ d @ r"
  by (simp add: plain_packet_def packet_header_def add.commute add.left_commute)

lemma length_snd_wire:
  assumes "sender_ok s"
  shows "length (snd_wire s d) = length (snd_plain s d) + (if encrypted s then mac_len (the (mac (local_ep s))) else 0)"
proof (cases "encrypted s")
  case True
  with assms obtain cm mm where c: "crypt (local_ep s) = Some cm" "mac (local_ep s) = Some mm"
    "block_preserving (cm_crypt cm)" "\<forall>ab q p a. length (mm_hash mm ab q p a) = mac_len mm"
    by (auto simp: sender_ok_def)
  have "length (snd (snd (snd_cipher s d))) = length (snd_plain s d)"
    using length_crypt_blocks [OF c(3)] True c(1)
    by (metis option.sel prod.collapse snd_cipher_def)
  then show ?thesis using True c by (simp add: snd_wire_def snd_mac_def)
next
  case False
  then show ?thesis by (simp add: snd_wire_def snd_cipher_def snd_mac_def)
qed

lemma libssh2_random_pair:
  "libssh2_random s n = (fst (libssh2_random s n), s\<lparr>env := (env s)\<lparr>randoms := drop n (randoms (env s))\<rparr>\<rparr>)"
  by (simp add: libssh2_random_def)

text \<open>The first call, with no packet pending: the packet is built and handed to the socket.\<close>

lemma transport_send_first:
  assumes ok: "sender_ok s" and idle: "olen (packet s) = 0" and fit: "length data + length (case data2 of None \<Rightarrow> [] | Some d2 \<Rightarrow> d2) < MAX_SSH_PACKET_LEN - 0x100"
    and d: "d = data @ (case data2 of None \<Rightarrow> [] | Some d2 \<Rightarrow> d2)" and cip: "fst (snd_cipher s d)"
  shows "\<exists>t. libssh2_transport_send s daddr data data2 = Some (send_new t daddr (length data) (length (snd_wire s d))) \<and>
     local_ep t = snd_endpoint s d \<and> sstate t = sstate s \<and> outbuf (packet t) = snd_wire s d \<and>
     sends (env t) = sends (env s) \<and> wire_out (env t) = wire_out (env s)"
proof -
  let ?s = "clear_direction LIBSSH2_SESSION_BLOCK_OUTBOUND s"
  let ?n = "padding_for (snd_bs s) (length d)"
  let ?m = "if encrypted s then mac_len (the (mac (local_ep s))) else 0"
  let ?t0 = "?s\<lparr>env := (env s)\<lparr>randoms := drop ?n (randoms (env s))\<rparr>\<rparr>"
  define t where "t = ?t0\<lparr>local_ep := snd_endpoint s d, packet := (packet s)\<lparr>outbuf := snd_wire s d\<rparr>\<rparr>"
  have bs: "(if state_has s LIBSSH2_STATE_NEWKEYS then map_option blocksize (crypt (local_ep s)) else Some 8)
      = Some (snd_bs s)"
    using ok by (auto simp: sender_ok_def snd_bs_def encrypted_def)
  have ex: "send_existing s daddr (length data) = (LIBSSH2_ERROR_NONE, False, s)"
    using idle by (simp add: send_existing_def)
  have pay: "send_payload ?s (state_has s LIBSSH2_STATE_NEWKEYS) data data2 = Some (Inr (d, ?s))"
    using ok fit d by (auto simp: sender_ok_def send_payload_def encrypted_def Let_def)
  have mlen: "(if state_has s LIBSSH2_STATE_NEWKEYS then map_option mac_len (mac (local_ep ?s)) else Some 0) = Some ?m"
    using ok by (auto simp: sender_ok_def encrypted_def)
  have m64: "?m \<le> 64" using ok by (auto simp: sender_ok_def)
  have rnd: "libssh2_random ?s ?n = (snd_padding s d, ?t0)"
    by (simp add: snd_padding_def libssh2_random_def)
  have len: "length (snd_wire s d) = length d + 1 + 4 + ?n + ?m"
    unfolding length_snd_wire [OF ok] length_snd_plain by simp
  have small: "\<not> (snd_bs s = 0 \<or> length d + 1 + 4 + ?n + ?m > MAX_SSH_PACKET_LEN)"
    using snd_bs_bounds [OF ok] padding_for_bounds(2) [of "snd_bs s" "length d"] fit d m64 by auto
  have plain: "plain_packet (length d + 1 + 4 + ?n) d (snd_padding s d) = snd_plain s d"
    using plain_packet_header [of d "snd_padding s d"] by (simp add: snd_plain_def)
  obtain out s5 where seal: "(if state_has s LIBSSH2_STATE_NEWKEYS then seal_packet ?t0 (snd_plain s d)
       else Some (Inr (snd_plain s d, ?t0))) = Some (Inr (out, s5))"
    and s5: "s5\<lparr>packet := (packet s5)\<lparr>outbuf := out\<rparr>,
            local_ep := (local_ep s5)\<lparr>seqno := seqno (local_ep s5) + 1\<rparr>\<rparr> = t"
  proof (cases "encrypted s")
    case True
    with ok obtain cm mm where c: "crypt (local_ep s) = Some cm" "mac (local_ep s) = Some mm"
      by (auto simp: sender_ok_def)
    obtain ab enc where e: "crypt_blocks (cm_crypt cm) (snd_bs s) (crypt_abstract (local_ep s)) (snd_plain s d)
        = (True, ab, enc)" using cip True c by (cases "snd_cipher s d") (auto simp: snd_cipher_def)
    have b: "blocksize cm = snd_bs s" using True c by (simp add: snd_bs_def)
    have "seal_packet ?t0 (snd_plain s d) = Some (Inr (snd_wire s d,
        ?t0\<lparr>local_ep := (local_ep s)\<lparr>crypt_abstract := ab\<rparr>\<rparr>))"
      using True c e b by (simp add: seal_packet_def snd_wire_def snd_mac_def snd_cipher_def Let_def)
    then show ?thesis using True e c
      by (intro that) (auto simp: encrypted_def t_def snd_endpoint_def snd_cipher_def)
  next
    case False
    then show ?thesis by (intro that)
        (auto simp: encrypted_def t_def snd_endpoint_def snd_cipher_def snd_wire_def snd_mac_def)
  qed
  have "libssh2_transport_send s daddr data data2 = Some (send_new t daddr (length data) (length (snd_wire s d)))"
    unfolding libssh2_transport_send_def send_packet_def Let_def bs ex
    using small by (simp only: Option.bind.bind_lunit prod.case if_False simp_thms pay sum.case mlen rnd plain seal s5 len)
  then show ?thesis by (intro exI [of _ t]) (simp add: t_def clear_direction_def)
qed

lemma pending_completes:
  assumes "pending_send ep st daddr (length data) w0 wire s" "data \<noteq> []"
    "st AND LIBSSH2_STATE_NEWKEYS \<noteq> 0 \<longrightarrow> crypt ep \<noteq> None"
  shows "\<exists>s'. transport_sends daddr data data2 s s' \<and> all_sent ep st w0 wire s'"
  using assms
proof (induction "length (sends (env s))" arbitrary: s rule: less_induct)
  case less
  from pending_step [OF less.prems, of data2] show ?case
  proof (elim disjE exE conjE)
    fix s' assume "libssh2_transport_send s daddr data data2 = Some (LIBSSH2_ERROR_NONE, s')"
      "all_sent ep st w0 wire s'"
    then show ?thesis using sends_done by blast
  next
    fix s' assume s': "libssh2_transport_send s daddr data data2 = Some (LIBSSH2_ERROR_EAGAIN, s')"
      "pending_send ep st daddr (length data) w0 wire s'"
      "length (sends (env s')) < length (sends (env s))"
    from less.hyps [OF s'(3,2) less.prems(2,3)] show ?thesis using sends_again [OF s'(1)] by blast
  qed
qed

lemma send_new_outcome:
  assumes "outbuf (packet t) = wire" "wire \<noteq> []" "sends_alive t"
  shows "(\<exists>s'. send_new t daddr n (length wire) = (LIBSSH2_ERROR_NONE, s') \<and>
            all_sent (local_ep t) (sstate t) (wire_out (env t)) wire s') \<or>
         (\<exists>s'. send_new t daddr n (length wire) = (LIBSSH2_ERROR_EAGAIN, s') \<and>
            pending_send (local_ep t) (sstate t) daddr n (wire_out (env t)) wire s')"
proof (cases rule: libssh2_send_cases [OF assms(3), of wire])
  case (1 s')
  then show ?thesis using assms by (auto simp: send_new_def pending_send_def sends_alive_def)
next
  case (2 k s')
  then show ?thesis using assms
    by (cases "k = length wire") (auto simp: send_new_def pending_send_def all_sent_def sends_alive_def)
qed

text \<open>The first call either sends the packet or leaves the rest of it pending.\<close>

lemma transport_send_outcome:
  assumes ok: "sender_ok s" and idle: "olen (packet s) = 0"
    and d: "d = data @ (case data2 of None \<Rightarrow> [] | Some d2 \<Rightarrow> d2)"
    and fit: "length d < MAX_SSH_PACKET_LEN - 0x100" and cip: "fst (snd_cipher s d)"
  shows "(\<exists>s'. libssh2_transport_send s daddr data data2 = Some (LIBSSH2_ERROR_NONE, s') \<and>
        all_sent (snd_endpoint s d) (sstate s) (wire_out (env s)) (snd_wire s d) s') \<or>
      (\<exists>s'. libssh2_transport_send s daddr data data2 = Some (LIBSSH2_ERROR_EAGAIN, s') \<and>
        pending_send (snd_endpoint s d) (sstate s) daddr (length data) (wire_out (env s)) (snd_wire s d) s')"
proof -
  from transport_send_first [OF ok idle _ d cip, of daddr] fit d
  obtain t where t: "libssh2_transport_send s daddr data data2 =
      Some (send_new t daddr (length data) (length (snd_wire s d)))"
    "local_ep t = snd_endpoint s d" "sstate t = sstate s" "outbuf (packet t) = snd_wire s d"
    "sends (env t) = sends (env s)" "wire_out (env t) = wire_out (env s)" by auto
  have "snd_wire s d \<noteq> []"
    using length_snd_wire [OF ok, of d] length_snd_plain [of s d] by auto
  moreover have "sends_alive t" using ok t(5) by (simp add: sender_ok_def sends_alive_def)
  ultimately show ?thesis using send_new_outcome [OF t(4)] t by simp
qed

text \<open>Every send is completed, and what reaches the wire is exactly the packet, whatever pieces the
  socket accepts.\<close>

lemma transport_sends_packet:
  assumes ok: "sender_ok s" and idle: "olen (packet s) = 0" and ne: "data \<noteq> []"
    and d: "d = data @ (case data2 of None \<Rightarrow> [] | Some d2 \<Rightarrow> d2)"
    and fit: "length d < MAX_SSH_PACKET_LEN - 0x100" and cip: "fst (snd_cipher s d)"
  obtains s' where "transport_sends daddr data data2 s s'"
    "all_sent (snd_endpoint s d) (sstate s) (wire_out (env s)) (snd_wire s d) s'"
  using transport_send_outcome [OF ok idle d fit cip, of daddr]
proof (elim disjE exE conjE)
  fix s' assume "libssh2_transport_send s daddr data data2 = Some (LIBSSH2_ERROR_NONE, s')"
    "all_sent (snd_endpoint s d) (sstate s) (wire_out (env s)) (snd_wire s d) s'"
  then show ?thesis using sends_done that by metis
next
  fix s' assume s': "libssh2_transport_send s daddr data data2 = Some (LIBSSH2_ERROR_EAGAIN, s')"
    "pending_send (snd_endpoint s d) (sstate s) daddr (length data) (wire_out (env s)) (snd_wire s d) s'"
  have "sstate s AND LIBSSH2_STATE_NEWKEYS \<noteq> 0 \<longrightarrow> crypt (snd_endpoint s d) \<noteq> None"
    using ok by (auto simp: sender_ok_def encrypted_def state_has_def snd_endpoint_def)
  from pending_completes [OF s'(2) ne this, of data2] obtain s''
    where "transport_sends daddr data data2 s' s''"
      "all_sent (snd_endpoint s d) (sstate s) (wire_out (env s)) (snd_wire s d) s''" by auto
  then show ?thesis using sends_again s'(1) that by metis
qed

lemma transport_sends_deterministic:
  "transport_sends daddr data data2 s s1 \<Longrightarrow> transport_sends daddr data data2 s s2 \<Longrightarrow> s1 = s2"
proof (induction arbitrary: s2 rule: transport_sends.induct)
  case (sends_done s s')
  from sends_done(2) show ?case by (rule transport_sendsE) (use sends_done(1) in simp_all)
next
  case (sends_again s s1 s')
  from sends_again(4) have "transport_sends daddr data data2 s1 s2"
    by (rule transport_sendsE) (use sends_again(1) in simp_all)
  then show ?case by (rule sends_again(3))
qed

section \<open>Two ends in step\<close>

text \<open>The sending side of one session and the receiving side of another use the same keys: the
  ciphers match, the MAC is one of the table with the same key, and so are the sequence numbers.\<close>

definition in_step ::
  "crypto \<Rightarrow> (abstract_state \<Rightarrow> abstract_state \<Rightarrow> bool) \<Rightarrow> session \<Rightarrow> session \<Rightarrow> bool" where
  "in_step c R a b \<longleftrightarrow>
     encrypted a = encrypted b \<and> seqno (local_ep a) = seqno (remote_ep b) \<and>
     (encrypted a \<longrightarrow>
       (\<exists>ca cb mm. crypt (local_ep a) = Some ca \<and> crypt (remote_ep b) = Some cb \<and>
          blocksize ca = blocksize cb \<and> 8 \<le> blocksize ca \<and> blocksize ca \<le> MAX_BLOCKSIZE \<and>
          block_preserving (cm_crypt ca) \<and> block_preserving (cm_crypt cb) \<and>
          ciphers_match R (blocksize ca) (cm_crypt ca) (cm_crypt cb) \<and>
          R (crypt_abstract (local_ep a)) (crypt_abstract (remote_ep b)) \<and>
          mac (local_ep a) = Some mm \<and> mac (remote_ep b) = Some mm \<and>
          mm \<in> set (libssh2_mac_methods c) \<and> hmac_lengths c \<and>
          mac_abstract (local_ep a) = mac_abstract (remote_ep b)))"

lemma mac_hash_append:
  "mm \<in> set (libssh2_mac_methods c) \<Longrightarrow> mm_hash mm ab q (p @ r) [] = mm_hash mm ab q p r"
  by (auto simp: libssh2_mac_methods_def mac_method_hmac_sha1_hash_def
      mac_method_hmac_sha1_96_hash_def mac_method_hmac_md5_hash_def mac_method_hmac_md5_96_hash_def
      mac_method_hmac_ripemd160_hash_def)

lemma mac_len_bounds: "mm \<in> set (libssh2_mac_methods c) \<Longrightarrow> 0 < mac_len mm \<and> mac_len mm \<le> 64"
  by (auto simp: libssh2_mac_methods_def)

text \<open>What the reader does with the answer of \<^verbatim>\<open>_libssh2_packet_add\<close>.\<close>

definition finish_read :: "bool \<Rightarrow> int \<times> session \<Rightarrow> int \<times> session" where
  "finish_read e r =
     (case r of (rc, s) \<Rightarrow>
       if rc = 0 then (int (unat (fullpacket_packet_type s)),
          s\<lparr>fullpacket_state := NB_idle, packet := (packet s)\<lparr>total_num := 0\<rparr>\<rparr>)
       else if rc = LIBSSH2_ERROR_EAGAIN then
         (rc, if packAdd_state s \<noteq> NB_idle
              then s\<lparr>readPack_encrypted := e, readPack_state := NB_jump1\<rparr> else s)
       else (rc, s\<lparr>packet := (packet s)\<lparr>total_num := 0\<rparr>\<rparr>))"

lemma read_point1_created:
  assumes "(if fullpacket_state s = NB_idle then fullpacket_decode s e else Some (Inr s)) = Some (Inr s1)"
    "fullpacket_state s1 = NB_created"
  shows "read_point1 padd s e = map_option (finish_read e)
     (padd s1 (payload (packet s1)) (fullpacket_payload_len s1) (fullpacket_macstate s1))"
proof (cases "padd s1 (payload (packet s1)) (fullpacket_payload_len s1) (fullpacket_macstate s1)")
  case None
  then show ?thesis unfolding read_point1_def fullpacket_def assms(1) by (simp add: assms(2))
next
  case (Some r)
  obtain rc s2 where r: "r = (rc, s2)" by force
  have f: "fullpacket padd s e = Some (if rc \<noteq> 0 then (rc, s2)
      else (int (unat (fullpacket_packet_type s2)), s2\<lparr>fullpacket_state := NB_idle\<rparr>))"
    unfolding fullpacket_def assms(1) by (simp add: assms(2) Some r)
  have "int (unat (fullpacket_packet_type s2)) \<noteq> LIBSSH2_ERROR_EAGAIN" by linarith
  then show ?thesis unfolding read_point1_def f Some r by (simp add: finish_read_def)
qed

text \<open>The reader collects the packet at the head of the stream.\<close>

lemma transport_read_collects:
  assumes ok: "reader_ok b" and tot: "total_num (packet b) = 0"
    and q: "quiet b" and al: "allocs (env b) = []"
    and arr: "arriving b pad body macb rest ab"
  obtains b1 s where "polls kx padd b b1"
    "libssh2_transport_read kx padd b1 = read_point1 padd s (encrypted s)"
    "collected (opened b (length body) pad) (body @ macb) ab rest s"
proof -
  let ?c = "clear_direction LIBSSH2_SESSION_BLOCK_INBOUND b"
  have v: "reader_view ?c = reader_view b" by simp
  obtain s where s: "rounds ?c s" "collected (opened ?c (length body) pad) (body @ macb) ab rest s"
    using rounds_packet [OF _ arriving_cong [OF arr v]] ok tot al q quiet_cong [OF v] by auto
  then have "collected (opened b (length body) pad) (body @ macb) ab rest s"
    using opened_cong [OF v] by (simp add: collected_def)
  then show ?thesis using that rounds_transport_read [OF s(1)] by metis
qed

text \<open>What a collected packet leaves of the session it arrived in.\<close>

lemma collected_fields:
  assumes "collected (opened b n pad) fin ab rest s"
  shows "packet_length (packet s) = word_of_nat (n + 1)" "padding_length (packet s) = pad"
    "fullpacket_state s = fullpacket_state b" "comp (remote_ep s) = comp (remote_ep b)"
    "mac (remote_ep s) = mac (remote_ep b)" "mac_abstract (remote_ep s) = mac_abstract (remote_ep b)"
    "seqno (remote_ep s) = seqno (remote_ep b)" "encrypted s = encrypted b" "rd_mac s = rd_mac b"
    "init5 (packet s) = (if encrypted b then packet_header n pad else init5 (packet b))"
    "fullpacket_macstate s = fullpacket_macstate b" "fullpacket_payload_len s = fullpacket_payload_len b"
    "packAdd_state s = packAdd_state b" "packets s = packets b" "channels s = channels b"
    "sstate s = sstate b" "readPack_state s = readPack_state b" "socket_state s = socket_state b"
    "allocs (env s) = allocs (env b)"
proof -
  have v: "reader_view s = reader_view (opened b n pad)" using assms by (simp add: collected_def)
  note d = arg_cong [OF v]
  show "packet_length (packet s) = word_of_nat (n + 1)" "padding_length (packet s) = pad"
    "fullpacket_state s = fullpacket_state b" "comp (remote_ep s) = comp (remote_ep b)"
    "mac (remote_ep s) = mac (remote_ep b)" "mac_abstract (remote_ep s) = mac_abstract (remote_ep b)"
    "seqno (remote_ep s) = seqno (remote_ep b)"
    "init5 (packet s) = (if encrypted b then packet_header n pad else init5 (packet b))"
    "fullpacket_macstate s = fullpacket_macstate b" "fullpacket_payload_len s = fullpacket_payload_len b"
    "packAdd_state s = packAdd_state b" "packets s = packets b" "channels s = channels b"
    "sstate s = sstate b" "readPack_state s = readPack_state b" "socket_state s = socket_state b"
    "allocs (env s) = allocs (env b)"
    using d [of "\<lambda>x. packet_length (packet x)"] d [of "\<lambda>x. padding_length (packet x)"] d [of fullpacket_state]
      d [of "\<lambda>x. comp (remote_ep x)"] d [of "\<lambda>x. mac (remote_ep x)"] d [of "\<lambda>x. mac_abstract (remote_ep x)"]
      d [of "\<lambda>x. seqno (remote_ep x)"] d [of "\<lambda>x. init5 (packet x)"] d [of fullpacket_macstate]
      d [of fullpacket_payload_len] d [of packAdd_state] d [of packets] d [of channels] d [of sstate]
      d [of readPack_state] d [of socket_state] d [of "\<lambda>x. allocs (env x)"]
    by (simp_all add: reader_view_def opened_def)
  then show "encrypted s = encrypted b" "rd_mac s = rd_mac b"
    by (simp_all add: encrypted_def state_has_def rd_mac_def)
qed

text \<open>The reader hands a packet of the stream to \<^verbatim>\<open>_libssh2_packet_add\<close> with exactly its data.\<close>

lemma transport_read_delivers:
  assumes ok: "reader_ok b" and q: "quiet b" and tot: "total_num (packet b) = 0"
    and idle: "fullpacket_state b = NB_idle" and al: "allocs (env b) = []"
    and nc: "no_decompression (remote_ep b)"
    and arr: "arriving b (word_of_nat (length padding)) (data @ padding) macb rest ab"
    and data: "data \<noteq> []" "length padding < 256"
  obtains b1 s where "polls kx padd b b1"
    "libssh2_transport_read kx padd b1 = map_option (finish_read (encrypted b))
       (padd (decoded s data padding macb) (data @ padding @ macb) (length data)
          (mac_verdict s (data @ padding) macb))"
    "collected (opened b (length (data @ padding)) (word_of_nat (length padding)))
       (data @ padding @ macb) ab rest s"
proof -
  obtain b1 s where s: "polls kx padd b b1"
    "libssh2_transport_read kx padd b1 = read_point1 padd s (encrypted s)"
    "collected (opened b (length (data @ padding)) (word_of_nat (length padding))) ((data @ padding) @ macb) ab rest s"
    by (rule transport_read_collects [OF ok tot q al arr])
  note f = collected_fields [OF s(3)]
  have pl: "payload (packet s) = data @ padding @ macb" using s(3) by (simp add: collected_def)
  have small: "length data + length padding < 2 ^ 31" using arriving_bounds [OF arr] by simp
  have lm: "length macb = rd_mac s" using arr f(9) by (auto simp: arriving_def)
  have mm: "encrypted s \<longrightarrow> mac (remote_ep s) \<noteq> None"
    using s(3) by (auto simp: collected_def reader_ok_def)
  have "no_decompression (remote_ep s)" using nc f(4) by (simp add: no_decompression_def)
  from fullpacket_decode_data [OF pl data(1) _ f(2) data(2) lm mm small this] f(1,3) idle
  have "(if fullpacket_state s = NB_idle then fullpacket_decode s (encrypted s) else Some (Inr s))
      = Some (Inr (decoded s data padding macb))" by simp
  from read_point1_created [OF this, of padd] pl
  have "read_point1 padd s (encrypted s) = map_option (finish_read (encrypted b))
      (padd (decoded s data padding macb) (data @ padding @ macb) (length data)
         (mac_verdict s (data @ padding) macb))"
    using f(8) by (simp add: decoded_def)
  with s show ?thesis by (intro that [of b1 s]) simp_all
qed

text \<open>The wire image of a packet is a packet for the other end.\<close>

lemma snd_cipher_in_step:
  assumes step: "in_step c R a b"
  obtains ab where "fst (snd_cipher a d)" "\<not> encrypted a \<longrightarrow> ab = crypt_abstract (remote_ep b)"
    "encrypted a \<longrightarrow> length (snd (snd (snd_cipher a d))) mod rd_bs b = 0 \<and>
       crypt_blocks (cm_crypt (the (crypt (remote_ep b)))) (rd_bs b) (crypt_abstract (remote_ep b))
         (snd (snd (snd_cipher a d))) = (True, ab, snd_plain a d) \<and>
       R (crypt_abstract (snd_endpoint a d)) ab"
proof (cases "encrypted a")
  case False
  then show ?thesis by (intro that) (auto simp: snd_cipher_def)
next
  case True
  with step obtain ca cb where c: "crypt (local_ep a) = Some ca" "crypt (remote_ep b) = Some cb"
    "blocksize ca = blocksize cb" "ciphers_match R (blocksize ca) (cm_crypt ca) (cm_crypt cb)"
    "R (crypt_abstract (local_ep a)) (crypt_abstract (remote_ep b))" "encrypted b" "8 \<le> blocksize ca"
    by (auto simp: in_step_def)
  have b: "snd_bs a = blocksize ca" "rd_bs b = blocksize ca"
    using True c by (simp_all add: snd_bs_def rd_bs_def)
  have m: "length (snd_plain a d) mod blocksize ca = 0"
    using padding_for_bounds(3) [OF c(7), of "length d"] b by (simp add: length_snd_plain)
  obtain a' b' w where w: "crypt_blocks (cm_crypt ca) (blocksize ca) (crypt_abstract (local_ep a))
      (snd_plain a d) = (True, a', w)" "length w = length (snd_plain a d)"
    "crypt_blocks (cm_crypt cb) (blocksize ca) (crypt_abstract (remote_ep b)) w = (True, b', snd_plain a d)"
    "R a' b'" using ciphers_match_blocks [OF c(4) _ c(5) m] c(7) by auto
  have "snd_cipher a d = (True, a', w)" using True c w(1) b by (simp add: snd_cipher_def)
  then show ?thesis using True c w m b by (intro that [of b']) (simp_all add: snd_endpoint_def)
qed

lemma snd_mac_length:
  assumes "in_step c R a b" shows "length (snd_mac a d) = rd_mac b" "rd_mac b \<le> 64"
  using assms mac_hash_length mac_len_bounds
  by (fastforce simp: in_step_def snd_mac_def rd_mac_def)+

lemma snd_wire_arriving:
  assumes step: "in_step c R a b" and ne: "d \<noteq> []"
    and fit: "length d < MAX_SSH_PACKET_LEN - 0x100" and inp: "input_stream b = snd_wire a d @ rest"
  obtains ab where
    "arriving b (word_of_nat (length (snd_padding a d))) (d @ snd_padding a d) (snd_mac a d) rest ab"
    "encrypted a \<longrightarrow> R (crypt_abstract (snd_endpoint a d)) ab"
proof -
  obtain ab where ab: "\<not> encrypted a \<longrightarrow> ab = crypt_abstract (remote_ep b)"
    "encrypted a \<longrightarrow> length (snd (snd (snd_cipher a d))) mod rd_bs b = 0 \<and>
       crypt_blocks (cm_crypt (the (crypt (remote_ep b)))) (rd_bs b) (crypt_abstract (remote_ep b))
         (snd (snd (snd_cipher a d))) = (True, ab, snd_plain a d) \<and>
       R (crypt_abstract (snd_endpoint a d)) ab"
    by (rule snd_cipher_in_step [OF step, of d])
  have e: "encrypted b = encrypted a" using step by (simp add: in_step_def)
  have "8 \<le> snd_bs a" "snd_bs a \<le> MAX_BLOCKSIZE" using step by (auto simp: in_step_def snd_bs_def)
  with padding_for_bounds(2) [OF this(1), of "length d"]
  have len: "length (d @ snd_padding a d) + rd_mac b \<le> LIBSSH2_PACKET_MAXPAYLOAD"
    using fit snd_mac_length(2) [OF step] by simp
  have "arriving b (word_of_nat (length (snd_padding a d))) (d @ snd_padding a d) (snd_mac a d) rest ab"
    unfolding arriving_def
  proof (intro conjI exI [of _ "snd (snd (snd_cipher a d))"])
    show "input_stream b = snd (snd (snd_cipher a d)) @ snd_mac a d @ rest"
      using inp by (simp add: snd_wire_def)
    show "length (snd_mac a d) = rd_mac b" by (rule snd_mac_length(1) [OF step])
  qed (use ab e ne len in \<open>auto simp: snd_plain_def snd_cipher_def\<close>)
  then show ?thesis using ab by (intro that) auto
qed

section \<open>Properties\<close>

text \<open>A session that can take a packet: nothing half read, no decompression, memory available.\<close>

definition receiver_ready :: "session \<Rightarrow> bool" where
  "receiver_ready b \<longleftrightarrow>
     reader_ok b \<and> quiet b \<and> total_num (packet b) = 0 \<and> fullpacket_state b = NB_idle \<and>
     allocs (env b) = [] \<and> no_decompression (remote_ep b)"

lemma in_step_delivered:
  assumes step: "in_step c R a b" and step': "encrypted a \<longrightarrow> R (crypt_abstract (snd_endpoint a d)) ab"
    and a': "local_ep a' = snd_endpoint a d" "sstate a' = sstate a"
    and col: "collected (opened b n pad) fin ab rest s"
  shows "in_step c R a' (decoded s d p m)"
proof -
  have v: "reader_view s = reader_view (opened b n pad)" using col by (simp add: collected_def)
  have r: "remote_ep s = (remote_ep b)\<lparr>crypt_abstract := ab\<rparr>" "sstate s = sstate b"
  proof -
    have "remote_ep (reader_view s) = remote_ep (reader_view (opened b n pad))"
      "sstate (reader_view s) = sstate (reader_view (opened b n pad))" using v by simp_all
    then have "(remote_ep s)\<lparr>crypt_abstract := []\<rparr> = (remote_ep b)\<lparr>crypt_abstract := []\<rparr>" "sstate s = sstate b"
      by (simp_all add: reader_view_def opened_def)
    moreover have "crypt_abstract (remote_ep s) = ab" using col by (simp add: collected_def)
    ultimately show "remote_ep s = (remote_ep b)\<lparr>crypt_abstract := ab\<rparr>" "sstate s = sstate b"
      by (cases "remote_ep s"; cases "remote_ep b"; simp)+
  qed
  show ?thesis using step step' a' r
    by (auto simp: in_step_def encrypted_def state_has_def decoded_def snd_endpoint_def)
qed

lemma mac_verdict_genuine:
  assumes step: "in_step c R a b"
    and col: "collected (opened b (length (d @ snd_padding a d)) (word_of_nat (length (snd_padding a d)))) fin ab rest s"
  shows "mac_verdict s (d @ snd_padding a d) (snd_mac a d)"
proof (cases "encrypted a")
  case False
  then show ?thesis using collected_fields(8) [OF col] step by (simp add: mac_verdict_def in_step_def)
next
  case True
  note f = collected_fields [OF col]
  from True step obtain mm where m: "mac (local_ep a) = Some mm" "mac (remote_ep b) = Some mm"
    "mm \<in> set (libssh2_mac_methods c)" "hmac_lengths c" "mac_abstract (local_ep a) = mac_abstract (remote_ep b)"
    "seqno (local_ep a) = seqno (remote_ep b)" "encrypted b" by (auto simp: in_step_def)
  have "snd_mac a d = mm_hash mm (mac_abstract (remote_ep s)) (seqno (remote_ep s)) (init5 (packet s)) (d @ snd_padding a d)"
    using True m f mac_hash_append [OF m(3)] by (simp add: snd_mac_def snd_plain_def)
  moreover have "rd_mac s = mac_len mm" using f m by (simp add: rd_mac_def)
  ultimately show ?thesis using f m mac_hash_length [OF m(4,3)] by (simp add: mac_verdict_def)
qed

lemma wire_delivered:
  assumes sender: "sender_ok a" and data: "data \<noteq> []" "length data < MAX_SSH_PACKET_LEN - 0x100"
    and a': "all_sent (snd_endpoint a data) (sstate a) w0 w a'"
    and step: "in_step c R a b" and rdy: "receiver_ready b" and inp: "input_stream b = snd_wire a data @ rest"
  obtains b1 s p m ab where "polls kx padd b b1"
    "libssh2_transport_read kx padd b1 = map_option (finish_read (encrypted b))
       (padd (decoded s data p m) (data @ p @ m) (length data) True)"
    "collected (opened b (length (data @ p)) (word_of_nat (length p))) (data @ p @ m) ab rest s"
    "in_step c R a' (decoded s data p m)"
proof -
  let ?p = "snd_padding a data" and ?m = "snd_mac a data"
  obtain ab where arr: "arriving b (word_of_nat (length ?p)) (data @ ?p) ?m rest ab"
    "encrypted a \<longrightarrow> R (crypt_abstract (snd_endpoint a data)) ab"
    by (rule snd_wire_arriving [OF step data inp])
  have "8 \<le> snd_bs a" "snd_bs a \<le> MAX_BLOCKSIZE" using snd_bs_bounds [OF sender(1)] by simp_all
  then have p256: "length ?p < 256" using padding_for_bounds(2) [of "snd_bs a" "length data"] by simp
  obtain b1 s where d: "polls kx padd b b1"
    "libssh2_transport_read kx padd b1 = map_option (finish_read (encrypted b))
       (padd (decoded s data ?p ?m) (data @ ?p @ ?m) (length data) (mac_verdict s (data @ ?p) ?m))"
    "collected (opened b (length (data @ ?p)) (word_of_nat (length ?p))) (data @ ?p @ ?m) ab rest s"
    using rdy unfolding receiver_ready_def
    by (elim conjE) (rule transport_read_delivers [OF _ _ _ _ _ _ arr(1) data(1) p256])
  have "in_step c R a' (decoded s data ?p ?m)"
    by (rule in_step_delivered [OF step arr(2) _ _ d(3)]) (use a' in \<open>simp_all add: all_sent_def\<close>)
  moreover have "mac_verdict s (data @ ?p) ?m" by (rule mac_verdict_genuine [OF step d(3)])
  ultimately show ?thesis using d that [of b1 s ?p ?m ab] by simp
qed

text \<open>C3. A packet survives the wire. When a session sends a payload, retrying while the socket
  would block, the send completes and puts a sequence of bytes on the wire; for every session
  whose receiving side is in step with it (same cipher and MAC, matching keys and sequence
  numbers, or no encryption yet) and whose input starts with those bytes, cut into any pieces
  with any number of blocked receives in between, repeated calls of the reader end in one call of
  \<^verbatim>\<open>_libssh2_packet_add\<close> with exactly that payload and a confirmed MAC, the rest of the input is
  left unread, and the two sessions are in step again.\<close>

theorem transport_roundtrip:
  assumes sender: "sender_ok a" "olen (packet a) = 0"
    and data: "data \<noteq> []" "length data < MAX_SSH_PACKET_LEN - 0x100"
    and peer: "in_step c R a b0"
  shows "\<exists>a' wire. transport_sends daddr data None a a' \<and> olen (packet a') = 0 \<and>
     wire_out (env a') = wire_out (env a) @ wire \<and>
     (\<forall>b rest. in_step c R a b \<and> receiver_ready b \<and> input_stream b = wire @ rest \<longrightarrow>
       (\<exists>b1 b2. polls kx padd b b1 \<and>
          libssh2_transport_read kx padd b1 = map_option (finish_read (encrypted b))
            (padd b2 (payload (packet b2)) (length data) True) \<and>
          take (length data) (payload (packet b2)) = data \<and> input_stream b2 = rest \<and>
          in_step c R a' b2))"
proof -
  have cip: "fst (snd_cipher a data)" by (rule snd_cipher_in_step [OF peer])
  have d: "data = data @ (case None of None \<Rightarrow> [] | Some d2 \<Rightarrow> d2)" by simp
  obtain a' where a': "transport_sends daddr data None a a'"
    "all_sent (snd_endpoint a data) (sstate a) (wire_out (env a)) (snd_wire a data) a'"
    by (rule transport_sends_packet [OF sender data(1) d data(2) cip])
  have "\<exists>b1 b2. polls kx padd b b1 \<and>
      libssh2_transport_read kx padd b1 = map_option (finish_read (encrypted b))
        (padd b2 (payload (packet b2)) (length data) True) \<and>
      take (length data) (payload (packet b2)) = data \<and> input_stream b2 = rest \<and> in_step c R a' b2"
    if h: "in_step c R a b" "receiver_ready b" "input_stream b = snd_wire a data @ rest" for b rest
  proof -
    obtain b1 s p m ab where w: "polls kx padd b b1"
      "libssh2_transport_read kx padd b1 = map_option (finish_read (encrypted b))
         (padd (decoded s data p m) (data @ p @ m) (length data) True)"
      "collected (opened b (length (data @ p)) (word_of_nat (length p))) (data @ p @ m) ab rest s"
      "in_step c R a' (decoded s data p m)"
      by (rule wire_delivered [OF sender(1) data a'(2) h])
    then have "payload (packet (decoded s data p m)) = data @ p @ m"
      "input_stream (decoded s data p m) = rest"
      by (simp_all add: decoded_def collected_def input_stream_def unread_def)
    with w show ?thesis by (intro exI [of _ b1] exI [of _ "decoded s data p m"]) simp
  qed
  with a' show ?thesis by (intro exI [of _ a'] exI [of _ "snd_wire a data"]) (simp add: all_sent_def)
qed

text \<open>Two ends with a toy library, for concrete runs.\<close>

definition crypto1 :: crypto where
  "crypto1 = \<lparr>cipher_crypt = (\<lambda>k ab d. Some (ab, map (\<lambda>x. x XOR 90) d)),
     hmac_sha1 = (\<lambda>k d. replicate 20 (sum_list d)), hmac_md5 = (\<lambda>k d. replicate 16 (sum_list d)),
     hmac_ripemd160 = (\<lambda>k d. replicate 20 (sum_list d)), zlib = None\<rparr>"

definition endpoint1 :: endpoint where
  "endpoint1 = endpoint0\<lparr>crypt := Some (crypt_blowfish_cbc crypto1),
     mac := Some (hd (libssh2_mac_methods crypto1)), comp := Some comp_method_none\<rparr>"

definition session1 :: "env \<Rightarrow> session" where
  "session1 e = (session_cleared e)\<lparr>sstate := LIBSSH2_STATE_NEWKEYS, local_ep := endpoint1,
     remote_ep := endpoint1\<rparr>"

lemma hmac_lengths_crypto1: "hmac_lengths crypto1"
  by (simp add: hmac_lengths_def crypto1_def)

lemma encrypted_session1 [simp]: "encrypted (session1 e)"
  by (simp add: encrypted_def state_has_def session1_def)

lemma session1_fields [simp]:
  "env (session1 e) = e" "packet (session1 e) = transportpacket0" "local_ep (session1 e) = endpoint1"
  "remote_ep (session1 e) = endpoint1" "socket_state (session1 e) = 0"
  "fullpacket_state (session1 e) = NB_idle" "readPack_state (session1 e) = NB_idle"
  "sstate (session1 e) = LIBSSH2_STATE_NEWKEYS"
  by (simp_all add: session1_def session_cleared_def)

lemma endpoint1_fields [simp]:
  "crypt endpoint1 = Some (crypt_blowfish_cbc crypto1)"
  "mac endpoint1 = Some (hd (libssh2_mac_methods crypto1))" "comp endpoint1 = Some comp_method_none"
  "crypt_abstract endpoint1 = []" "mac_abstract endpoint1 = []" "seqno endpoint1 = 0"
  by (simp_all add: endpoint1_def endpoint0_def)

lemma mac1: "hd (libssh2_mac_methods crypto1) \<in> set (libssh2_mac_methods crypto1)"
  by (simp add: libssh2_mac_methods_def)

lemma cipher1:
  "blocksize (crypt_blowfish_cbc crypto1) = 8"
  "cm_crypt (crypt_blowfish_cbc crypto1) = (\<lambda>ab d. Some (ab, map (\<lambda>x. x XOR 90) d))"
  by (simp_all add: crypt_blowfish_cbc_def crypto1_def)

lemma sender_ok1: "\<forall>r\<in>set (sends e). 0 \<le> r \<or> r = - EAGAIN \<Longrightarrow> sender_ok (session1 e)"
  using mac_hash_length [OF hmac_lengths_crypto1 mac1] mac_len_bounds [OF mac1]
  by (simp add: sender_ok_def sends_alive_def cipher1 block_preserving_def comp_method_none_def)

lemma reader_ok1: "\<forall>r\<in>set (recvs e). recv_alive r \<Longrightarrow> reader_ok (session1 e)"
  using mac_len_bounds [OF mac1]
  by (simp add: reader_ok_def cipher1 block_preserving_def transportpacket0_def)

lemma in_step1: "in_step crypto1 (=) (session1 e) (session1 f)"
  using mac1 hmac_lengths_crypto1
  by (auto simp: in_step_def cipher1 block_preserving_def ciphers_match_def map_idI
      xor.assoc comp_def)

theorem transport_roundtrip_witness:
  "\<exists>a' wire. transport_sends 1 (cstr ''hello'') None
       (session1 (env0\<lparr>sends := [3, - 11, 0, 7]\<rparr>)) a' \<and> olen (packet a') = 0 \<and>
     wire_out (env a') = wire_out (env (session1 (env0\<lparr>sends := [3, - 11, 0, 7]\<rparr>))) @ wire \<and>
     (\<forall>b rest. in_step crypto1 (=) (session1 (env0\<lparr>sends := [3, - 11, 0, 7]\<rparr>)) b \<and>
         receiver_ready b \<and> input_stream b = wire @ rest \<longrightarrow>
       (\<exists>b1 b2. polls (\<lambda>s. None) (\<lambda>s d n m. Some (0, s)) b b1 \<and>
          libssh2_transport_read (\<lambda>s. None) (\<lambda>s d n m. Some (0, s)) b1 =
            map_option (finish_read (encrypted b)) (Some (0, b2)) \<and>
          take (length (cstr ''hello'')) (payload (packet b2)) = cstr ''hello'' \<and>
          input_stream b2 = rest \<and>
          in_step crypto1 (=) a' b2))"
  by (rule transport_roundtrip [OF sender_ok1 _ _ _ in_step1])
    (simp_all add: env0_def transportpacket0_def)

text \<open>C17. A packet that was altered on the way is never confirmed. When the MAC that follows an
  encrypted packet is not the MAC of the decrypted packet under the receiver's key and sequence
  number, repeated calls of the reader end in a call of \<^verbatim>\<open>_libssh2_packet_add\<close> that reports the
  MAC as invalid.\<close>

theorem transport_forged_mac:
  assumes rdy: "receiver_ready b" and enc: "encrypted b"
    and arr: "arriving b (word_of_nat (length padding)) (data @ padding) macb rest ab"
    and data: "data \<noteq> []" "length padding < 256"
    and forged: "macb \<noteq> take (rd_mac b) (mm_hash (the (mac (remote_ep b))) (mac_abstract (remote_ep b))
        (seqno (remote_ep b))
        (packet_header (length (data @ padding)) (word_of_nat (length padding))) (data @ padding))"
  shows "\<exists>b1 b2. polls kx padd b b1 \<and> fullpacket_macstate b2 = False \<and>
     libssh2_transport_read kx padd b1 =
       map_option (finish_read True) (padd b2 (data @ padding @ macb) (length data) False)"
proof -
  obtain b1 s where d: "polls kx padd b b1"
    "libssh2_transport_read kx padd b1 = map_option (finish_read (encrypted b))
       (padd (decoded s data padding macb) (data @ padding @ macb) (length data)
          (mac_verdict s (data @ padding) macb))"
    "collected (opened b (length (data @ padding)) (word_of_nat (length padding)))
       (data @ padding @ macb) ab rest s"
    using rdy unfolding receiver_ready_def
    by (elim conjE) (rule transport_read_delivers [OF _ _ _ _ _ _ arr data])
  have "\<not> mac_verdict s (data @ padding) macb"
    using forged enc collected_fields [OF d(3)] by (simp add: mac_verdict_def)
  with d(1,2) enc show ?thesis
    by (intro exI [of _ b1] exI [of _ "decoded s data padding macb"]) (simp add: decoded_def)
qed

text \<open>C22. Layout of a packet on the wire. For a payload below the limit, the padding has at least
  four bytes and at most three more than a block, the packet without its MAC is a whole number of
  blocks, and packet and MAC fit the output buffer; on a plain connection the packet is its
  length, its padding length, the payload and the padding. A payload at the limit is refused and
  nothing is sent.\<close>

theorem transport_send_layout:
  assumes ok: "sender_ok s" and idle: "olen (packet s) = 0"
    and cip: "fst (snd_cipher s data)"
  shows "if length data \<ge> MAX_SSH_PACKET_LEN - 0x100
     then libssh2_transport_send s daddr data None =
       Some (LIBSSH2_ERROR_INVAL, clear_direction LIBSSH2_SESSION_BLOCK_OUTBOUND s)
     else \<exists>rc s' pad out. libssh2_transport_send s daddr data None = Some (rc, s') \<and>
       outbuf (packet s') = out \<and> length out \<le> MAX_SSH_PACKET_LEN \<and>
       4 \<le> length pad \<and> length pad \<le> snd_bs s + 3 \<and>
       (5 + length data + length pad) mod snd_bs s = 0 \<and>
       length out = 5 + length data + length pad + (if encrypted s then mac_len (the (mac (local_ep s))) else 0) \<and>
       (\<not> encrypted s \<longrightarrow> out = libssh2_htonu32 (word_of_nat (1 + length data + length pad))
          @ [word_of_nat (length pad)] @ data @ pad)"
proof (cases "length data \<ge> MAX_SSH_PACKET_LEN - 0x100")
  case True
  have "(if state_has s LIBSSH2_STATE_NEWKEYS then map_option blocksize (crypt (local_ep s)) else Some 8)
      = Some (snd_bs s)" using ok by (auto simp: sender_ok_def snd_bs_def encrypted_def)
  moreover have "send_payload (clear_direction LIBSSH2_SESSION_BLOCK_OUTBOUND s) (state_has s LIBSSH2_STATE_NEWKEYS)
      data None = Some (Inl (LIBSSH2_ERROR_INVAL, clear_direction LIBSSH2_SESSION_BLOCK_OUTBOUND s))"
    using ok True by (auto simp: sender_ok_def send_payload_def encrypted_def Let_def)
  ultimately show ?thesis using True idle
    by (simp add: libssh2_transport_send_def Let_def send_existing_def)
next
  case False
  have d: "data = data @ (case None of None \<Rightarrow> [] | Some d2 \<Rightarrow> d2)" by simp
  obtain t where t: "libssh2_transport_send s daddr data None =
      Some (send_new t daddr (length data) (length (snd_wire s data)))"
    "outbuf (packet t) = snd_wire s data"
    using transport_send_first [OF ok idle _ d cip] False by auto
  have out: "outbuf (packet (snd (send_new t daddr n m))) = outbuf (packet t)" for n m
    by (auto simp: send_new_def libssh2_send_def Let_def split: list.splits)
  have bs: "8 \<le> snd_bs s" "snd_bs s \<le> MAX_BLOCKSIZE" using snd_bs_bounds [OF ok] by simp_all
  have m: "(if encrypted s then mac_len (the (mac (local_ep s))) else 0) \<le> 64"
    using ok by (auto simp: sender_ok_def)
  have "\<exists>rc s'. libssh2_transport_send s daddr data None = Some (rc, s') \<and> outbuf (packet s') = snd_wire s data"
    using t out [of "length data" "length (snd_wire s data)"]
    by (cases "send_new t daddr (length data) (length (snd_wire s data))") simp
  then obtain rc s' where r: "libssh2_transport_send s daddr data None = Some (rc, s')"
    "outbuf (packet s') = snd_wire s data" by blast
  have plain: "\<not> encrypted s \<Longrightarrow> snd_wire s data = libssh2_htonu32 (word_of_nat (1 + length data + length (snd_padding s data)))
      @ [word_of_nat (length (snd_padding s data))] @ data @ snd_padding s data"
    by (simp add: snd_wire_def snd_cipher_def snd_mac_def snd_plain_def packet_header_def)
  show ?thesis unfolding if_not_P [OF False]
    using r plain padding_for_bounds [OF bs(1), of "length data"] bs(2) False m length_snd_wire [OF ok, of data]
    by (intro exI [of _ rc] exI [of _ s'] exI [of _ "snd_padding s data"] exI [of _ "snd_wire s data"] conjI)
      (simp_all add: length_snd_plain add.commute add.left_commute)
qed

text \<open>C38. A pending packet is finished before anything else: while one is pending, a call with other
  data is refused as misuse without any effect; a call with the same data continues it, and when
  the socket fails the error is reported and the packet stays pending.\<close>

theorem transport_send_pending:
  assumes pend: "olen (packet s) \<noteq> 0" and cr: "encrypted s \<longrightarrow> crypt (local_ep s) \<noteq> None"
  shows "(daddr \<noteq> odata (packet s) \<or> length data \<noteq> olen (packet s) \<longrightarrow>
            libssh2_transport_send s daddr data data2 = Some (LIBSSH2_ERROR_BAD_USE, s)) \<and>
         (daddr = odata (packet s) \<and> length data = olen (packet s) \<and>
            sends (env s) = e # es \<and> e < 0 \<and> e \<noteq> - EAGAIN \<longrightarrow>
            libssh2_transport_send s daddr data data2 =
              Some (LIBSSH2_ERROR_SOCKET_SEND, s\<lparr>env := (env s)\<lparr>sends := es\<rparr>\<rparr>))"
proof -
  obtain bs where "(if state_has s LIBSSH2_STATE_NEWKEYS then map_option blocksize (crypt (local_ep s))
      else Some 8) = Some bs"
    using cr by (cases "encrypted s") (auto simp: encrypted_def)
  then show ?thesis using pend
    by (auto simp: libssh2_transport_send_def send_existing_def libssh2_send_def Let_def)
qed

lemma arriving1:
  "arriving (session1 (env0\<lparr>recvs := [Received (map (\<lambda>x. x XOR 90) (packet_header 11 5 @ replicate 11 7) @ replicate 20 0)]\<rparr>))
     (word_of_nat (length (replicate 5 (7 :: byte)))) (replicate 6 7 @ replicate 5 7) (replicate 20 0) [] []"
proof -
  have i: "(\<lambda>x. x XOR 90) \<circ> (\<lambda>x :: byte. x XOR 90) = id" by (simp add: fun_eq_iff xor.assoc)
  have c: "crypt_blocks (\<lambda>ab d. Some (ab, map (\<lambda>x. x XOR 90) d)) 8 ab (map (\<lambda>x. x XOR 90) d) = (True, ab, d)"
    if "length d mod 8 = 0" for ab :: abstract_state and d :: "byte list"
    using that
  proof (induction d arbitrary: ab rule: length_induct)
    case (1 d)
    show ?case
    proof (cases "d = []")
      case False
      with 1(2) have "8 \<le> length d" by (cases "length d < 8") auto
      then show ?thesis using 1(1)[rule_format, of "drop 8 d" ab] 1(2)
        by (simp add: crypt_blocks.simps [of _ _ _ "map _ d"] take_map drop_map i le_mod_geq)
    qed simp
  qed
  show ?thesis
    unfolding arriving_def
    by (rule conjI, rule exI [of _ "map (\<lambda>x. x XOR 90) (packet_header 11 5 @ replicate 11 7)"])
      (simp_all add: input_stream_def unread_def transportpacket0_def env0_def rd_mac_def rd_bs_def
        cipher1 c [of "packet_header 11 5 @ replicate 11 7" "[]", simplified] libssh2_mac_methods_def
        flip: replicate_add)
qed

lemma receiver_ready1: "\<forall>r\<in>set (recvs e). recv_alive r \<Longrightarrow> allocs e = [] \<Longrightarrow> receiver_ready (session1 e)"
  using reader_ok1 [of e]
  by (simp add: receiver_ready_def quiet_def state_has_def transportpacket0_def no_decompression_def comp_method_none_def)

theorem transport_forged_mac_witness:
  "\<exists>b1 b2. polls (\<lambda>s. None) (\<lambda>s d n m. Some (if m then 0 else -4, s))
       (session1 (env0\<lparr>recvs := [Received (map (\<lambda>x. x XOR 90) (packet_header 11 5 @ replicate 11 7) @ replicate 20 0)]\<rparr>)) b1 \<and>
     fullpacket_macstate b2 = False \<and>
     libssh2_transport_read (\<lambda>s. None) (\<lambda>s d n m. Some (if m then 0 else -4, s)) b1 =
       map_option (finish_read True) (Some (if False then 0 else -4, b2))"
  using transport_forged_mac [OF receiver_ready1 _ arriving1, where kx = "\<lambda>s. None"
      and padd = "\<lambda>s d n m. Some (if m then 0 else -4, s)"]
  by (simp add: env0_def rd_mac_def libssh2_mac_methods_def mac_method_hmac_sha1_hash_def crypto1_def
      packet_header_def libssh2_htonu32_def sum_list_replicate)

theorem transport_send_layout_witness:
  "\<exists>rc s' pad out. libssh2_transport_send (session1 env0) 1 (cstr ''hi'') None = Some (rc, s') \<and>
     outbuf (packet s') = out \<and> length out \<le> 35000 \<and> 4 \<le> length (pad :: byte list) \<and> length pad \<le> 11 \<and>
     length out = 27 + length pad"
proof -
  have bs: "snd_bs (session1 env0) = 8" by (simp add: snd_bs_def cipher1)
  have m: "mac_len (the (mac (local_ep (session1 env0)))) = 20" by (simp add: libssh2_mac_methods_def)
  have e: "\<not> length (cstr ''hi'') \<ge> MAX_SSH_PACKET_LEN - 0x100" by simp
  have cip: "fst (snd_cipher (session1 env0) (cstr ''hi''))"
    by (rule snd_cipher_in_step [OF in_step1 [of env0 env0]])
  have ok: "sender_ok (session1 env0)" by (rule sender_ok1) (simp add: env0_def)
  have idle: "olen (packet (session1 env0)) = 0" by (simp add: transportpacket0_def)
  obtain rc s' pad out where
    "libssh2_transport_send (session1 env0) 1 (cstr ''hi'') None = Some (rc, s')"
    "outbuf (packet s') = out" "length out \<le> 35000" "4 \<le> length (pad :: byte list)" "length pad \<le> 8 + 3"
    "length out = 5 + length (cstr ''hi'') + length pad + (if encrypted (session1 env0) then 20 else 0)"
    using transport_send_layout [OF ok idle cip, of 1, unfolded if_not_P [OF e] bs m]
    by blast
  then show ?thesis by (intro exI [of _ rc] exI [of _ s'] exI [of _ pad] exI [of _ out]) simp
qed

theorem transport_send_pending_witness:
  "libssh2_transport_send ((session_cleared env0)\<lparr>packet := transportpacket0\<lparr>odata := 1, olen := 2\<rparr>\<rparr>)
     9 (cstr ''hi'') None =
     Some (LIBSSH2_ERROR_BAD_USE, (session_cleared env0)\<lparr>packet := transportpacket0\<lparr>odata := 1, olen := 2\<rparr>\<rparr>)"
  using transport_send_pending [of "(session_cleared env0)\<lparr>packet := transportpacket0\<lparr>odata := 1, olen := 2\<rparr>\<rparr>" 9 "cstr ''hi''"]
  by (simp add: encrypted_def state_has_def session_cleared_def)

text \<open>C39. The size of the payload area wraps around. It is computed from the packet length in 32 bits;
  when the decrypted length is so large that adding the MAC length wraps to less than the rest
  of the first block, the check against the maximum passes and the rest of the block is written
  beyond the area.\<close>

theorem transport_read_length_wraps:
  assumes rdy: "receiver_ready b" and enc: "encrypted b"
    and cm: "crypt (remote_ep b) = Some cm" and mm: "mac (remote_ep b) = Some mm"
    and room: "blocksize cm \<le> length (unread b)"
    and first: "crypt_blocks (cm_crypt cm) (blocksize cm) (crypt_abstract (remote_ep b))
        (take (blocksize cm) (unread b)) = (True, ab, block)"
    and len: "rd32 block 0 = Some plen" "1 \<le> plen"
      "unat (plen - 1 + word_of_nat (mac_len mm)) < blocksize cm - 5"
  shows "libssh2_transport_read kx padd b = None"
proof -
  let ?b = "clear_direction LIBSSH2_SESSION_BLOCK_INBOUND b"
  have ok: "reader_ok ?b" and q: "quiet ?b" and tot: "total_num (packet ?b) = 0"
    and al: "allocs (env ?b) = []" and r: "readidx (packet ?b) \<le> length (buf (packet ?b))"
    using rdy quiet_cong [of ?b b] by (simp_all add: receiver_ready_def) (simp add: reader_ok_def)
  have bs: "rd_bs ?b = blocksize cm" "5 \<le> blocksize cm" "blocksize cm \<le> MAX_BLOCKSIZE"
    "block_preserving (cm_crypt cm)"
    using rd_bs_bounds [OF ok] enc cm rdy
    by (auto simp: rd_bs_def receiver_ready_def reader_ok_def)
  obtain s' where s': "decrypt ?b (readidx (packet ?b)) (blocksize cm) = Some (LIBSSH2_ERROR_NONE, s')"
    "unread s' = block @ drop (blocksize cm) (unread ?b)" "length block = blocksize cm"
    "reader_view s' = reader_view ?b"
    by (rule decrypt_facts [where s = ?b and cm = cm and n = "blocksize cm"])
      (use cm bs room r first in simp_all)
  have blk: "take (blocksize cm) (drop (readidx (packet s')) (buf (packet s'))) = block"
    using s'(2,3) by (simp add: unread_def)
  have m: "mac (remote_ep s') = Some mm" using reader_view_simps(7) [OF s'(4)] mm by simp
  have al': "allocs (env s') = []" using reader_view_allocs [OF s'(4)] al by simp
  have small: "\<not> unat (plen - 1 + word_of_nat (mac_len mm)) > LIBSSH2_PACKET_MAXPAYLOAD"
    using len(3) bs(3) by simp
  have p1: "\<not> plen < 1" using len(2) by (simp only: not_less)
  have a: "\<not> length (buf (packet ?b)) - readidx (packet ?b) < blocksize cm" using room by (simp add: length_unread)
  have b: "\<not> (blocksize cm < 5 \<or> blocksize cm > MAX_BLOCKSIZE)" using bs by simp
  have "read_start ?b True (blocksize cm) = None"
    unfolding read_start_def if_not_P [OF a] if_not_P [OF b] if_True s'(1)
    using blk m len small p1 al' by (simp add: Let_def libssh2_alloc_unlimited)
  then have "read_round ?b = None"
    using read_fill_full [of ?b] room bs(1) enc tot by (simp add: read_round_reader_ok [OF ok])
  then show ?thesis using quiet_read [OF q] q by (simp add: read_loop.simps [of padd ?b] quiet_def)
qed

theorem transport_read_length_wraps_witness:
  "libssh2_transport_read (\<lambda>s. None) (\<lambda>s d n m. Some (0, s))
     ((session1 env0)\<lparr>packet := transportpacket0\<lparr>buf := map (\<lambda>x. x XOR 90)
        [0xFF, 0xFF, 0xFF, 0xEE, 4, 0, 0, 0]\<rparr>\<rparr>) = None"
proof (rule transport_read_length_wraps)
  let ?b = "(session1 env0)\<lparr>packet := transportpacket0\<lparr>buf := map (\<lambda>x. x XOR 90)
        [0xFF, 0xFF, 0xFF, 0xEE, 4, 0, 0, 0]\<rparr>\<rparr>"
  show "receiver_ready ?b" "encrypted ?b"
    using mac_len_bounds [OF mac1]
    by (simp_all add: receiver_ready_def reader_ok_def quiet_def encrypted_def state_has_def cipher1
        transportpacket0_def env0_def no_decompression_def comp_method_none_def block_preserving_def)
  show "crypt (remote_ep ?b) = Some (crypt_blowfish_cbc crypto1)"
    "mac (remote_ep ?b) = Some (hd (libssh2_mac_methods crypto1))" by simp_all
  show "blocksize (crypt_blowfish_cbc crypto1) \<le> length (unread ?b)"
    by (simp add: cipher1 unread_def transportpacket0_def)
  show "crypt_blocks (cm_crypt (crypt_blowfish_cbc crypto1)) (blocksize (crypt_blowfish_cbc crypto1))
     (crypt_abstract (remote_ep ?b)) (take (blocksize (crypt_blowfish_cbc crypto1)) (unread ?b)) =
     (True, [], [0xFF, 0xFF, 0xFF, 0xEE, 4, 0, 0, 0])"
    by (simp add: cipher1 unread_def transportpacket0_def crypt_blocks.simps)
  show "rd32 [0xFF, 0xFF, 0xFF, 0xEE, 4, 0, 0, 0] 0 = Some 0xFFFFFFEE"
    by (simp add: rd32_def libssh2_ntohu32_def push_bit_eq_mult)
  show "(1 :: u32) \<le> 0xFFFFFFEE" by simp
  show "unat ((0xFFFFFFEE :: u32) - 1 + word_of_nat (mac_len (hd (libssh2_mac_methods crypto1)))) <
    blocksize (crypt_blowfish_cbc crypto1) - 5" by (simp add: libssh2_mac_methods_def cipher1)
qed

text \<open>C40. A verdict that is not renewed. When \<^verbatim>\<open>_libssh2_packet_add\<close> reports an error, \<^verbatim>\<open>fullpacket\<close>
  returns without resetting its state; for the next packet that arrives, encrypted or not,
  neither the MAC is checked nor the length computed nor the sequence number advanced: the packet
  is handed on with the length and the MAC verdict of the packet before.\<close>

theorem transport_read_stale_verdict:
  assumes b: "reader_ok b" "total_num (packet b) = 0" "quiet b" "allocs (env b) = []"
    and stale: "(rc, b) = finish_read e (rc, s0)" "rc \<noteq> 0" "fullpacket_state s0 = NB_created"
    and arr: "arriving b pad body macb rest ab"
  shows "\<exists>b1 b2. polls kx padd b b1 \<and>
     libssh2_transport_read kx padd b1 = map_option (finish_read (encrypted b))
       (padd b2 (body @ macb) (fullpacket_payload_len s0) (fullpacket_macstate s0)) \<and>
     seqno (remote_ep b2) = seqno (remote_ep s0)"
proof -
  have f0: "fullpacket_state b = NB_created" "fullpacket_payload_len b = fullpacket_payload_len s0"
    "fullpacket_macstate b = fullpacket_macstate s0" "remote_ep b = remote_ep s0"
    using stale by (auto simp: finish_read_def split: if_splits)
  obtain b1 s where s: "polls kx padd b b1"
    "libssh2_transport_read kx padd b1 = read_point1 padd s (encrypted s)"
    "collected (opened b (length body) pad) (body @ macb) ab rest s"
    by (rule transport_read_collects [OF b arr])
  note f = collected_fields [OF s(3)]
  have "(if fullpacket_state s = NB_idle then fullpacket_decode s (encrypted s) else Some (Inr s)) = Some (Inr s)"
    "fullpacket_state s = NB_created" using f(3) f0(1) by simp_all
  from read_point1_created [OF this, of padd] s f f0 show ?thesis
    by (intro exI [of _ b1] exI [of _ s]) (simp add: collected_def)
qed

text \<open>On a plain connection every round ends, whatever bytes arrive.\<close>

definition plain_reader :: "session \<Rightarrow> bool" where
  "plain_reader s \<longleftrightarrow> \<not> encrypted s \<and> readidx (packet s) \<le> length (buf (packet s)) \<and>
     length (payload (packet s)) \<le> total_num (packet s) \<and> no_decompression (remote_ep s)"

definition reader_effort :: "session \<Rightarrow> nat" where
  "reader_effort s = 2 * recv_measure s + length (unread s)"

lemma read_fill_plain:
  assumes "readidx (packet s) \<le> length (buf (packet s))"
  shows "(\<exists>r. read_fill s bs = Inl r) \<or>
     (\<exists>s'. read_fill s bs = Inr s' \<and> sstate s' = sstate s \<and> remote_ep s' = remote_ep s \<and>
        total_num (packet s') = total_num (packet s) \<and> payload (packet s') = payload (packet s) \<and>
        readidx (packet s') \<le> length (buf (packet s')) \<and>
        socket_state s' = socket_state s \<and> quiet s' = quiet s \<and> reader_effort s' \<le> reader_effort s \<and>
        (length (unread s) < bs \<longrightarrow> reader_effort s' < reader_effort s))"
proof (cases "length (unread s) < bs")
  case False
  then show ?thesis using assms by (simp add: read_fill_def length_unread Let_def)
next
  case True
  show ?thesis
  proof (cases "recvs (env s)")
    case Nil
    then show ?thesis using True by (simp add: read_fill_def length_unread libssh2_recv_def Let_def)
  next
    case (Cons r rs)
    then show ?thesis using True
      by (cases r) (auto simp: read_fill_def length_unread libssh2_recv_def Let_def recv_measure_def reader_effort_def
          quiet_def state_has_def)
  qed
qed

lemma read_start_plain:
  assumes "readidx (packet s) \<le> length (buf (packet s))"
  shows "(\<exists>r. read_start s False 5 = Some (Inl r)) \<or>
     (\<exists>s'. read_start s False 5 = Some (Inr s') \<and> sstate s' = sstate s \<and> remote_ep s' = remote_ep s \<and>
        payload (packet s') = [] \<and> readidx (packet s') \<le> length (buf (packet s')) \<and> quiet s' = quiet s \<and>
        reader_effort s' < reader_effort s)"
proof (cases "length (unread s) < 5")
  case True
  then show ?thesis by (simp add: read_start_short)
next
  case False
  then have r: "readidx (packet s) + 5 \<le> length (buf (packet s))" using assms by (simp add: length_unread)
  let ?block = "take 5 (drop (readidx (packet s)) (buf (packet s)))"
  obtain plen where "rd32 ?block 0 = Some plen" using r by (simp add: rd32_def)
  then show ?thesis using r False
    by (auto simp: read_start_def Let_def libssh2_alloc_def reader_effort_def recv_measure_def length_unread
        quiet_def state_has_def split: list.splits)
qed

lemma read_body_plain:
  assumes "readidx (packet s) \<le> length (buf (packet s))" "length (payload (packet s)) \<le> total_num (packet s)"
  obtains s' where "read_body s False bs = Some (Inr s')" "sstate s' = sstate s" "remote_ep s' = remote_ep s"
    "readidx (packet s') \<le> length (buf (packet s'))" "total_num (packet s') = total_num (packet s)"
    "length (payload (packet s')) \<le> total_num (packet s')" "quiet s' = quiet s"
    "reader_effort s' \<le> reader_effort s"
    "0 < length (unread s) \<Longrightarrow> length (payload (packet s)) < total_num (packet s) \<Longrightarrow> reader_effort s' < reader_effort s"
proof -
  let ?n = "min (length (unread s)) (missing s)"
  have "int ?n = min (int (length (buf (packet s))) - int (readidx (packet s)))
      (int (total_num (packet s)) - int (length (payload (packet s))))"
    using assms by (simp add: length_unread missing_def of_nat_diff)
  then have am: "read_amounts s False bs = Some (0, int ?n)" by (simp add: read_amounts_def Let_def)
  have "read_body s False bs = Some (Inr (if ?n > 0 then take_bytes s ?n else s))"
    unfolding read_body_def am by (simp add: Let_def)
  then show ?thesis
    using assms by (intro that [of "if ?n > 0 then take_bytes s ?n else s"])
      (auto simp: take_bytes_def Let_def length_unread missing_def reader_effort_def recv_measure_def
        quiet_def state_has_def min_def)
qed

text \<open>A round either returns, or completes the packet, or makes progress.\<close>

lemma read_round_plain:
  assumes p: "plain_reader s"
  shows "(\<exists>r. read_round s = Some (Inl r)) \<or>
     (\<exists>s'. read_round s = Some (Inr s') \<and> plain_reader s' \<and> quiet s' = quiet s \<and>
        (total_num (packet s') = length (payload (packet s')) \<or> reader_effort s' < reader_effort s))"
proof -
  have np: "\<not> encrypted s" and rl: "readidx (packet s) \<le> length (buf (packet s))"
    and lp: "length (payload (packet s)) \<le> total_num (packet s)"
    and nc: "no_decompression (remote_ep s)" using p by (simp_all add: plain_reader_def)
  have round: "read_round s = (case read_fill s 5 of
        Inl ret \<Rightarrow> Some (Inl ret)
      | Inr s1 \<Rightarrow> do {
          r \<leftarrow> (if total_num (packet s1) = 0 then read_start s1 False 5 else Some (Inr s1));
          (case r of Inl ret \<Rightarrow> Some (Inl ret) | Inr s2 \<Rightarrow> read_body s2 False 5) })"
    using np rl by (simp add: read_round_def read_blocksize_def encrypted_def Let_def)
  from read_fill_plain [OF rl, of 5] show ?thesis
  proof (elim disjE exE conjE)
    fix r assume "read_fill s 5 = Inl r"
    then show ?thesis by (simp add: round)
  next
    fix s1 assume s1: "read_fill s 5 = Inr s1" "sstate s1 = sstate s" "remote_ep s1 = remote_ep s"
      "total_num (packet s1) = total_num (packet s)" "payload (packet s1) = payload (packet s)"
      "readidx (packet s1) \<le> length (buf (packet s1))" "quiet s1 = quiet s"
      "reader_effort s1 \<le> reader_effort s"
      "length (unread s) < 5 \<longrightarrow> reader_effort s1 < reader_effort s"
    have full: "length (unread s) < 5 \<or> s1 = s" 
      using s1(1) by (cases "length (unread s) < 5") (auto simp: read_fill_def length_unread Let_def)
    show ?thesis
    proof (cases "total_num (packet s) = 0")
      case True
      from read_start_plain [OF s1(6)] show ?thesis
      proof (elim disjE exE conjE)
        fix r assume "read_start s1 False 5 = Some (Inl r)"
        then show ?thesis using True s1 by (simp add: round)
      next
        fix s2 assume s2: "read_start s1 False 5 = Some (Inr s2)" "sstate s2 = sstate s1"
          "remote_ep s2 = remote_ep s1" "payload (packet s2) = []"
          "readidx (packet s2) \<le> length (buf (packet s2))" "quiet s2 = quiet s1"
          "reader_effort s2 < reader_effort s1"
        obtain s3 where "read_body s2 False 5 = Some (Inr s3)" "sstate s3 = sstate s2" "remote_ep s3 = remote_ep s2"
          "readidx (packet s3) \<le> length (buf (packet s3))" "total_num (packet s3) = total_num (packet s2)"
          "length (payload (packet s3)) \<le> total_num (packet s3)" "quiet s3 = quiet s2"
          "reader_effort s3 \<le> reader_effort s2" using read_body_plain [OF s2(5)] s2(4) by auto
        then show ?thesis using True s1 s2 np nc
          by (simp add: round plain_reader_def encrypted_def state_has_def)
      qed
    next
      case False
      obtain s3 where s3: "read_body s1 False 5 = Some (Inr s3)" "sstate s3 = sstate s1" "remote_ep s3 = remote_ep s1"
        "readidx (packet s3) \<le> length (buf (packet s3))" "total_num (packet s3) = total_num (packet s1)"
        "length (payload (packet s3)) \<le> total_num (packet s3)" "quiet s3 = quiet s1"
        "reader_effort s3 \<le> reader_effort s1"
        "0 < length (unread s1) \<Longrightarrow> length (payload (packet s1)) < total_num (packet s1) \<Longrightarrow> reader_effort s3 < reader_effort s1"
        using read_body_plain [OF s1(6)] lp s1(4,5) by auto
      have "total_num (packet s3) = length (payload (packet s3)) \<or> reader_effort s3 < reader_effort s"
      proof (cases "length (unread s) < 5")
        case True
        then show ?thesis using s1(9) s3(8) by simp
      next
        case long: False
        then have "s1 = s" using full by simp
        show ?thesis
        proof (cases "length (payload (packet s)) < total_num (packet s)")
          case True
          have "0 < length (unread s)" using long by linarith
          from s3(9) [unfolded \<open>s1 = s\<close>, OF this True] show ?thesis by simp
        next
          case False
          then have "missing s = 0" by (simp add: missing_def)
          then have "s3 = s" using s3(1) \<open>s1 = s\<close> lp rl
            by (auto simp: read_body_def read_amounts_def Let_def missing_def length_unread)
          then show ?thesis using False lp by simp
        qed
      qed
      then show ?thesis using False s1 s3(1-8) np nc
        by (simp add: round plain_reader_def encrypted_def state_has_def)
    qed
  qed
qed

lemma read_point1_plain:
  assumes p: "plain_reader s" and total: "\<And>s d n m. padd s d n m \<noteq> None"
  shows "(\<exists>r. read_point1 padd s False = Some r) \<or> payload (packet s) = []"
proof (cases "payload (packet s) = []")
  case False
  then have "\<exists>r. (if fullpacket_state s = NB_idle then fullpacket_decode s False else Some (Inr s)) = Some r"
    using p by (auto simp: plain_reader_def fullpacket_decode_def fullpacket_mac_def fullpacket_decomp_def
        no_decompression_def rd8_def Let_def split: option.splits)
  then obtain r where "(if fullpacket_state s = NB_idle then fullpacket_decode s False else Some (Inr s)) = Some r" ..
  note r = this
  have "\<exists>q. fullpacket padd s False = Some q"
  proof (cases r)
    case (Inl x)
    then show ?thesis unfolding fullpacket_def r by simp
  next
    case (Inr t)
    obtain q where "padd t (payload (packet t)) (fullpacket_payload_len t) (fullpacket_macstate t) = Some q"
      using total by blast
    then show ?thesis unfolding fullpacket_def r Inr by (cases q) simp
  qed
  then show ?thesis by (auto simp: read_point1_def)
qed simp



lemma arriving_fields:
  "arriving s pad body macb rest ab \<Longrightarrow> input_stream s' = input_stream s \<Longrightarrow>
   remote_ep s' = remote_ep s \<Longrightarrow> encrypted s' = encrypted s \<Longrightarrow> arriving s' pad body macb rest ab"
  by (auto simp: arriving_def rd_mac_def rd_bs_def)

theorem transport_read_stale_verdict_witness:
  "\<exists>b s0 b1 b2. (LIBSSH2_ERROR_ALLOC, b) = finish_read True (LIBSSH2_ERROR_ALLOC, s0) \<and> encrypted b \<and>
     fullpacket_macstate s0 \<and> polls (\<lambda>s. None) (\<lambda>s d n m. Some (if m then 0 else -4, s)) b b1 \<and>
     libssh2_transport_read (\<lambda>s. None) (\<lambda>s d n m. Some (if m then 0 else -4, s)) b1 =
       map_option (finish_read True) (Some (0, b2))"
proof -
  define e where "e = env0\<lparr>recvs := [Received (map (\<lambda>x. x XOR 90) (packet_header 11 5 @ replicate 11 7) @ replicate 20 0)]\<rparr>"
  define s0 where "s0 = (session1 e)\<lparr>fullpacket_state := NB_created, fullpacket_macstate := True,
      fullpacket_payload_len := 6\<rparr>"
  define b where "b = s0\<lparr>packet := (packet s0)\<lparr>total_num := 0\<rparr>\<rparr>"
  have r: "(LIBSSH2_ERROR_ALLOC, b) = finish_read True (LIBSSH2_ERROR_ALLOC, s0)"
    by (simp add: finish_read_def b_def)
  have b: "reader_ok b" "total_num (packet b) = 0" "quiet b" "allocs (env b) = []" "encrypted b"
    using reader_ok1 [of e]
    by (simp_all add: b_def s0_def e_def env0_def reader_ok_def quiet_def state_has_def encrypted_def
        transportpacket0_def)
  have arr: "arriving b (word_of_nat (length (replicate 5 (7 :: byte)))) (replicate 6 7 @ replicate 5 7)
      (replicate 20 0) [] []"
    by (rule arriving_fields [OF arriving1]) (simp_all add: b_def s0_def e_def encrypted_def state_has_def
        input_stream_def unread_def transportpacket0_def)
  have "fullpacket_state s0 = NB_created" "fullpacket_macstate s0" by (simp_all add: s0_def)
  with transport_read_stale_verdict [OF b(1-4) r _ _ arr, where kx = "\<lambda>s. None"
      and padd = "\<lambda>s d n m. Some (if m then 0 else -4, s)"] r b(5)
  show ?thesis by auto
qed

end
