(* ===== verification/Packet_Queue.thy ===== *)
theory Packet_Queue
  imports Packet_Frame Transport_Roundtrip
begin

text \<open>
  The properties of the packet queue: messages arrive complete and in order, altered packets have no
  effect, asking takes the first packet that fits, channel data is bounded by the window, channel
  numbers are fresh; and what goes wrong when a confirmation or a window adjustment would block and
  when messages are shorter than their fields.
\<close>

section \<open>Messages that are queued\<close>

definition ordinary_msg :: "byte \<Rightarrow> bool" where
  "ordinary_msg msg \<longleftrightarrow> \<not> handled_msg msg \<and>
     msg \<notin> {SSH_MSG_CHANNEL_DATA, SSH_MSG_CHANNEL_EXTENDED_DATA, SSH_MSG_KEXINIT}"

definition ordinary :: "byte list \<Rightarrow> bool" where
  "ordinary m \<longleftrightarrow> m \<noteq> [] \<and> length m < MAX_SSH_PACKET_LEN - 0x100 \<and> ordinary_msg (hd m)"

lemma packet_add_ordinary:
  assumes "ordinary_msg msg" "rd8 data 0 = Some msg" "packAdd_state s = NB_idle" "allocs (env s) = []"
  shows "libssh2_packet_add kx s data n True = Some (0, s\<lparr>packets :=
     packets s @ [\<lparr>pk_data = data, pk_data_len = n, pk_data_head = 0\<rparr>], packAdd_state := NB_idle\<rparr>)"
  using assms
  by (simp add: libssh2_packet_add_def add_dispatch_def ordinary_msg_def handled_msg_def add_queue_def
      libssh2_alloc_def add_rekey_def add_done_def)

text \<open>Sending messages one after the other, and reading as many results.\<close>

inductive sends_all :: "nat \<Rightarrow> byte list list \<Rightarrow> session \<Rightarrow> session \<Rightarrow> bool" for daddr where
  sends_Nil: "sends_all daddr [] a a"
| sends_Cons: "transport_sends daddr m None a a1 \<Longrightarrow> sends_all daddr ms a1 a2 \<Longrightarrow> sends_all daddr (m # ms) a a2"

inductive reads_all :: "kex_exchange_fn \<Rightarrow> int list \<Rightarrow> session \<Rightarrow> session \<Rightarrow> bool" for kx where
  reads_Nil: "reads_all kx [] b b"
| reads_Cons: "polls kx (libssh2_packet_add kx) b b1 \<Longrightarrow> transport_read kx b1 = Some (t, b2) \<Longrightarrow>
    t \<noteq> LIBSSH2_ERROR_EAGAIN \<Longrightarrow> reads_all kx ts b2 b3 \<Longrightarrow> reads_all kx (t # ts) b b3"

definition queue_ready :: "session \<Rightarrow> bool" where
  "queue_ready b \<longleftrightarrow> receiver_ready b \<and> packAdd_state b = NB_idle"

definition queued_as :: "byte list \<Rightarrow> ssh_packet \<Rightarrow> bool" where
  "queued_as m q \<longleftrightarrow> pk_data_len q = length m \<and> take (length m) (pk_data q) = m \<and> pk_data_head q = 0"

text \<open>One message.\<close>

lemma message_queued:
  assumes sender: "sender_ok a" and m: "ordinary m"
    and a': "all_sent (snd_endpoint a m) (sstate a) w0 w a'"
    and step: "in_step c R a b" and rdy: "queue_ready b" and inp: "input_stream b = snd_wire a m @ rest"
  shows "\<exists>b1 b2 q. polls kx (libssh2_packet_add kx) b b1 \<and>
    transport_read kx b1 = Some (int (unat (hd m)), b2) \<and> packets b2 = packets b @ [q] \<and> queued_as m q \<and>
    in_step c R a' b2 \<and> queue_ready b2 \<and> input_stream b2 = rest"
proof -
  have m': "m \<noteq> []" "length m < MAX_SSH_PACKET_LEN - 0x100" "ordinary_msg (hd m)" using m by (auto simp: ordinary_def)
  have r: "receiver_ready b" "packAdd_state b = NB_idle" using rdy by (auto simp: queue_ready_def)
  obtain b1 s p k ab where w: "polls kx (libssh2_packet_add kx) b b1"
      "libssh2_transport_read kx (libssh2_packet_add kx) b1 = map_option (finish_read (encrypted b))
         (libssh2_packet_add kx (decoded s m p k) (m @ p @ k) (length m) True)"
      "collected (opened b (length (m @ p)) (word_of_nat (length p))) (m @ p @ k) ab rest s"
      "in_step c R a' (decoded s m p k)"
    by (rule wire_delivered [OF sender m'(1,2) a' step r(1) inp])
  note f = collected_fields [OF w(3)]
  let ?q = "\<lparr>pk_data = m @ p @ k, pk_data_len = length m, pk_data_head = 0\<rparr>"
  let ?b2 = "snd (finish_read (encrypted b) (0, (decoded s m p k)\<lparr>packets := packets b @ [?q], packAdd_state := NB_idle\<rparr>))"
  have al: "allocs (env b) = []" "quiet b" "no_decompression (remote_ep b)" "fullpacket_state b = NB_idle"
    using r by (simp_all add: receiver_ready_def)
  have "libssh2_packet_add kx (decoded s m p k) (m @ p @ k) (length m) True =
      Some (0, (decoded s m p k)\<lparr>packets := packets b @ [?q], packAdd_state := NB_idle\<rparr>)"
    using packet_add_ordinary [OF m'(3), of "m @ p @ k" "decoded s m p k" kx "length m"] m'(1) f r al
    by (simp add: decoded_def rd8_def nth_append hd_conv_nth)
  then have "transport_read kx b1 = Some (int (unat (hd m)), ?b2)"
    using w(2) by (simp add: transport_read_def finish_read_def decoded_def)
  moreover have "packets ?b2 = packets b @ [?q]" "queued_as m ?q" "in_step c R a' ?b2" "input_stream ?b2 = rest"
    using w(3,4) by (simp_all add: finish_read_def decoded_def queued_as_def in_step_def encrypted_def state_has_def
        collected_def input_stream_def unread_def)
  moreover have "queue_ready ?b2"
    using f al w(3) r unfolding queue_ready_def receiver_ready_def
    by (simp add: finish_read_def decoded_def reader_ok_def collected_def quiet_def state_has_def encrypted_def
        no_decompression_def)
  ultimately show ?thesis using w(1) by blast
qed

text \<open>The type of a message, as the reader returns it.\<close>

definition msg_type :: "byte list \<Rightarrow> int" where
  "msg_type m = int (unat (hd m))"

lemma in_step_after:
  assumes step: "in_step c R a b" and a': "all_sent (snd_endpoint a m) (sstate a) w0 w a'"
  shows "\<exists>b'. in_step c R a' b'"
proof -
  obtain ab where ab: "encrypted a \<longrightarrow> R (crypt_abstract (snd_endpoint a m)) ab"
    by (rule snd_cipher_in_step [OF step, of m]) blast
  have "in_step c R a' (b\<lparr>remote_ep := (remote_ep b)\<lparr>crypt_abstract := ab, seqno := seqno (remote_ep b) + 1\<rparr>\<rparr>)"
    using step a' ab by (auto simp: in_step_def all_sent_def encrypted_def state_has_def snd_endpoint_def)
  then show ?thesis by blast
qed

lemma sender_ok_after:
  assumes "sender_ok a" "all_sent (snd_endpoint a m) (sstate a) w0 w a'"
  shows "sender_ok a'"
  using assms by (auto simp: sender_ok_def all_sent_def encrypted_def state_has_def snd_endpoint_def)

text \<open>C1. Messages arrive complete and in order. A session sends a list of messages one after the other,
  retrying each while the socket would block. For every session in step with it that reads those bytes,
  cut into any pieces with any number of blocked receives in between, the reads return the types of the
  messages in their order, and the queue of packets has grown by exactly the messages, in their order;
  the sessions are in step again. (Messages the packet layer deals with itself, channel data and
  \<^verbatim>\<open>KEXINIT\<close> are treated elsewhere.)\<close>

theorem messages_arrive_in_order:
  assumes "sender_ok a" "olen (packet a) = 0" "in_step c R a b0" "list_all ordinary msgs"
  shows "\<exists>a' wire. sends_all daddr msgs a a' \<and> wire_out (env a') = wire_out (env a) @ wire \<and>
     (\<forall>b rest. in_step c R a b \<and> queue_ready b \<and> input_stream b = wire @ rest \<longrightarrow>
       (\<exists>b' qs. reads_all kx (map msg_type msgs) b b' \<and> packets b' = packets b @ qs \<and>
          list_all2 queued_as msgs qs \<and> input_stream b' = rest \<and> in_step c R a' b' \<and> queue_ready b'))"
  using assms
proof (induction msgs arbitrary: a b0)
  case Nil
  show ?case
    by (intro exI [of _ a] exI [of _ "[]"]) (auto intro: sends_Nil reads_Nil)
next
  case (Cons m ms)
  have m: "ordinary m" "m \<noteq> []" "length m < MAX_SSH_PACKET_LEN - 0x100" and ms: "list_all ordinary ms"
    using Cons.prems(4) by simp_all (simp_all add: ordinary_def)
  have cip: "fst (snd_cipher a m)" by (rule snd_cipher_in_step [OF Cons.prems(3)])
  have d: "m = m @ (case None of None \<Rightarrow> [] | Some d2 \<Rightarrow> d2)" by simp
  obtain a1 where a1: "transport_sends daddr m None a a1"
    "all_sent (snd_endpoint a m) (sstate a) (wire_out (env a)) (snd_wire a m) a1"
    by (rule transport_sends_packet [OF Cons.prems(1,2) m(2) d m(3) cip])
  obtain b1 where "in_step c R a1 b1" using in_step_after [OF Cons.prems(3) a1(2)] by blast
  moreover have "olen (packet a1) = 0" using a1(2) by (simp add: all_sent_def)
  ultimately obtain a' wire where a': "sends_all daddr ms a1 a'" "wire_out (env a') = wire_out (env a1) @ wire"
    and rd: "\<And>b rest. in_step c R a1 b \<and> queue_ready b \<and> input_stream b = wire @ rest \<Longrightarrow>
       (\<exists>b' qs. reads_all kx (map msg_type ms) b b' \<and> packets b' = packets b @ qs \<and>
          list_all2 queued_as ms qs \<and> input_stream b' = rest \<and> in_step c R a' b' \<and> queue_ready b')"
    using Cons.IH [OF sender_ok_after [OF Cons.prems(1) a1(2)] _ _ ms] by blast
  have "\<exists>b' qs. reads_all kx (map msg_type (m # ms)) b b' \<and> packets b' = packets b @ qs \<and>
      list_all2 queued_as (m # ms) qs \<and> input_stream b' = rest \<and> in_step c R a' b' \<and> queue_ready b'"
    if h: "in_step c R a b" "queue_ready b" "input_stream b = (snd_wire a m @ wire) @ rest" for b rest
  proof -
    have i: "input_stream b = snd_wire a m @ (wire @ rest)" using h(3) by simp
    obtain b1 b2 q where q: "polls kx (libssh2_packet_add kx) b b1"
      "transport_read kx b1 = Some (int (unat (hd m)), b2)" "packets b2 = packets b @ [q]" "queued_as m q"
      "in_step c R a1 b2" "queue_ready b2" "input_stream b2 = wire @ rest"
      using message_queued [OF Cons.prems(1) m(1) a1(2) h(1,2) i] by blast
    have ne: "int (unat (hd m)) \<noteq> LIBSSH2_ERROR_EAGAIN" using of_nat_0_le_iff [of "unat (hd m)"] by linarith
    obtain b' qs where r: "reads_all kx (map msg_type ms) b2 b'" and "packets b' = packets b2 @ qs"
      "list_all2 queued_as ms qs" "input_stream b' = rest" "in_step c R a' b'" "queue_ready b'"
      using rd [of b2 rest] q by blast
    with q reads_Cons [OF q(1,2) ne r] show ?thesis
      by (intro exI [of _ b'] exI [of _ "q # qs"]) (simp add: msg_type_def)
  qed
  moreover have "sends_all daddr (m # ms) a a'" using a1(1) a'(1) by (rule sends_Cons)
  ultimately show ?case using a'(2) a1(2)
    by (intro exI [of _ a'] exI [of _ "snd_wire a m @ wire"]) (simp add: all_sent_def)
qed

theorem messages_arrive_in_order_witness:
  "\<exists>a' wire. sends_all 1 [[5, 1, 2], [6], [52, 9]] (session1 (env0\<lparr>sends := [3, - 11, 0, 7]\<rparr>)) a' \<and>
     wire_out (env a') = wire_out (env (session1 (env0\<lparr>sends := [3, - 11, 0, 7]\<rparr>))) @ wire \<and>
     (\<forall>b rest. in_step crypto1 (=) (session1 (env0\<lparr>sends := [3, - 11, 0, 7]\<rparr>)) b \<and> queue_ready b \<and>
         input_stream b = wire @ rest \<longrightarrow>
       (\<exists>b' qs. reads_all (\<lambda>s. None) (map msg_type [[5, 1, 2], [6], [52, 9]]) b b' \<and>
          packets b' = packets b @ qs \<and> list_all2 queued_as [[5, 1, 2], [6], [52, 9]] qs \<and>
          input_stream b' = rest \<and> in_step crypto1 (=) a' b' \<and> queue_ready b'))"
  by (rule messages_arrive_in_order [OF sender_ok1 _ in_step1])
    (simp_all add: env0_def transportpacket0_def ordinary_def ordinary_msg_def handled_msg_def)

section \<open>Taking packets out of the queue\<close>

definition packet_wf :: "ssh_packet \<Rightarrow> bool" where
  "packet_wf p \<longleftrightarrow> pk_data p \<noteq> [] \<and> pk_data_len p \<le> length (pk_data p)"

definition wanted :: "byte \<Rightarrow> nat \<Rightarrow> byte list option \<Rightarrow> nat \<Rightarrow> ssh_packet \<Rightarrow> bool" where
  "wanted t ofs m n p \<longleftrightarrow> hd (pk_data p) = t \<and> ofs + n \<le> pk_data_len p \<and>
     (case m of None \<Rightarrow> True | Some b \<Rightarrow> take n (drop ofs (pk_data p)) = take n b)"

lemma packet_matches_wanted:
  "packet_wf p \<Longrightarrow> packet_matches t ofs m n p = Some (wanted t ofs m n p)"
  by (auto simp: packet_matches_def wanted_def packet_wf_def rd8_def rdn_def hd_conv_nth split: option.splits)

lemma ask_loop_none:
  "list_all packet_wf ps \<Longrightarrow> find (wanted t ofs m n) ps = None \<Longrightarrow> ask_loop t ofs m n ps = Some None"
  by (induction ps) (auto simp: packet_matches_wanted split: if_split_asm)

lemma ask_loop_first:
  "list_all packet_wf (pre @ p # post) \<Longrightarrow> wanted t ofs m n p \<Longrightarrow> \<forall>q\<in>set pre. \<not> wanted t ofs m n q \<Longrightarrow>
   ask_loop t ofs m n (pre @ p # post) = Some (Some (p, pre @ post))"
  by (induction pre) (auto simp: packet_matches_wanted)

lemma find_split:
  assumes "find P xs = Some x"
  obtains pre post where "xs = pre @ x # post" "P x" "\<forall>y\<in>set pre. \<not> P y"
proof -
  obtain i where i: "i < length xs" "P (xs ! i)" "x = xs ! i" "\<forall>j<i. \<not> P (xs ! j)"
    using assms by (auto simp: find_Some_iff)
  then have "\<forall>y\<in>set (take i xs). \<not> P y" by (auto simp: in_set_conv_nth)
  then show ?thesis using i that [of "take i xs" "drop (Suc i) xs"] by (simp add: id_take_nth_drop)
qed

text \<open>C12. Asking for a packet takes the first one in the queue that has the type and the given bytes at
  the given place: it is returned with its length and leaves the queue, the other packets keep their
  order. When there is none, nothing changes. The search does not read outside the packets.\<close>

theorem packet_ask_first:
  assumes "list_all packet_wf (packets s)"
  shows "case find (wanted t ofs m n) (packets s) of
      None \<Rightarrow> libssh2_packet_ask s t ofs m n = Some (None, s)
    | Some p \<Rightarrow> \<exists>pre post. packets s = pre @ p # post \<and> (\<forall>q\<in>set pre. \<not> wanted t ofs m n q) \<and>
        libssh2_packet_ask s t ofs m n = Some (Some (pk_data p, pk_data_len p), s\<lparr>packets := pre @ post\<rparr>)"
proof (cases "find (wanted t ofs m n) (packets s)")
  case None
  then show ?thesis using ask_loop_none [OF assms] by (simp add: libssh2_packet_ask_def)
next
  case (Some p)
  then obtain pre post where p: "packets s = pre @ p # post" "wanted t ofs m n p"
    "\<forall>y\<in>set pre. \<not> wanted t ofs m n y" by (rule find_split)
  then show ?thesis using Some ask_loop_first [of pre p post t ofs m n] assms
    by (simp add: libssh2_packet_ask_def) (intro exI [of _ pre] exI [of _ post], simp)
qed

section \<open>Channel numbers\<close>

lemma nextid_above:
  assumes "\<forall>ch\<in>set (channels s). local_id ch < next_channel s"
  shows "libssh2_channel_nextid s = (next_channel s, s\<lparr>next_channel := next_channel s + 1\<rparr>)"
proof -
  have "fold (\<lambda>ch i. if local_id ch > i then local_id ch else i) chs i = i"
    if "\<forall>ch\<in>set chs. local_id ch < i" for chs i
    using that by (induction chs) (auto simp: not_less_iff_gr_or_eq)
  with assms show ?thesis by (simp add: libssh2_channel_nextid_def Let_def)
qed

text \<open>C24. Channel numbers are fresh until they run out. While every channel of the session has a number
  below the counter, a new number differs from all of them and the counter stays above all numbers,
  unless the counter wraps around after \<open>2 ^ 32 - 1\<close>. When a channel has a number at or above the
  counter, as after such a wrap, the new number is the number of an existing channel.\<close>

theorem channel_nextid_fresh:
  shows "((\<forall>ch\<in>set (channels s). local_id ch < next_channel s) \<longrightarrow>
      (\<exists>s'. libssh2_channel_nextid s = (next_channel s, s') \<and>
         next_channel s \<notin> local_id ` set (channels s) \<and> channels s' = channels s \<and>
         (next_channel s \<noteq> - 1 \<longrightarrow> next_channel s < next_channel s')))
    \<and> ((\<exists>ch\<in>set (channels s). local_id ch \<ge> next_channel s) \<longrightarrow>
         fst (libssh2_channel_nextid s) \<in> local_id ` set (channels s))"
proof (intro conjI impI)
  assume a: "\<forall>ch\<in>set (channels s). local_id ch < next_channel s"
  have "x < x + 1" if "x \<noteq> - 1" for x :: u32
    using unatSuc [of x] that by (simp add: word_less_nat_alt add.commute add_eq_0_iff)
  then show "\<exists>s'. libssh2_channel_nextid s = (next_channel s, s') \<and>
         next_channel s \<notin> local_id ` set (channels s) \<and> channels s' = channels s \<and>
         (next_channel s \<noteq> - 1 \<longrightarrow> next_channel s < next_channel s')"
    using nextid_above [OF a] a by auto
next
  let ?f = "\<lambda>ch i. if local_id ch > i then local_id ch else i"
  assume a: "\<exists>ch\<in>set (channels s). local_id ch \<ge> next_channel s"
  have keep: "fold ?f xs k = k" if "\<forall>c\<in>set xs. \<not> local_id c > k" for xs k
    using that by (induction xs) auto
  have "fold ?f chs i \<in> local_id ` set chs" if "\<exists>ch\<in>set chs. local_id ch > i" for chs i
    using that
  proof (induction chs arbitrary: i)
    case (Cons ch chs)
    show ?case
    proof (cases "\<exists>c\<in>set chs. local_id c > ?f ch i")
      case True
      then show ?thesis using Cons.IH [of "?f ch i"] by auto
    next
      case False
      then have "fold ?f chs (?f ch i) = ?f ch i" using keep by blast
      then show ?thesis using Cons.prems False by auto
    qed
  qed simp
  then show "fst (libssh2_channel_nextid s) \<in> local_id ` set (channels s)"
    using a keep [of "channels s" "next_channel s"]
    by (cases "\<exists>ch\<in>set (channels s). local_id ch > next_channel s")
      (auto simp: libssh2_channel_nextid_def Let_def not_less intro!: image_eqI order_antisym)
qed

section \<open>Flow control\<close>

lemma window_clip_spec:
  assumes "window_clip rem k = (n, rem', err)"
  shows "n = min (min k (unat (packet_size rem))) (unat (window_size rem))"
    "rem' = rem\<lparr>cd_eof := False, window_size := window_size rem - word_of_nat n\<rparr>"
    "err = None \<longleftrightarrow> n = k"
  using assms by (auto simp: window_clip_def Let_def split: if_split_asm)

definition after_data :: "channel \<Rightarrow> nat \<Rightarrow> channel" where
  "after_data ch n = ch\<lparr>ch_remote := (ch_remote ch)\<lparr>cd_eof := False,
     window_size := window_size (ch_remote ch) - word_of_nat n\<rparr>\<rparr>"

lemma local_id_after_data [simp]: "local_id (after_data ch n) = local_id ch"
  by (simp add: after_data_def)

text \<open>What the arrival of channel data leaves alone.\<close>

definition data_view :: "session \<Rightarrow> session" where
  "data_view s = s\<lparr>channels := [], listeners := [], packets := [], err_code := 0, err_msg := '''',
     packAdd_state := NB_idle\<rparr>"

lemma update_channel_data_view: "update_channel s i f = Some s' \<Longrightarrow> data_view s' = data_view s"
  by (auto simp: update_channel_def data_view_def split: option.split_asm)

lemma channel_data_added:
  assumes idle: "packAdd_state s = NB_idle" "allocs (env s) = []"
    and data: "rd8 data 0 = Some SSH_MSG_CHANNEL_DATA" "rd32 data 1 = Some cid" "9 \<le> datalen"
    and ch: "libssh2_channel_locate s cid = Some ch" "window_size (ch_remote ch) \<noteq> 0"
    and n: "n = min (min (datalen - 9) (unat (packet_size (ch_remote ch)))) (unat (window_size (ch_remote ch)))"
  shows "\<exists>s'. libssh2_packet_add kx s data datalen True = Some (0, s') \<and>
     packets s' = packets s @ [\<lparr>pk_data = data, pk_data_len = n + 9, pk_data_head = 9\<rparr>] \<and>
     libssh2_channel_locate s' cid = Some (after_data ch n) \<and>
     unat (window_size (ch_remote (after_data ch n))) = unat (window_size (ch_remote ch)) - n \<and>
     (\<forall>j. j \<noteq> cid \<longrightarrow> libssh2_channel_locate s' j = libssh2_channel_locate s j) \<and>
     data_view s' = data_view s \<and> packAdd_state s' = NB_idle"
proof -
  let ?s = "s\<lparr>packAdd_state := NB_allocated\<rparr>"
  obtain n' rem' err where c: "window_clip (ch_remote ch) (datalen - 9) = (n', rem', err)" by (metis prod_cases3)
  note w = window_clip_spec [OF c]
  have nn: "n' = n" using w(1) n by simp
  have loc: "libssh2_channel_locate ?s = libssh2_channel_locate s" by (rule locate_cong) simp_all
  have id: "local_id ch = cid" by (rule chans.find_ident [OF ch(1)])
  have upd: "(\<lambda>c. c\<lparr>ch_remote := rem'\<rparr>) ch = after_data ch n" using w(2) nn by (simp add: after_data_def)
  obtain s1 where s1: "update_channel ?s cid (\<lambda>c. c\<lparr>ch_remote := rem'\<rparr>) = Some s1"
    "libssh2_channel_locate s1 cid = Some (after_data ch n)"
    "\<forall>j. j \<noteq> cid \<longrightarrow> libssh2_channel_locate s1 j = libssh2_channel_locate s j"
    using chans.upd_obtains [of ?s cid ch "\<lambda>c. c\<lparr>ch_remote := rem'\<rparr>"] ch(1) id upd loc by auto
  let ?s2 = "case err of None \<Rightarrow> s1 | Some (code, text) \<Rightarrow> snd (libssh2_error s1 code text)"
  have f: "packets ?s2 = packets s" "env ?s2 = env s" "libssh2_channel_locate ?s2 = libssh2_channel_locate s1"
    "packets s1 = packets s" "env s1 = env s"
    using update_channel_frame [OF s1(1)]
    by (auto simp: libssh2_error_def split: option.split intro!: locate_cong)
  have add: "add_channel_data ?s SSH_MSG_CHANNEL_DATA data datalen = Some (Inr (n + 9, 9, ?s2))"
    using data(2,3) ch(1,2) loc c s1(1) id nn by (simp add: add_channel_data_def Let_def)
  let ?s3 = "add_done (?s2\<lparr>packets := packets s @ [\<lparr>pk_data = data, pk_data_len = n + 9, pk_data_head = 9\<rparr>], packAdd_state := NB_sent1\<rparr>)"
  have q: "add_queue kx (?s2\<lparr>packAdd_state := NB_sent\<rparr>) SSH_MSG_CHANNEL_DATA data (n + 9) 9 = Some (0, ?s3)"
    using f idle(2) by (simp add: add_queue_def libssh2_alloc_def add_rekey_def)
  have "libssh2_packet_add kx s data datalen True = Some (0, ?s3)"
    using idle(1) data(1) add q by (simp add: libssh2_packet_add_def add_dispatch_def)
  moreover have "libssh2_channel_locate ?s3 = libssh2_channel_locate s1"
    unfolding f(3) [symmetric] by (rule locate_cong) (simp_all add: add_done_def)
  moreover have "unat (window_size (ch_remote (after_data ch n))) = unat (window_size (ch_remote ch)) - n"
  proof -
    have le: "n \<le> unat (window_size (ch_remote ch))" using n by simp
    have "unat (word_of_nat n :: u32) = n"
      by (rule unat_u32_of_nat, rule le_less_trans [OF le]) simp
    with le show ?thesis by (simp add: after_data_def unat_sub word_le_nat_alt)
  qed
  moreover have "data_view ?s3 = data_view s"
    using update_channel_data_view [OF s1(1)]
    by (cases err) (auto simp: add_done_def data_view_def libssh2_error_def)
  ultimately show ?thesis using s1 by (intro exI [of _ ?s3]) (simp add: add_done_def)
qed

text \<open>C9. The receive window bounds what is queued. Data that arrives for a channel with an open window is
  queued, cut to the packet size and the window that were offered; the window shrinks by exactly the
  amount queued and never below zero, and no other channel changes.\<close>

theorem channel_data_flow_control:
  assumes idle: "packAdd_state s = NB_idle" "allocs (env s) = []"
    and data: "rd8 data 0 = Some SSH_MSG_CHANNEL_DATA" "rd32 data 1 = Some cid" "9 \<le> datalen"
    and ch: "libssh2_channel_locate s cid = Some ch" "window_size (ch_remote ch) \<noteq> 0"
    and n: "n = min (min (datalen - 9) (unat (packet_size (ch_remote ch)))) (unat (window_size (ch_remote ch)))"
  shows "\<exists>s'. libssh2_packet_add kx s data datalen True = Some (0, s') \<and>
     packets s' = packets s @ [\<lparr>pk_data = data, pk_data_len = n + 9, pk_data_head = 9\<rparr>] \<and>
     libssh2_channel_locate s' cid = Some (after_data ch n) \<and>
     unat (window_size (ch_remote (after_data ch n))) = unat (window_size (ch_remote ch)) - n \<and>
     (\<forall>j. j \<noteq> cid \<longrightarrow> libssh2_channel_locate s' j = libssh2_channel_locate s j)"
  using channel_data_added [OF assms] by blast

text \<open>C6. A packet whose MAC is wrong has no effect on the queue. When the application has not installed a
  callback that overrules the check, reading such a packet ends with \<^verbatim>\<open>LIBSSH2_ERROR_INVALID_MAC\<close>, and
  neither the queue of packets nor a channel has changed.\<close>

theorem forged_never_queued:
  assumes rdy: "receiver_ready b" "packAdd_state b = NB_idle" "\<not> has_macerror_cb b" and enc: "encrypted b"
    and arr: "arriving b (word_of_nat (length padding)) (data @ padding) macb rest ab"
    and data: "data \<noteq> []" "length padding < 256"
    and forged: "macb \<noteq> take (rd_mac b) (mm_hash (the (mac (remote_ep b))) (mac_abstract (remote_ep b))
        (seqno (remote_ep b))
        (packet_header (length (data @ padding)) (word_of_nat (length padding))) (data @ padding))"
  shows "\<exists>b1 b2. polls kx (libssh2_packet_add kx) b b1 \<and>
     transport_read kx b1 = Some (LIBSSH2_ERROR_INVALID_MAC, b2) \<and>
     packets b2 = packets b \<and> channels b2 = channels b"
proof -
  obtain b1 s where d: "polls kx (libssh2_packet_add kx) b b1"
    "libssh2_transport_read kx (libssh2_packet_add kx) b1 = map_option (finish_read (encrypted b))
       (libssh2_packet_add kx (decoded s data padding macb) (data @ padding @ macb) (length data)
          (mac_verdict s (data @ padding) macb))"
    "collected (opened b (length (data @ padding)) (word_of_nat (length padding)))
       (data @ padding @ macb) ab rest s"
    using rdy(1) unfolding receiver_ready_def
    by (elim conjE) (rule transport_read_delivers [OF _ _ _ _ _ _ arr data])
  note f = collected_fields [OF d(3)]
  have v: "reader_view s = reader_view (opened b (length (data @ padding)) (word_of_nat (length padding)))"
    using d(3) by (simp add: collected_def)
  have cb: "has_macerror_cb s = has_macerror_cb b"
    using arg_cong [OF v, of has_macerror_cb] by (simp add: reader_view_def opened_def)
  have "\<not> mac_verdict s (data @ padding) macb" using f enc forged by (auto simp: mac_verdict_def)
  then have "libssh2_packet_add kx (decoded s data padding macb) (data @ padding @ macb) (length data)
      (mac_verdict s (data @ padding) macb) =
      Some (libssh2_error (decoded s data padding macb) LIBSSH2_ERROR_INVALID_MAC ''Invalid MAC received'')"
    using f rdy cb data(1) by (simp add: libssh2_packet_add_def rd8_def decoded_def)
  with d(1,2) f show ?thesis
    by (intro exI [of _ b1] exI [of _ "snd (finish_read (encrypted b)
          (libssh2_error (decoded s data padding macb) LIBSSH2_ERROR_INVALID_MAC ''Invalid MAC received''))"])
      (simp add: transport_read_def finish_read_def libssh2_error_def decoded_def)
qed

section \<open>The receive window\<close>

text \<open>The sending of an adjustment that has been prepared.\<close>

lemma window_adjust_sends:
  assumes ch: "libssh2_channel_locate s cid = Some ch"
    and prep: "window_adjust_prepare ch adjustment force = Inr (adj, ch')" "local_id ch' = cid"
    and call: "libssh2_channel_receive_window_adjust s cid adjustment force = Some (rc, s')"
  shows "rc = 0 \<Longrightarrow> libssh2_channel_locate s' cid = Some (ch'\<lparr>adjust_state := NB_idle,
           ch_remote := (ch_remote ch')\<lparr>window_size := window_size (ch_remote ch') + adj\<rparr>\<rparr>)"
    "rc = LIBSSH2_ERROR_EAGAIN \<Longrightarrow> libssh2_channel_locate s' cid = Some ch'"
proof -
  obtain s1 where s1: "update_channel s cid (\<lambda>_. ch') = Some s1" "libssh2_channel_locate s1 cid = Some ch'"
    by (rule chans.upd_obtains [of s cid ch "\<lambda>_. ch'"]) (use ch prep in auto)
  obtain rc2 s2 where s2: "libssh2_transport_send s1 (addr_adjust cid) (adjust_adjust ch') None = Some (rc2, s2)"
    using call ch prep s1 by (auto simp: libssh2_channel_receive_window_adjust_def elim!: bind_SomeE)
  have l2: "libssh2_channel_locate s2 cid = Some ch'" using transport_send_frame(7) [OF s2] s1(2) by simp
  let ?f = "\<lambda>c. c\<lparr>adjust_state := NB_idle, ch_remote := (ch_remote c)\<lparr>window_size := window_size (ch_remote c) + adj\<rparr>\<rparr>"
  obtain s3 where s3: "update_channel s2 cid ?f = Some s3" "libssh2_channel_locate s3 cid = Some (?f ch')"
    by (rule chans.upd_obtains [of s2 cid ch' ?f]) (use l2 prep in auto)
  show "rc = 0 \<Longrightarrow> libssh2_channel_locate s' cid = Some (?f ch')"
    using call ch prep s1 s2 s3
    by (auto simp: libssh2_channel_receive_window_adjust_def libssh2_error_def elim!: bind_SomeE split: if_split_asm)
  show "rc = LIBSSH2_ERROR_EAGAIN \<Longrightarrow> libssh2_channel_locate s' cid = Some ch'"
    using call ch prep s1 s2 s3 l2 locate_error [of s2 rc2]
    by (auto simp: libssh2_channel_receive_window_adjust_def libssh2_error_def elim!: bind_SomeE split: if_split_asm
        cong: locate_cong)
qed

text \<open>C26. Giving window back to the peer. A due adjustment that is sent at once adds the amount it announces,
  the new bytes and those put off before, to the window of the channel. When the send would block
  and the call is repeated with the same amount, the packet that was announced still counts both, but
  the window grows by the new bytes only: the bytes put off before are lost, and data the peer then
  rightfully sends is cut.\<close>

theorem window_adjust_resumed:
  assumes ch: "libssh2_channel_locate s cid = Some ch" "adjust_state ch = NB_idle"
    and due: "force \<or> \<not> adjustment + adjust_queue ch < LIBSSH2_CHANNEL_MINADJUST"
      "adjustment \<noteq> 0 \<or> adjust_queue ch \<noteq> 0"
    and call: "libssh2_channel_receive_window_adjust s cid adjustment force = Some (rc, s1)"
  shows "(rc = 0 \<longrightarrow> (\<exists>c. libssh2_channel_locate s1 cid = Some c \<and> adjust_queue c = 0 \<and> adjust_state c = NB_idle \<and>
        window_size (ch_remote c) = window_size (ch_remote ch) + (adjustment + adjust_queue ch)))
   \<and> (rc = LIBSSH2_ERROR_EAGAIN \<longrightarrow>
        libssh2_channel_receive_window_adjust s1 cid adjustment force = Some (0, s2) \<longrightarrow>
        (\<exists>c1 c2. libssh2_channel_locate s1 cid = Some c1 \<and> libssh2_channel_locate s2 cid = Some c2 \<and>
           adjust_adjust c1 = SSH_MSG_CHANNEL_WINDOW_ADJUST # libssh2_htonu32 (cd_id (ch_remote ch))
             @ libssh2_htonu32 (adjustment + adjust_queue ch) \<and>
           adjust_queue c2 = 0 \<and> window_size (ch_remote c2) = window_size (ch_remote ch) + adjustment))"
proof -
  let ?adj = "adjustment + adjust_queue ch"
  let ?ch = "ch\<lparr>adjust_queue := 0, adjust_adjust := SSH_MSG_CHANNEL_WINDOW_ADJUST
      # libssh2_htonu32 (cd_id (ch_remote ch)) @ libssh2_htonu32 ?adj, adjust_state := NB_created\<rparr>"
  have id: "local_id ?ch = cid" using chans.find_ident [OF ch(1)] by simp
  have prep: "window_adjust_prepare ch adjustment force = Inr (?adj, ?ch)"
    using ch(2) due by (auto simp: window_adjust_prepare_def Let_def)
  have again: "window_adjust_prepare ?ch adjustment force = Inr (adjustment, ?ch)"
    by (simp add: window_adjust_prepare_def)
  note w = window_adjust_sends [OF ch(1) prep id call]
  show ?thesis
    using w window_adjust_sends [OF w(2) again id, of 0 s2] by auto
qed

section \<open>Forwarded connections whose confirmation would block\<close>

lemma error_frame [simp]:
  "packAdd_x11open_state (snd (libssh2_error s c m)) = packAdd_x11open_state s"
  "has_x11_cb (snd (libssh2_error s c m)) = has_x11_cb s"
  by (simp_all add: libssh2_error_def)

lemma alloc_x11: "libssh2_alloc s = (ok, s') \<Longrightarrow>
  packAdd_x11open_state s' = packAdd_x11open_state s \<and> has_x11_cb s' = has_x11_cb s"
  by (auto simp: libssh2_alloc_def split: list.split_asm)

lemma nextid_x11: "libssh2_channel_nextid s = (i, s') \<Longrightarrow>
  packAdd_x11open_state s' = packAdd_x11open_state s \<and> has_x11_cb s' = has_x11_cb s"
  by (auto simp: libssh2_channel_nextid_def Let_def)

lemma transport_send_x11: "libssh2_transport_send s a d d2 = Some (rc, s') \<Longrightarrow>
  packAdd_x11open_state s' = packAdd_x11open_state s \<and> has_x11_cb s' = has_x11_cb s"
  using transport_send_frame(3,6) by blast

lemma x11_accept_state:
  "x11_accept s = Inl (c, s') \<Longrightarrow> xo_channel (packAdd_x11open_state s') = xo_channel (packAdd_x11open_state s)
     \<and> has_x11_cb s' = has_x11_cb s"
  "x11_accept s = Inr (ch, s') \<Longrightarrow> xo_channel (packAdd_x11open_state s') = xo_channel (packAdd_x11open_state s)
     \<and> has_x11_cb s' = has_x11_cb s"
  by (auto simp: x11_accept_def Let_def split: if_split_asm prod.split_asm dest!: alloc_x11 nextid_x11)

lemma x11_send_state:
  "x11_confirm s data ch = Some (rc, s') \<Longrightarrow> xo_channel (packAdd_x11open_state s') = xo_channel (packAdd_x11open_state s)
     \<and> has_x11_cb s' = has_x11_cb s"
  "x11_reject s c = Some (rc, s') \<Longrightarrow> xo_channel (packAdd_x11open_state s') = xo_channel (packAdd_x11open_state s)
     \<and> has_x11_cb s' = has_x11_cb s"
  by (auto simp: x11_confirm_def x11_reject_def Let_def libssh2_error_def split: if_split_asm option.split_asm
      elim!: bind_SomeE dest!: transport_send_x11)

lemma packet_x11_open_state:
  "packet_x11_open s data = Some (rc, s') \<Longrightarrow>
     xo_channel (packAdd_x11open_state s') = xo_channel (packAdd_x11open_state s) \<and> has_x11_cb s' = has_x11_cb s"
  by (auto simp: packet_x11_open_def x11_parse_def Let_def split: if_split_asm sum.split_asm prod.split_asm
      elim!: bind_SomeE dest!: x11_accept_state x11_send_state)

text \<open>C27. A forwarded connection cannot be resumed safely. When the confirmation of an accepted X11 or
  TCP connection would block, \<^verbatim>\<open>_libssh2_packet_add\<close> returns \<^verbatim>\<open>LIBSSH2_ERROR_EAGAIN\<close>; the next call, once the
  confirmation is sent, links a channel through a pointer that is NULL by then (the X11 state never
  stores the channel, the listener state clears it on every entry).\<close>

theorem forward_resume_null:
  "(packAdd_state s = NB_idle \<and> rd8 data 0 = Some SSH_MSG_CHANNEL_OPEN \<and>
      libssh2_packet_add kx s data n True = Some (LIBSSH2_ERROR_EAGAIN, s1) \<and> packAdd_state s1 = NB_jump3 \<and>
      has_x11_cb s \<and> xo_state (packAdd_x11open_state s1) = NB_created \<and>
      libssh2_transport_send s1 addr_x11open_packet (take 17 (xo_packet (packAdd_x11open_state s1))) None =
        Some (0, s2) \<longrightarrow>
    libssh2_packet_add kx s1 data n True = None)
   \<and> (packAdd_state s1 = NB_jump2 \<and> rd8 data 0 = Some SSH_MSG_CHANNEL_OPEN \<and>
      ql_state (packAdd_Qlstn_state s1) = NB_created \<and>
      find_listener (packAdd_Qlstn_state s1) data (listeners s1) = Some (Some i) \<and>
      libssh2_transport_send (set_Qlstn ((packAdd_Qlstn_state s1)\<lparr>ql_channel := None\<rparr>) s1) addr_Qlstn_packet
        (take 17 (ql_packet (packAdd_Qlstn_state s1))) None = Some (0, s3) \<longrightarrow>
    libssh2_packet_add kx s1 data n True = None)"
proof (intro conjI impI; elim conjE)
  assume a: "packAdd_state s = NB_idle" "rd8 data 0 = Some SSH_MSG_CHANNEL_OPEN"
    "libssh2_packet_add kx s data n True = Some (LIBSSH2_ERROR_EAGAIN, s1)" "packAdd_state s1 = NB_jump3"
    "has_x11_cb s" "xo_state (packAdd_x11open_state s1) = NB_created"
    "libssh2_transport_send s1 addr_x11open_packet (take 17 (xo_packet (packAdd_x11open_state s1))) None = Some (0, s2)"
  let ?s = "s\<lparr>packAdd_state := NB_allocated\<rparr>"
  have op: "add_channel_open ?s data n = Some (LIBSSH2_ERROR_EAGAIN, s1)"
    using a by (simp add: libssh2_packet_add_def add_dispatch_def)
  have "jump_point2 t data \<noteq> Some (LIBSSH2_ERROR_EAGAIN, s1)" for t
    using a(4) by (auto simp: jump_point2_def elim!: bind_SomeE split: if_split_asm
        dest!: packet_queue_listener_kept keptD)
  with op have "jump_point3 (?s\<lparr>packAdd_x11open_state := packet_x11_open_state0\<rparr>) data = Some (LIBSSH2_ERROR_EAGAIN, s1)"
    by (auto simp: add_channel_open_def elim!: bind_SomeE split: if_split_asm)
  then have "packet_x11_open (?s\<lparr>packAdd_x11open_state := packet_x11_open_state0, packAdd_state := NB_jump3\<rparr>) data
      = Some (LIBSSH2_ERROR_EAGAIN, s1)"
    by (auto simp: jump_point3_def elim!: bind_SomeE split: if_split_asm)
  from packet_x11_open_state [OF this]
  have x: "xo_channel (packAdd_x11open_state s1) = None" "has_x11_cb s1"
    using a(5) by (simp_all add: packet_x11_open_state0_def)
  have s1: "s1\<lparr>packAdd_state := NB_jump3\<rparr> = s1" using a(4) by (cases s1) simp
  have "packet_x11_open s1 data = None"
    using x a(6,7) transport_send_frame(3) [OF a(7)]
    by (simp add: packet_x11_open_def x11_confirm_def Let_def)
  then show "libssh2_packet_add kx s1 data n True = None"
    using a(2,4) by (simp add: libssh2_packet_add_def jump_point3_def s1)
next
  assume a: "packAdd_state s1 = NB_jump2" "rd8 data 0 = Some SSH_MSG_CHANNEL_OPEN"
    "ql_state (packAdd_Qlstn_state s1) = NB_created"
    "find_listener (packAdd_Qlstn_state s1) data (listeners s1) = Some (Some i)"
    "libssh2_transport_send (set_Qlstn ((packAdd_Qlstn_state s1)\<lparr>ql_channel := None\<rparr>) s1) addr_Qlstn_packet
        (take 17 (ql_packet (packAdd_Qlstn_state s1))) None = Some (0, s3)"
  have s1: "s1\<lparr>packAdd_state := NB_jump2\<rparr> = s1" using a(1) by (cases s1) simp
  have q: "set_Qlstn (packAdd_Qlstn_state s1) s1 = s1" by (cases s1) simp
  have "packet_queue_listener s1 data = None"
    using a(3-5) transport_send_frame(4) [OF a(5)]
    by (simp add: packet_queue_listener_def Qlstn_confirm_def Let_def q)
  then show "libssh2_packet_add kx s1 data n True = None"
    using a(1,2) by (simp add: libssh2_packet_add_def jump_point2_def s1)
qed

section \<open>Short packets\<close>

text \<open>C28. Messages that are too short for the fields they announce are read beyond their end: an
  \<^verbatim>\<open>exit-status\<close> request of 20 to 24 bytes, and a disconnect or debug message of fewer bytes than its fixed
  part, whose length check wraps around.\<close>

theorem short_messages_overread:
  assumes "packAdd_state s = NB_idle" and n: "n = length data"
  shows "(20 \<le> length data \<and> length data < 25 \<and> take 1 data = [SSH_MSG_CHANNEL_REQUEST] \<and>
      rd32 data 1 = Some cid \<and> rd32 data 5 = Some 11 \<and> take 11 (drop 9 data) = cstr ''exit-status'' \<and>
      libssh2_channel_locate s cid = Some ch \<longrightarrow>
      libssh2_packet_add kx s data n True = None)
   \<and> (9 \<le> length data \<and> length data < 13 \<and> take 1 data = [SSH_MSG_DISCONNECT] \<longrightarrow>
      libssh2_packet_add kx s data n True = None)
   \<and> (6 \<le> length data \<and> length data < 10 \<and> take 1 data = [SSH_MSG_DEBUG] \<longrightarrow>
      libssh2_packet_add kx s data n True = None)"
proof (intro conjI impI; elim conjE)
  assume a: "20 \<le> length data" "length data < 25" "take 1 data = [SSH_MSG_CHANNEL_REQUEST]"
    "rd32 data 1 = Some cid" "rd32 data 5 = Some 11" "take 11 (drop 9 data) = cstr ''exit-status''"
    "libssh2_channel_locate s cid = Some ch"
  have m: "rd8 data 0 = Some SSH_MSG_CHANNEL_REQUEST" using a(1,3) by (cases data) (auto simp: rd8_def)
  have l: "libssh2_channel_locate (s\<lparr>packAdd_state := NB_allocated\<rparr>) cid = Some ch"
    using a(7) locate_cong [of "s\<lparr>packAdd_state := NB_allocated\<rparr>" s] by simp
  have "rd32 data 21 = None" using a(2) by (simp add: rd32_None)
  then show "libssh2_packet_add kx s data n True = None"
    using a m l assms(1) unfolding n
    by (auto simp: libssh2_packet_add_def add_dispatch_def add_channel_request_def rdn_def exit_status_request_def
        split: option.splits bind_splits)
next
  assume a: "9 \<le> length data" "length data < 13" "take 1 data = [SSH_MSG_DISCONNECT]"
  have m: "rd8 data 0 = Some SSH_MSG_DISCONNECT" using a(1,3) by (cases data) (auto simp: rd8_def)
  have sub: "size_sub (length data) 13 = 2 ^ 64 - (13 - length data)" using a by (intro size_sub_wraps) auto
  have "unat (mlen :: u32) < size_sub (length data) 13" for mlen
    unfolding sub by (rule less_le_trans [OF unat_u32_less]) simp
  then have "disconnect_texts data (length data) = None"
    using a by (auto simp: disconnect_texts_def rd32_def)
  then show "libssh2_packet_add kx s data n True = None"
    using a m assms(1) unfolding n by (auto simp: libssh2_packet_add_def add_dispatch_def add_disconnect_def)
next
  assume a: "6 \<le> length data" "length data < 10" "take 1 data = [SSH_MSG_DEBUG]"
  have m: "rd8 data 0 = Some SSH_MSG_DEBUG" using a(1,3) by (cases data) (auto simp: rd8_def)
  have sub: "size_sub (length data) 10 = 2 ^ 64 - (10 - length data)" using a by (intro size_sub_wraps) auto
  have "unat (mlen :: u32) \<le> size_sub (length data) 10" for mlen
    unfolding sub by (rule less_imp_le, rule less_le_trans [OF unat_u32_less]) simp
  then have "debug_texts data (length data) = None"
    using a by (auto simp: debug_texts_def rd32_def)
  then show "libssh2_packet_add kx s data n True = None"
    using a m assms(1) unfolding n by (auto simp: libssh2_packet_add_def add_dispatch_def add_debug_def rd8_def)
qed

lemmas sender_eval = libssh2_transport_send_def send_existing_def send_payload_def send_packet_def padding_for_def
  plain_packet_def send_new_def libssh2_send_def libssh2_random_def block_direction_def clear_direction_def
  state_has_def session_cleared_def env0_def transportpacket0_def endpoint0_def Let_def

definition x11_message :: "byte list" where
  "x11_message = [90, 0, 0, 0, 3, 120, 49, 49, 0, 0, 0, 7, 0, 0, 16, 0, 0, 0, 8, 0, 0, 0, 0, 0, 0, 0, 23, 112]"

definition x11_session :: session where
  "x11_session = (session_cleared (env0\<lparr>sends := [- 11]\<rparr>))\<lparr>has_x11_cb := True\<rparr>"

lemmas x11_eval = x11_message_def x11_session_def libssh2_packet_add_def add_dispatch_def add_channel_open_def
  jump_point3_def packet_x11_open_def x11_parse_def x11_accept_def x11_confirm_def rd8_def rd32_def rdn_def
  libssh2_ntohu32_def libssh2_alloc_def libssh2_channel_nextid_def new_channel_def channel0_def open_confirmation_def
  libssh2_store_u32_def libssh2_htonu32_def packet_x11_open_state0_def packet_queue_listener_state0_def cstr_def

lemma x11_first:
  "\<exists>s1. libssh2_packet_add kx x11_session x11_message 28 True = Some (LIBSSH2_ERROR_EAGAIN, s1) \<and>
     packAdd_state s1 = NB_jump3 \<and> xo_state (packAdd_x11open_state s1) = NB_created \<and>
     (\<exists>s2. libssh2_transport_send s1 addr_x11open_packet (take 17 (xo_packet (packAdd_x11open_state s1))) None =
        Some (0, s2))"
  by (simp add: x11_eval sender_eval)

theorem forward_resume_null_witness:
  "\<exists>s1. libssh2_packet_add (\<lambda>s. None) x11_session x11_message 28 True = Some (LIBSSH2_ERROR_EAGAIN, s1) \<and>
     libssh2_packet_add (\<lambda>s. None) s1 x11_message 28 True = None"
proof -
  obtain s1 s2 where s1: "libssh2_packet_add (\<lambda>s. None) x11_session x11_message 28 True = Some (LIBSSH2_ERROR_EAGAIN, s1)"
    "packAdd_state s1 = NB_jump3" "xo_state (packAdd_x11open_state s1) = NB_created"
    "libssh2_transport_send s1 addr_x11open_packet (take 17 (xo_packet (packAdd_x11open_state s1))) None = Some (0, s2)"
    using x11_first by blast
  have "packAdd_state x11_session = NB_idle" "has_x11_cb x11_session" "rd8 x11_message 0 = Some SSH_MSG_CHANNEL_OPEN"
    by (simp_all add: x11_session_def session_cleared_def x11_message_def rd8_def)
  with s1 forward_resume_null [of x11_session x11_message "\<lambda>s. None" 28 s1 s2] show ?thesis by blast
qed

definition demo_channel :: channel where
  "demo_channel = channel0\<lparr>ch_local := (ch_local channel0)\<lparr>cd_id := 3\<rparr>,
     ch_remote := (ch_remote channel0)\<lparr>cd_id := 8, window_size := 4, packet_size := 32768\<rparr>\<rparr>"

definition demo_session :: "int list \<Rightarrow> session" where
  "demo_session rs = (session_cleared (env0\<lparr>sends := rs\<rparr>))\<lparr>channels := [demo_channel], next_channel := 4\<rparr>"

theorem short_messages_overread_witness:
  "libssh2_packet_add (\<lambda>s. None) (demo_session []) ([98, 0, 0, 0, 3, 0, 0, 0, 11] @ cstr ''exit-status'') 20 True = None \<and>
   libssh2_packet_add (\<lambda>s. None) (demo_session []) [1, 0, 0, 0, 2, 0, 0, 0, 0] 9 True = None \<and>
   libssh2_packet_add (\<lambda>s. None) (demo_session []) [4, 0, 0, 0, 0, 0] 6 True = None"
proof -
  have s: "packAdd_state (demo_session []) = NB_idle" by (simp add: demo_session_def session_cleared_def)
  have l: "libssh2_channel_locate (demo_session []) 3 = Some demo_channel"
    by (simp add: libssh2_channel_locate_def demo_session_def demo_channel_def)
  let ?req = "[98, 0, 0, 0, 3, 0, 0, 0, 11] @ cstr ''exit-status''"
  have r: "rd32 ?req 1 = Some 3" "rd32 ?req 5 = Some 11" by (simp_all add: rd32_def libssh2_ntohu32_def)
  show ?thesis
    using short_messages_overread [OF s, of 20 ?req 3 demo_channel "\<lambda>s. None"]
      short_messages_overread [OF s, of 9 "[1, 0, 0, 0, 2, 0, 0, 0, 0]" 0 demo_channel "\<lambda>s. None"]
      short_messages_overread [OF s, of 6 "[4, 0, 0, 0, 0, 0]" 0 demo_channel "\<lambda>s. None"] l r
    by simp
qed

lemma window_adjust_blocks:
  "\<exists>s1 s2. libssh2_channel_receive_window_adjust (demo_session [- 11]) 3 2000 False = Some (LIBSSH2_ERROR_EAGAIN, s1) \<and>
     libssh2_channel_receive_window_adjust s1 3 2000 False = Some (0, s2)"
  by (simp add: libssh2_channel_receive_window_adjust_def demo_session_def demo_channel_def channel0_def
      libssh2_channel_locate_def window_adjust_prepare_def update_channel_def libssh2_error_def sender_eval libssh2_htonu32_def
      addr_adjust_def)

theorem window_adjust_resumed_witness:
  "\<exists>s1 s2 c1 c2. libssh2_channel_receive_window_adjust (demo_session [- 11]) 3 2000 False = Some (LIBSSH2_ERROR_EAGAIN, s1) \<and>
     libssh2_channel_receive_window_adjust s1 3 2000 False = Some (0, s2) \<and>
     libssh2_channel_locate s1 3 = Some c1 \<and> libssh2_channel_locate s2 3 = Some c2 \<and>
     adjust_adjust c1 = SSH_MSG_CHANNEL_WINDOW_ADJUST # libssh2_htonu32 8 @ libssh2_htonu32 2000 \<and>
     window_size (ch_remote c2) = 2004"
proof -
  obtain s1 s2 where c: "libssh2_channel_receive_window_adjust (demo_session [- 11]) 3 2000 False = Some (LIBSSH2_ERROR_EAGAIN, s1)"
    "libssh2_channel_receive_window_adjust s1 3 2000 False = Some (0, s2)" using window_adjust_blocks by blast
  have l: "libssh2_channel_locate (demo_session [- 11]) 3 = Some demo_channel"
    by (simp add: libssh2_channel_locate_def demo_session_def demo_channel_def)
  show ?thesis using c window_adjust_resumed [OF l _ _ _ c(1), of s2]
    by (auto simp: demo_channel_def channel0_def)
qed

theorem channel_data_flow_control_witness:
  "\<exists>s'. libssh2_packet_add (\<lambda>s. None) (demo_session []) [94, 0, 0, 0, 3, 0, 0, 0, 6, 1, 2, 3, 4, 5, 6] 15 True = Some (0, s') \<and>
     packets s' = [\<lparr>pk_data = [94, 0, 0, 0, 3, 0, 0, 0, 6, 1, 2, 3, 4, 5, 6], pk_data_len = 13, pk_data_head = 9\<rparr>] \<and>
     libssh2_channel_locate s' 3 = Some (after_data demo_channel 4)"
proof -
  have l: "libssh2_channel_locate (demo_session []) 3 = Some demo_channel"
    by (simp add: libssh2_channel_locate_def demo_session_def demo_channel_def)
  have p: "packAdd_state (demo_session []) = NB_idle" "allocs (env (demo_session [])) = []" "packets (demo_session []) = []"
    by (simp_all add: demo_session_def session_cleared_def env0_def)
  have d: "rd8 [94, 0, 0, 0, 3, 0, 0, 0, 6, 1, 2, 3, 4, 5, 6] 0 = Some SSH_MSG_CHANNEL_DATA"
    "rd32 [94, 0, 0, 0, 3, 0, 0, 0, 6, 1, 2, 3, 4, 5, 6] 1 = Some 3"
    by (simp_all add: rd8_def rd32_def libssh2_ntohu32_def)
  have w: "window_size (ch_remote demo_channel) \<noteq> 0" "9 \<le> (15 :: nat)"
    "4 = min (min (15 - 9) (unat (packet_size (ch_remote demo_channel)))) (unat (window_size (ch_remote demo_channel)))"
    by (simp_all add: demo_channel_def)
  show ?thesis using channel_data_flow_control [OF p(1,2) d w(2) l w(1,3), of "\<lambda>s. None"] p(3)
    by (elim exE conjE, intro exI conjI) simp_all
qed

theorem channel_nextid_fresh_witness:
  "(\<exists>s'. libssh2_channel_nextid (demo_session []) = (4, s') \<and> 4 < next_channel s') \<and>
   fst (libssh2_channel_nextid ((demo_session [])\<lparr>next_channel := 0\<rparr>)) \<in> {3}"
  using channel_nextid_fresh [of "demo_session []"] channel_nextid_fresh [of "(demo_session [])\<lparr>next_channel := 0\<rparr>"]
  by (auto simp: demo_session_def demo_channel_def session_cleared_def)

definition demo_packets :: "ssh_packet list" where
  "demo_packets = [\<lparr>pk_data = [6, 1], pk_data_len = 2, pk_data_head = 0\<rparr>,
     \<lparr>pk_data = [5, 2, 0], pk_data_len = 2, pk_data_head = 0\<rparr>, \<lparr>pk_data = [5, 3], pk_data_len = 2, pk_data_head = 0\<rparr>]"

theorem packet_ask_first_witness:
  "libssh2_packet_ask ((demo_session [])\<lparr>packets := demo_packets\<rparr>) 5 1 (Some [3]) 1 =
     Some (Some ([5, 3], 2), (demo_session [])\<lparr>packets := take 2 demo_packets\<rparr>)"
proof -
  have wf: "list_all packet_wf (packets ((demo_session [])\<lparr>packets := demo_packets\<rparr>))"
    by (simp add: demo_packets_def packet_wf_def)
  show ?thesis using packet_ask_first [OF wf, of 5 1 "Some [3]" 1]
    by (auto simp: demo_packets_def wanted_def Cons_eq_append_conv)
qed

definition forged_env :: env where
  "forged_env = env0\<lparr>recvs := [Received (map (\<lambda>x. x XOR 90) (packet_header 11 5 @ replicate 11 7) @ replicate 20 0)]\<rparr>"

theorem forged_never_queued_witness:
  "\<exists>b1 b2. polls (\<lambda>s. None) (libssh2_packet_add (\<lambda>s. None)) (session1 forged_env) b1 \<and>
     transport_read (\<lambda>s. None) b1 = Some (LIBSSH2_ERROR_INVALID_MAC, b2) \<and>
     packets b2 = [] \<and> channels b2 = []"
proof -
  have f: "packAdd_state (session1 e) = NB_idle" "\<not> has_macerror_cb (session1 e)" "packets (session1 e) = []"
    "channels (session1 e) = []" for e
    by (simp_all add: session1_def session_cleared_def)
  show ?thesis unfolding forged_env_def
    using forged_never_queued [OF receiver_ready1 f(1,2) _ arriving1, where kx = "\<lambda>s. None"] f(3,4)
    by (simp add: env0_def rd_mac_def libssh2_mac_methods_def mac_method_hmac_sha1_hash_def crypto1_def
      packet_header_def libssh2_htonu32_def sum_list_replicate)
qed


end
