(* ===== verification/Kex.thy ===== *)
theory Kex
  imports Methods
begin

text \<open>
  The method negotiation of \<^verbatim>\<open>libssh2/src/kex.c\<close>: building the name lists of a KEXINIT packet,
  finding a name in the peer's list, agreeing on each kind of method, taking a KEXINIT packet
  apart, and setting and querying preferences.

  A pointer into the received packet is an offset into its memory \<open>mem\<close>, so that the string
  functions, which look for a NUL and not for the end of the packet, may leave it: that is
  \<open>None\<close>. The four \<^verbatim>\<open>kex_agree_*\<close> functions have the same two loops (over the caller's
  preferences or over the method table); they are \<open>pref_loop\<close> and \<open>method_loop\<close> here.
\<close>

text \<open>The character constant \<^verbatim>\<open>','\<close>.\<close>

abbreviation (input) comma :: byte where
  "comma \<equiv> 44"

section \<open>Method lists\<close>

definition kex_method_strlen :: "byte list list \<Rightarrow> nat" where
  "kex_method_strlen names =
     (if names = [] then 0 else sum_list (map (\<lambda>n. length n + 1) names) - 1)"

text \<open>The bytes written at \<^verbatim>\<open>buf\<close> (a comma follows every name, the last one too) and the returned
  count, by which the caller advances.\<close>

definition kex_method_list :: "nat \<Rightarrow> byte list list \<Rightarrow> byte list \<times> nat" where
  "kex_method_list list_strlen names =
     (if names = [] then (libssh2_htonu32 (word_of_nat list_strlen), 4)
      else (libssh2_htonu32 (word_of_nat list_strlen) @ concat (map (\<lambda>n. n @ [comma]) names),
            list_strlen + 4))"

definition method_prefs_len :: "byte list option \<Rightarrow> byte list list \<Rightarrow> nat" where
  "method_prefs_len prefs names = (case prefs of Some p \<Rightarrow> strlen p | None \<Rightarrow> kex_method_strlen names)"

text \<open>The bytes left between the old and the new write pointer.\<close>

definition method_prefs_str :: "byte list option \<Rightarrow> byte list list \<Rightarrow> byte list" where
  "method_prefs_str prefs names =
     (case prefs of
        Some p \<Rightarrow> libssh2_htonu32 (word_of_nat (strlen p)) @ cstring p
      | None \<Rightarrow> (case kex_method_list (kex_method_strlen names) names of (b, n) \<Rightarrow> take n b))"

section \<open>Searching a name list\<close>

text \<open>\<^verbatim>\<open>strchr\<close> and \<^verbatim>\<open>strncmp(...) == 0\<close> on memory: \<open>None\<close> when they read past it.\<close>

function strchr_at :: "byte list \<Rightarrow> nat \<Rightarrow> byte \<Rightarrow> nat option ub" where
  "strchr_at mem i c =
     (if i < length mem then
        (if mem ! i = c then Some (Some i)
         else if mem ! i = 0 then Some None
         else strchr_at mem (i + 1) c)
      else None)"
  by pat_completeness auto
termination
  by (relation "measure (\<lambda>(mem, i, _). length mem - i)") auto

fun strncmp_at :: "byte list \<Rightarrow> nat \<Rightarrow> byte list \<Rightarrow> bool ub" where
  "strncmp_at mem i [] = Some True"
| "strncmp_at mem i (c # cs) =
     (if i < length mem then
        (if mem ! i = c then (if c = 0 then Some True else strncmp_at mem (i + 1) cs) else Some False)
      else None)"

declare strchr_at.simps [simp del]

lemma strchr_at_pos: "strchr_at mem i c = Some (Some p) \<Longrightarrow> i \<le> p \<and> p < length mem \<and> mem ! p = c"
  by (induction mem i c rule: strchr_at.induct)
    (subst (asm) (2) strchr_at.simps, fastforce split: if_splits)

text \<open>Whether the needle stands at \<open>s\<close>, ended by a comma or the end of the list.\<close>

definition needle_at :: "byte list \<Rightarrow> nat \<Rightarrow> nat \<Rightarrow> byte list \<Rightarrow> nat \<Rightarrow> bool ub" where
  "needle_at mem h hlen needle s =
     (case strncmp_at mem s needle of
        None \<Rightarrow> None
      | Some False \<Rightarrow> Some False
      | Some True \<Rightarrow>
          if (s - h) + length needle = hlen then Some True
          else map_option (\<lambda>b. b = comma) (rd8 mem (s + length needle)))"

function instr_loop :: "byte list \<Rightarrow> nat \<Rightarrow> nat \<Rightarrow> byte list \<Rightarrow> nat \<Rightarrow> nat option ub" where
  "instr_loop mem h hlen needle s =
     (case strchr_at mem s comma of
        None \<Rightarrow> None
      | Some None \<Rightarrow> Some None
      | Some (Some p) \<Rightarrow>
          if size_sub hlen (p - h) > length needle then
            (case needle_at mem h hlen needle (p + 1) of
               None \<Rightarrow> None
             | Some True \<Rightarrow> Some (Some (p + 1))
             | Some False \<Rightarrow> instr_loop mem h hlen needle (p + 1))
          else Some None)"
  by pat_completeness auto
termination
  by (relation "measure (\<lambda>(mem, _, _, _, s). length mem - s)") (auto dest!: strchr_at_pos)

declare instr_loop.simps [simp del]

definition kex_agree_instr :: "byte list \<Rightarrow> nat \<Rightarrow> nat \<Rightarrow> byte list \<Rightarrow> nat option ub" where
  "kex_agree_instr mem haystack haystack_len needle =
     (if haystack_len < length needle then Some None
      else case needle_at mem haystack haystack_len needle haystack of
        None \<Rightarrow> None
      | Some True \<Rightarrow> Some (Some haystack)
      | Some False \<Rightarrow> instr_loop mem haystack haystack_len needle haystack)"

definition kex_get_method_by_name :: "('m \<Rightarrow> byte list) \<Rightarrow> byte list \<Rightarrow> 'm list \<Rightarrow> 'm option" where
  "kex_get_method_by_name nm name methodlist = find (\<lambda>m. nm m = name) methodlist"

section \<open>Agreeing on a method\<close>

text \<open>The loops over the preference string and over the method table. The body returns
  \<open>Some (Some r)\<close> to leave the function with \<open>r\<close> and \<open>Some None\<close> to go on.\<close>

function pref_loop :: "(byte list \<Rightarrow> 'r option ub) \<Rightarrow> byte list \<Rightarrow> 'r option ub" where
  "pref_loop body s =
     (if s = [] then Some None
      else case body (takeWhile (\<lambda>c. c \<noteq> comma) s) of
        None \<Rightarrow> None
      | Some (Some r) \<Rightarrow> Some (Some r)
      | Some None \<Rightarrow>
          (case dropWhile (\<lambda>c. c \<noteq> comma) s of
             [] \<Rightarrow> Some None
           | _ # rest \<Rightarrow> pref_loop body rest))"
  by pat_completeness auto
termination
  by (relation "measure (length \<circ> snd)") (auto dest: dropWhile_Cons_shorter)

declare pref_loop.simps [simp del]

fun method_loop :: "('m \<Rightarrow> 'r option ub) \<Rightarrow> 'm list \<Rightarrow> 'r option ub" where
  "method_loop body [] = Some None"
| "method_loop body (m # ms) =
     (case body m of
        None \<Rightarrow> None
      | Some (Some r) \<Rightarrow> Some (Some r)
      | Some None \<Rightarrow> method_loop body ms)"

text \<open>The common search: \<open>accept m q\<close> is the code run once a method was found at \<open>q\<close> in the peer's
  list; \<open>invalid\<close> is the result for a preferred name that is in no table.\<close>

definition agree_search ::
  "('m \<Rightarrow> byte list) \<Rightarrow> 'm list \<Rightarrow> byte list option \<Rightarrow> byte list \<Rightarrow> nat \<Rightarrow> nat \<Rightarrow>
   ('m \<Rightarrow> nat \<Rightarrow> 'r option ub) \<Rightarrow> 'r \<Rightarrow> 'r option ub" where
  "agree_search nm methods prefs mem h hlen accept invalid =
     (case prefs of
        Some p \<Rightarrow>
          pref_loop (\<lambda>name.
            case kex_agree_instr mem h hlen name of
              None \<Rightarrow> None
            | Some None \<Rightarrow> Some None
            | Some (Some q) \<Rightarrow>
                (case kex_get_method_by_name nm name methods of
                   None \<Rightarrow> Some (Some invalid)
                 | Some m \<Rightarrow> accept m q)) (cstring p)
      | None \<Rightarrow>
          method_loop (\<lambda>m.
            case kex_agree_instr mem h hlen (nm m) of
              None \<Rightarrow> None
            | Some None \<Rightarrow> Some None
            | Some (Some q) \<Rightarrow> accept m q) methods)"

text \<open>Either this host key can do what the key exchange requires or the exchange does not require
  it.\<close>

definition hostkey_suits :: "u32 \<Rightarrow> hostkey_method \<Rightarrow> bool" where
  "hostkey_suits kex_flags m \<longleftrightarrow>
     (kex_flags AND FLAG_REQ_ENC_HOSTKEY = 0 \<or> hm_encrypt m) \<and>
     (kex_flags AND FLAG_REQ_SIGN_HOSTKEY = 0 \<or> hm_sig_verify m)"

definition kex_agree_hostkey ::
  "session \<Rightarrow> u32 \<Rightarrow> byte list \<Rightarrow> nat \<Rightarrow> nat \<Rightarrow> (int \<times> session) ub" where
  "kex_agree_hostkey s kex_flags mem hk hk_len =
     (case agree_search hm_name libssh2_hostkey_methods (hostkey_prefs s) mem hk hk_len
             (\<lambda>m q. Some (if hostkey_suits kex_flags m then Some (0, s\<lparr>hostkey := Some m\<rparr>) else None))
             (-1, s) of
        None \<Rightarrow> None
      | Some (Some r) \<Rightarrow> Some r
      | Some None \<Rightarrow> Some (-1, s))"

definition kex_agree_kex_hostkey ::
  "session \<Rightarrow> byte list \<Rightarrow> nat \<Rightarrow> nat \<Rightarrow> nat \<Rightarrow> nat \<Rightarrow> (int \<times> session) ub" where
  "kex_agree_kex_hostkey s mem kx kx_len hk hk_len =
     (case agree_search km_name libssh2_kex_methods (kex_prefs s) mem kx kx_len
             (\<lambda>m q. case kex_agree_hostkey s (km_flags m) mem hk hk_len of
                      None \<Rightarrow> None
                    | Some (rc, s1) \<Rightarrow>
                        Some (if rc = 0
                              then Some (0, s1\<lparr>kex := Some m,
                                burn_optimistic_kexinit :=
                                  (if burn_optimistic_kexinit s1 \<and> kx = q then False
                                   else burn_optimistic_kexinit s1)\<rparr>)
                              else None))
             (-1, s) of
        None \<Rightarrow> None
      | Some (Some r) \<Rightarrow> Some r
      | Some None \<Rightarrow> Some (-1, s))"

definition kex_agree_crypt ::
  "crypto \<Rightarrow> endpoint \<Rightarrow> byte list \<Rightarrow> nat \<Rightarrow> nat \<Rightarrow> (int \<times> endpoint) ub" where
  "kex_agree_crypt c ep mem cr cr_len =
     (case agree_search cm_name (libssh2_crypt_methods c) (crypt_prefs ep) mem cr cr_len
             (\<lambda>m q. Some (Some (0, ep\<lparr>crypt := Some m\<rparr>))) (-1, ep) of
        None \<Rightarrow> None
      | Some (Some r) \<Rightarrow> Some r
      | Some None \<Rightarrow> Some (-1, ep))"

definition kex_agree_mac ::
  "crypto \<Rightarrow> endpoint \<Rightarrow> byte list \<Rightarrow> nat \<Rightarrow> nat \<Rightarrow> (int \<times> endpoint) ub" where
  "kex_agree_mac c ep mem mc mc_len =
     (case agree_search mm_name (libssh2_mac_methods c) (mac_prefs ep) mem mc mc_len
             (\<lambda>m q. Some (Some (0, ep\<lparr>mac := Some m\<rparr>))) (-1, ep) of
        None \<Rightarrow> None
      | Some (Some r) \<Rightarrow> Some r
      | Some None \<Rightarrow> Some (-1, ep))"

definition kex_agree_comp ::
  "crypto \<Rightarrow> session \<Rightarrow> endpoint \<Rightarrow> byte list \<Rightarrow> nat \<Rightarrow> nat \<Rightarrow> (int \<times> endpoint) ub" where
  "kex_agree_comp c s ep mem cp cp_len =
     (case agree_search pm_name (libssh2_comp_methods c s) (comp_prefs ep) mem cp cp_len
             (\<lambda>m q. Some (Some (0, ep\<lparr>comp := Some m\<rparr>))) (-1, ep) of
        None \<Rightarrow> None
      | Some (Some r) \<Rightarrow> Some r
      | Some None \<Rightarrow> Some (-1, ep))"

section \<open>Taking a KEXINIT packet apart\<close>

text \<open>A string at offset \<open>s\<close>: where its bytes start, its length, and the offset after it.\<close>

definition locate_string :: "byte list \<Rightarrow> nat \<Rightarrow> (nat \<times> nat \<times> nat) ub" where
  "locate_string mem s = map_option (\<lambda>v. (s + 4, unat v, s + 4 + unat v)) (rd32 mem s)"

text \<open>The agreement steps on the located lists; a step that fails leaves what earlier steps
  stored.\<close>

definition kex_agree_all ::
  "crypto \<Rightarrow> session \<Rightarrow> byte list \<Rightarrow> (nat \<times> nat) list \<Rightarrow> (int \<times> session) ub" where
  "kex_agree_all c s mem ls =
     do {
       (rc, s) \<leftarrow> kex_agree_kex_hostkey s mem (fst (ls ! 0)) (snd (ls ! 0)) (fst (ls ! 1)) (snd (ls ! 1));
       if rc \<noteq> 0 then Some (-1, s) else do {
       (rc, ep) \<leftarrow> kex_agree_crypt c (local_ep s) mem (fst (ls ! 2)) (snd (ls ! 2));
       s \<leftarrow> Some (s\<lparr>local_ep := ep\<rparr>);
       if rc \<noteq> 0 then Some (-1, s) else do {
       (rc, ep) \<leftarrow> kex_agree_crypt c (remote_ep s) mem (fst (ls ! 3)) (snd (ls ! 3));
       s \<leftarrow> Some (s\<lparr>remote_ep := ep\<rparr>);
       if rc \<noteq> 0 then Some (-1, s) else do {
       (rc, ep) \<leftarrow> kex_agree_mac c (local_ep s) mem (fst (ls ! 4)) (snd (ls ! 4));
       s \<leftarrow> Some (s\<lparr>local_ep := ep\<rparr>);
       if rc \<noteq> 0 then Some (-1, s) else do {
       (rc, ep) \<leftarrow> kex_agree_mac c (remote_ep s) mem (fst (ls ! 5)) (snd (ls ! 5));
       s \<leftarrow> Some (s\<lparr>remote_ep := ep\<rparr>);
       if rc \<noteq> 0 then Some (-1, s) else do {
       (rc, ep) \<leftarrow> kex_agree_comp c s (local_ep s) mem (fst (ls ! 6)) (snd (ls ! 6));
       s \<leftarrow> Some (s\<lparr>local_ep := ep\<rparr>);
       if rc \<noteq> 0 then Some (-1, s) else do {
       (rc, ep) \<leftarrow> kex_agree_comp c s (remote_ep s) mem (fst (ls ! 7)) (snd (ls ! 7));
       s \<leftarrow> Some (s\<lparr>remote_ep := ep\<rparr>);
       if rc \<noteq> 0 then Some (-1, s) else Some (0, s) }}}}}}
     }"

text \<open>\<open>burn_optimistic_kexinit\<close> is a one-bit field, so it keeps the low bit of the byte at \<^verbatim>\<open>s\<close>;
  after the last located string \<^verbatim>\<open>s\<close> still points to that string's length.\<close>

definition kex_agree_methods ::
  "crypto \<Rightarrow> session \<Rightarrow> byte list \<Rightarrow> nat \<Rightarrow> (int \<times> session) ub" where
  "kex_agree_methods c s mem data_len =
     do {
       (kx, kx_len, p) \<leftarrow> locate_string mem 17;
       (hk, hk_len, p) \<leftarrow> locate_string mem p;
       (crypt_cs, crypt_cs_len, p) \<leftarrow> locate_string mem p;
       (crypt_sc, crypt_sc_len, p) \<leftarrow> locate_string mem p;
       (mac_cs, mac_cs_len, p) \<leftarrow> locate_string mem p;
       (mac_sc, mac_sc_len, p) \<leftarrow> locate_string mem p;
       (comp_cs, comp_cs_len, p) \<leftarrow> locate_string mem p;
       (comp_sc, comp_sc_len, _) \<leftarrow> locate_string mem p;
       b \<leftarrow> rd8 mem p;
       s \<leftarrow> Some (s\<lparr>burn_optimistic_kexinit := odd (unat b)\<rparr>);
       if data_len < p + 1 then Some (-1, s)
       else kex_agree_all c s mem
              [(kx, kx_len), (hk, hk_len), (crypt_cs, crypt_cs_len), (crypt_sc, crypt_sc_len),
               (mac_cs, mac_cs_len), (mac_sc, mac_sc_len), (comp_cs, comp_cs_len),
               (comp_sc, comp_sc_len)]
     }"

section \<open>Preferences\<close>

datatype method_type =
  METHOD_KEX | METHOD_HOSTKEY | METHOD_CRYPT_CS | METHOD_CRYPT_SC | METHOD_MAC_CS | METHOD_MAC_SC
  | METHOD_COMP_CS | METHOD_COMP_SC | METHOD_LANG_CS | METHOD_LANG_SC

definition method_type_of :: "int \<Rightarrow> method_type option" where
  "method_type_of i = map_of (zip [0..9]
     [METHOD_KEX, METHOD_HOSTKEY, METHOD_CRYPT_CS, METHOD_CRYPT_SC, METHOD_MAC_CS, METHOD_MAC_SC,
      METHOD_COMP_CS, METHOD_COMP_SC, METHOD_LANG_CS, METHOD_LANG_SC]) i"

text \<open>\<^verbatim>\<open>mlist\<close>: the names of the table, \<open>None\<close> when the pointer is NULL.\<close>

fun mlist_names :: "crypto \<Rightarrow> session \<Rightarrow> method_type \<Rightarrow> byte list list option" where
  "mlist_names c s METHOD_KEX = Some (map km_name libssh2_kex_methods)"
| "mlist_names c s METHOD_HOSTKEY = Some (map hm_name libssh2_hostkey_methods)"
| "mlist_names c s METHOD_CRYPT_CS = Some (map cm_name (libssh2_crypt_methods c))"
| "mlist_names c s METHOD_CRYPT_SC = Some (map cm_name (libssh2_crypt_methods c))"
| "mlist_names c s METHOD_MAC_CS = Some (map mm_name (libssh2_mac_methods c))"
| "mlist_names c s METHOD_MAC_SC = Some (map mm_name (libssh2_mac_methods c))"
| "mlist_names c s METHOD_COMP_CS = Some (map pm_name (libssh2_comp_methods c s))"
| "mlist_names c s METHOD_COMP_SC = Some (map pm_name (libssh2_comp_methods c s))"
| "mlist_names c s METHOD_LANG_CS = None"
| "mlist_names c s METHOD_LANG_SC = None"

fun set_prefvar :: "method_type \<Rightarrow> byte list \<Rightarrow> session \<Rightarrow> session" where
  "set_prefvar METHOD_KEX p s = s\<lparr>kex_prefs := Some p\<rparr>"
| "set_prefvar METHOD_HOSTKEY p s = s\<lparr>hostkey_prefs := Some p\<rparr>"
| "set_prefvar METHOD_CRYPT_CS p s = s\<lparr>local_ep := (local_ep s)\<lparr>crypt_prefs := Some p\<rparr>\<rparr>"
| "set_prefvar METHOD_CRYPT_SC p s = s\<lparr>remote_ep := (remote_ep s)\<lparr>crypt_prefs := Some p\<rparr>\<rparr>"
| "set_prefvar METHOD_MAC_CS p s = s\<lparr>local_ep := (local_ep s)\<lparr>mac_prefs := Some p\<rparr>\<rparr>"
| "set_prefvar METHOD_MAC_SC p s = s\<lparr>remote_ep := (remote_ep s)\<lparr>mac_prefs := Some p\<rparr>\<rparr>"
| "set_prefvar METHOD_COMP_CS p s = s\<lparr>local_ep := (local_ep s)\<lparr>comp_prefs := Some p\<rparr>\<rparr>"
| "set_prefvar METHOD_COMP_SC p s = s\<lparr>remote_ep := (remote_ep s)\<lparr>comp_prefs := Some p\<rparr>\<rparr>"
| "set_prefvar METHOD_LANG_CS p s = s\<lparr>local_ep := (local_ep s)\<lparr>lang_prefs := Some p\<rparr>\<rparr>"
| "set_prefvar METHOD_LANG_SC p s = s\<lparr>remote_ep := (remote_ep s)\<lparr>lang_prefs := Some p\<rparr>\<rparr>"

text \<open>The string at offset \<open>i\<close> of a buffer that holds its terminating NULs, and the copy of \<open>n\<close>
  bytes within it (the source copies forwards over itself).\<close>

definition str_at :: "byte list \<Rightarrow> nat \<Rightarrow> byte list" where
  "str_at b i = cstring (drop i b)"

definition copy_within :: "byte list \<Rightarrow> nat \<Rightarrow> nat \<Rightarrow> nat \<Rightarrow> byte list" where
  "copy_within b to from n = take to b @ take n (drop from b) @ drop (to + n) b"

text \<open>The stripping loop on the copied preferences; \<open>s\<close> is an offset. A NULL table is
  dereferenced.\<close>

function strip_loop :: "byte list list option \<Rightarrow> byte list \<Rightarrow> nat \<Rightarrow> byte list ub" where
  "strip_loop mlist b s =
     (if str_at b s = [] then Some b
      else case mlist of
        None \<Rightarrow> None
      | Some names \<Rightarrow>
          let name = takeWhile (\<lambda>c. c \<noteq> comma) (str_at b s);
              p = (if comma \<in> set (str_at b s) then Some (s + length name) else None);
              b' = (if name \<in> set names then b
                    else case p of
                      Some p \<Rightarrow> copy_within b s (p + 1) (length (str_at b s) - length name)
                    | None \<Rightarrow> if s > 0 then b[s - 1 := 0] else b[s := 0])
          in case p of
               Some p \<Rightarrow> strip_loop mlist b' (p + 1)
             | None \<Rightarrow> Some b')"
  by pat_completeness auto

lemma length_copy_within: "to \<le> from \<Longrightarrow> length (copy_within b to from n) \<le> length b"
  by (auto simp: copy_within_def min_def)

lemma name_in_buffer:
  "comma \<in> set (str_at b s) \<Longrightarrow> s + length (takeWhile (\<lambda>c. c \<noteq> comma) (str_at b s)) < length b"
proof -
  assume "comma \<in> set (str_at b s)"
  then have "length (takeWhile (\<lambda>c. c \<noteq> comma) (str_at b s)) < length (str_at b s)"
    by (rule length_takeWhile_mem)
  moreover have "length (str_at b s) \<le> length b - s"
    unfolding str_at_def length_cstring strlen_def
    using length_takeWhile_le [of "\<lambda>c. c \<noteq> 0" "drop s b"] by simp
  ultimately show ?thesis by linarith
qed

lemma strip_measure:
  "comma \<in> set (str_at b s) \<Longrightarrow> length b' \<le> length b \<Longrightarrow>
   length b' - (s + length (takeWhile (\<lambda>c. c \<noteq> comma) (str_at b s)) + 1) < length b - s"
  using name_in_buffer [of b s] by linarith

termination strip_loop
  by (relation "measure (\<lambda>(_, b, s). length b - s)")
    (use strip_measure length_copy_within in \<open>auto split: if_splits
      intro!: strip_measure [where s = 0, simplified] length_copy_within\<close>)

declare strip_loop.simps [simp del]

definition libssh2_session_method_pref ::
  "crypto \<Rightarrow> session \<Rightarrow> int \<Rightarrow> byte list \<Rightarrow> (int \<times> session) ub" where
  "libssh2_session_method_pref c s method_type prefs =
     (case method_type_of method_type of
        None \<Rightarrow>
          Some (libssh2_error s LIBSSH2_ERROR_INVAL ''Invalid parameter specified for method_type'')
      | Some mt \<Rightarrow>
          (case libssh2_alloc s of
             (False, s1) \<Rightarrow>
               Some (libssh2_error s1 LIBSSH2_ERROR_ALLOC
                       ''Error allocated space for method preferences'')
           | (True, s1) \<Rightarrow>
               (case strip_loop (mlist_names c s mt) (cstring prefs @ [0]) 0 of
                  None \<Rightarrow> None
                | Some newprefs \<Rightarrow>
                    if strlen newprefs = 0 then
                      Some (libssh2_error s1 LIBSSH2_ERROR_METHOD_NOT_SUPPORTED
                              ''The requested method(s) are not currently supported'')
                    else Some (0, set_prefvar mt (cstring newprefs) s1))))"

text \<open>\<open>algs\<close> says whether the result pointer is given; the result is the count or an error, and
  the names.\<close>

definition libssh2_session_supported_algs ::
  "crypto \<Rightarrow> session \<Rightarrow> int \<Rightarrow> bool \<Rightarrow> int \<times> byte list list option \<times> session" where
  "libssh2_session_supported_algs c s method_type algs =
     (if \<not> algs then
        (let (rc, s1) = libssh2_error s LIBSSH2_ERROR_BAD_USE ''algs must not be NULL'' in (rc, None, s1))
      else case method_type_of method_type of
        None \<Rightarrow>
          (let (rc, s1) = libssh2_error s LIBSSH2_ERROR_METHOD_NOT_SUPPORTED ''Unknown method type''
           in (rc, None, s1))
      | Some mt \<Rightarrow>
          (case mlist_names c s mt of
             None \<Rightarrow>
               (let (rc, s1) = libssh2_error s LIBSSH2_ERROR_METHOD_NOT_SUPPORTED ''Unknown method type''
                in (rc, None, s1))
           | Some names \<Rightarrow>
               if names = [] then
                 (let (rc, s1) = libssh2_error s LIBSSH2_ERROR_INVAL ''No algorithm found''
                  in (rc, None, s1))
               else case libssh2_alloc s of
                 (False, s1) \<Rightarrow>
                   (let (rc, s2) = libssh2_error s1 LIBSSH2_ERROR_ALLOC ''Memory allocation failed''
                    in (rc, None, s2))
               | (True, s1) \<Rightarrow> (int (length names), Some names, s1)))"

section \<open>What the list search finds\<close>

text \<open>The names of a comma-separated list.\<close>

function name_items :: "byte list \<Rightarrow> byte list list" where
  "name_items s =
     takeWhile (\<lambda>c. c \<noteq> comma) s #
       (case dropWhile (\<lambda>c. c \<noteq> comma) s of [] \<Rightarrow> [] | _ # r \<Rightarrow> name_items r)"
  by pat_completeness auto
termination
  by (relation "measure length") (auto dest: dropWhile_Cons_shorter)

declare name_items.simps [simp del]

lemma name_items_comma_free: "comma \<notin> set s \<Longrightarrow> name_items s = [s]"
proof -
  assume "comma \<notin> set s"
  then have "takeWhile (\<lambda>c. c \<noteq> comma) s = s" "dropWhile (\<lambda>c. c \<noteq> comma) s = []"
    by (auto simp: takeWhile_eq_all_conv dropWhile_eq_Nil_conv)
  then show ?thesis unfolding name_items.simps [of s] by (simp only: list.case)
qed

lemma name_items_hd: "name_items s = takeWhile (\<lambda>c. c \<noteq> comma) s # tl (name_items s)"
proof -
  have "hd (name_items s) = takeWhile (\<lambda>c. c \<noteq> comma) s" by (subst name_items.simps) simp
  moreover have "name_items s \<noteq> []" by (subst name_items.simps) simp
  ultimately show ?thesis by (metis list.collapse)
qed

lemma name_items_app: "comma \<notin> set w \<Longrightarrow> name_items (w @ comma # r) = w # name_items r"
proof -
  assume "comma \<notin> set w"
  then have "takeWhile (\<lambda>c. c \<noteq> comma) (w @ comma # r) = w"
    "dropWhile (\<lambda>c. c \<noteq> comma) (w @ comma # r) = comma # r"
    by (intro takeWhile_all_app, auto)+ (intro dropWhile_all_app, auto)
  then show ?thesis by (subst name_items.simps) simp
qed

lemma name_items_split:
  obtains (last) "comma \<notin> set s" "name_items s = [s]"
  | (more) w r where "s = w @ comma # r" "comma \<notin> set w" "name_items s = w # name_items r"
proof (cases "comma \<in> set s")
  case False
  then show ?thesis using last name_items_comma_free by blast
next
  case True
  then obtain w r where "s = w @ comma # r" "comma \<notin> set w" by (meson split_list_first)
  then show ?thesis using more name_items_app by blast
qed

lemma name_item_length: "it \<in> set (name_items s) \<Longrightarrow> length it \<le> length s"
proof (induction s rule: length_induct)
  case (1 s)
  show ?case
  proof (cases rule: name_items_split [of s])
    case last
    with 1 show ?thesis by simp
  next
    case (more w r)
    with 1(2) have "it = w \<or> it \<in> set (name_items r)" by simp
    moreover have "length r < length s" "length w \<le> length s" using more by simp_all
    ultimately show ?thesis using 1(1) by fastforce
  qed
qed

lemma strchr_at_list:
  "0 \<notin> set t \<Longrightarrow> strchr_at (p @ t @ 0 # post) (length p) comma =
     Some (if comma \<in> set t then Some (length p + length (takeWhile (\<lambda>c. c \<noteq> comma) t)) else None)"
proof (induction t arbitrary: p)
  case Nil
  show ?case by (subst strchr_at.simps) simp
next
  case (Cons x t)
  show ?case
  proof (cases "x = comma")
    case True
    show ?thesis by (subst strchr_at.simps) (simp add: True)
  next
    case False
    with Cons.prems Cons.IH [of "p @ [x]"] show ?thesis by (subst strchr_at.simps) simp
  qed
qed

lemma strncmp_at_list:
  "0 \<notin> set needle \<Longrightarrow>
   strncmp_at (p @ t @ 0 # post) (length p) needle = Some (take (length needle) t = needle)"
proof (induction needle arbitrary: p t)
  case (Cons c cs)
  show ?case
  proof (cases t)
    case Nil
    with Cons.prems show ?thesis by simp
  next
    case t: (Cons x t')
    with Cons.prems Cons.IH [of "p @ [x]" t'] show ?thesis by auto
  qed
qed simp

lemma needle_at_list:
  assumes "0 \<notin> set needle" "comma \<notin> set needle" "0 \<notin> set t" "hlen = length u + length t"
  shows "needle_at (pre @ u @ t @ 0 # post) (length pre) hlen needle (length pre + length u) =
    Some (takeWhile (\<lambda>c. c \<noteq> comma) t = needle)"
proof -
  let ?mem = "pre @ u @ t @ 0 # post"
  have cmp: "strncmp_at ?mem (length pre + length u) needle = Some (take (length needle) t = needle)"
    using strncmp_at_list [OF assms(1), of "pre @ u" t post] by simp
  show ?thesis
  proof (cases "take (length needle) t = needle")
    case False
    moreover have "takeWhile (\<lambda>c. c \<noteq> comma) t \<noteq> needle"
      using False by (metis takeWhile_eq_take)
    ultimately show ?thesis by (simp add: needle_at_def cmp)
  next
    case True
    then obtain r where t: "t = needle @ r" by (metis append_take_drop_id)
    show ?thesis
    proof (cases r)
      case Nil
      have "takeWhile (\<lambda>c. c \<noteq> comma) needle = needle"
        using assms(2) by (auto simp: takeWhile_eq_all_conv)
      with t Nil True assms show ?thesis unfolding needle_at_def cmp by simp
    next
      case (Cons x r')
      with t assms have "rd8 ?mem (length pre + length u + length needle) = Some x"
        by (simp add: rd8_def nth_append)
      moreover have "takeWhile (\<lambda>c. c \<noteq> comma) t = needle \<longleftrightarrow> x = comma"
        using t Cons assms(2) by (auto simp: takeWhile_append takeWhile_tail)
      ultimately show ?thesis using t Cons True assms(4) unfolding needle_at_def cmp by simp
    qed
  qed
qed

lemma instr_loop_list:
  assumes "0 \<notin> set needle" "comma \<notin> set needle" "0 \<notin> set t" "hlen = length u + length t" "hlen < 2 ^ 64"
  shows "\<exists>r. instr_loop (pre @ u @ t @ 0 # post) (length pre) hlen needle (length pre + length u) = Some r \<and>
    (r \<noteq> None \<longleftrightarrow> needle \<in> set (tl (name_items t))) \<and> (\<forall>q. r = Some q \<longrightarrow> length pre + length u < q)"
  using assms(3,4)
proof (induction t arbitrary: u rule: length_induct)
  case (1 t)
  let ?mem = "pre @ u @ t @ 0 # post" and ?s = "length pre + length u"
  have chr: "strchr_at ?mem ?s comma =
      Some (if comma \<in> set t then Some (?s + length (takeWhile (\<lambda>c. c \<noteq> comma) t)) else None)"
    using strchr_at_list [OF 1(2), of "pre @ u" post] by simp
  show ?case
  proof (cases rule: name_items_split [of t])
    case last
    then show ?thesis by (subst instr_loop.simps) (simp add: chr)
  next
    case (more w r)
    have tw: "takeWhile (\<lambda>c. c \<noteq> comma) t = w"
      unfolding more(1) using more(2) by (intro takeWhile_all_app) auto
    have chr': "strchr_at ?mem ?s comma = Some (Some (?s + length w))"
      unfolding chr tw by (simp add: more(1))
    have mem: "?mem = pre @ (u @ w @ [comma]) @ r @ 0 # post" by (simp add: more(1))
    have hl: "hlen = length (u @ w @ [comma]) + length r" using 1(3) more(1) by simp
    have sub: "size_sub hlen (length u + length w) = length r + 1"
      using hl assms(5) by (simp add: size_sub_exact)
    have na: "needle_at ?mem (length pre) hlen needle (Suc (?s + length w)) =
        Some (takeWhile (\<lambda>c. c \<noteq> comma) r = needle)"
      using needle_at_list [OF assms(1,2) _ hl, of pre post] 1(2) more(1) unfolding mem
      by (simp add: add.assoc)
    show ?thesis
    proof (cases "length r + 1 > length needle")
      case False
      then have "needle \<notin> set (name_items r)" using name_item_length [of needle r] by auto
      then show ?thesis
        using False by (subst instr_loop.simps) (simp add: chr' sub more(3))
    next
      case True
      obtain q where q: "instr_loop ?mem (length pre) hlen needle (Suc (?s + length w)) = Some q"
        "q \<noteq> None \<longleftrightarrow> needle \<in> set (tl (name_items r))" "\<forall>x. q = Some x \<longrightarrow> Suc (?s + length w) < x"
        using 1(1) [rule_format, of r "u @ w @ [comma]"] 1(2) hl unfolding mem
        by (auto simp: more(1) add.assoc)
      have it: "name_items r = takeWhile (\<lambda>c. c \<noteq> comma) r # tl (name_items r)"
        by (rule name_items_hd)
      show ?thesis
      proof (cases "takeWhile (\<lambda>c. c \<noteq> comma) r = needle")
        case True
        then have "needle \<in> set (name_items r)" by (subst it) simp
        then show ?thesis
          using \<open>length r + 1 > length needle\<close> True
          by (subst instr_loop.simps) (simp add: chr' sub na more(3))
      next
        case False
        have "needle \<in> set (name_items r) \<longleftrightarrow> needle \<in> set (tl (name_items r))"
          using False by (subst it) auto
        then show ?thesis
          using \<open>length r + 1 > length needle\<close> False q
          by (subst instr_loop.simps) (auto simp: chr' sub na more(3))
      qed
    qed
  qed
qed

text \<open>A list in memory: its bytes start at \<open>h\<close>, hold no NUL, and a NUL byte follows them. In a
  KEXINIT packet that byte is the top byte of the next length field.\<close>

definition list_at :: "byte list \<Rightarrow> nat \<Rightarrow> byte list \<Rightarrow> bool" where
  "list_at mem h hay \<longleftrightarrow> 0 \<notin> set hay \<and> length hay < 2 ^ 64 \<and>
     (\<exists>pre post. mem = pre @ hay @ 0 # post \<and> h = length pre)"

lemma kex_agree_instr_list:
  assumes "list_at mem h hay" "0 \<notin> set needle" "comma \<notin> set needle"
  shows "\<exists>r. kex_agree_instr mem h (length hay) needle = Some r \<and>
    (r \<noteq> None \<longleftrightarrow> needle \<in> set (name_items hay)) \<and> (r = Some h \<longleftrightarrow> hd (name_items hay) = needle)"
proof -
  obtain pre post where m: "mem = pre @ [] @ hay @ 0 # post" "h = length pre"
    and hay: "0 \<notin> set hay" "length hay < 2 ^ 64"
    using assms(1) by (auto simp: list_at_def)
  note hd_tl = name_items_hd [of hay]
  show ?thesis
  proof (cases "length hay < length needle")
    case True
    then have "needle \<notin> set (name_items hay)" using name_item_length by fastforce
    moreover have "hd (name_items hay) \<noteq> needle"
      using calculation by (metis hd_tl list.set_intros(1) list.sel(1))
    ultimately show ?thesis using True by (simp add: kex_agree_instr_def)
  next
    case False
    have na: "needle_at mem h (length hay) needle h = Some (takeWhile (\<lambda>c. c \<noteq> comma) hay = needle)"
      using needle_at_list [OF assms(2,3) hay(1), of "length hay" "[]" pre post] by (simp add: m)
    obtain q where q: "instr_loop mem h (length hay) needle h = Some q"
      "q \<noteq> None \<longleftrightarrow> needle \<in> set (tl (name_items hay))" "\<forall>x. q = Some x \<longrightarrow> h < x"
      using instr_loop_list [OF assms(2,3) hay(1) _ hay(2), of "[]" pre post] by (auto simp: m)
    show ?thesis
      using False q na by (subst (1 2) hd_tl) (auto simp: kex_agree_instr_def split: bool.splits)
  qed
qed

section \<open>The method agreed on\<close>

function pref_names :: "byte list \<Rightarrow> byte list list" where
  "pref_names s =
     (if s = [] then []
      else takeWhile (\<lambda>c. c \<noteq> comma) s #
        (case dropWhile (\<lambda>c. c \<noteq> comma) s of [] \<Rightarrow> [] | _ # r \<Rightarrow> pref_names r))"
  by pat_completeness auto
termination
  by (relation "measure length") (auto dest: dropWhile_Cons_shorter)

declare pref_names.simps [simp del]

lemma comma_cases:
  fixes s :: "byte list"
  obtains (last) "comma \<notin> set s" "takeWhile (\<lambda>c. c \<noteq> comma) s = s" "dropWhile (\<lambda>c. c \<noteq> comma) s = []"
  | (more) w r where "s = w @ comma # r" "comma \<notin> set w"
      "takeWhile (\<lambda>c. c \<noteq> comma) s = w" "dropWhile (\<lambda>c. c \<noteq> comma) s = comma # r"
proof (cases "comma \<in> set s")
  case False
  then show ?thesis
    by (intro last) (auto simp: takeWhile_eq_all_conv dropWhile_eq_Nil_conv)
next
  case True
  then obtain w r where s: "s = w @ comma # r" "comma \<notin> set w" by (meson split_list_first)
  then have "takeWhile (\<lambda>c. c \<noteq> comma) s = w" "dropWhile (\<lambda>c. c \<noteq> comma) s = comma # r"
    by (auto intro: takeWhile_all_app dropWhile_all_app)
  with s more show ?thesis by blast
qed

lemma pref_loop_names: "pref_loop body s = method_loop body (pref_names s)"
proof (induction s rule: length_induct)
  case (1 s)
  show ?case
  proof (cases rule: comma_cases [of s])
    case last
    show ?thesis
      unfolding pref_loop.simps [of body s] pref_names.simps [of s] last(2,3)
      by (simp split: option.splits)
  next
    case (more w r)
    have "pref_loop body r = method_loop body (pref_names r)" using 1 more(1) by simp
    then show ?thesis
      unfolding pref_loop.simps [of body s] pref_names.simps [of s] more(3,4)
      by (simp split: option.splits)
  qed
qed

lemma pref_names_text:
  "n \<in> set (pref_names s) \<Longrightarrow> set n \<subseteq> set s \<and> comma \<notin> set n"
proof (induction s rule: length_induct)
  case (1 s)
  show ?case
  proof (cases rule: comma_cases [of s])
    case last
    with 1(2) show ?thesis
      unfolding pref_names.simps [of s] last(2,3) by (auto split: if_splits)
  next
    case (more w r)
    with 1(2) have "n = w \<or> n \<in> set (pref_names r)"
      unfolding pref_names.simps [of s] more(3,4) by (auto split: if_splits)
    moreover have "set n \<subseteq> set r \<and> comma \<notin> set n" if "n \<in> set (pref_names r)"
      using 1(1) [rule_format, of r] more(1) that by simp
    ultimately show ?thesis using more(1,2) by auto
  qed
qed

lemma method_loop_find:
  "(\<And>x. x \<in> set xs \<Longrightarrow> body x = Some (if P x then Some (g x) else None)) \<Longrightarrow>
   method_loop body xs = Some (map_option g (find P xs))"
  by (induction xs) auto

lemma find_map: "find P (map f xs) = map_option f (find (\<lambda>x. P (f x)) xs)"
  by (induction xs) auto

lemma kex_agree_instr_found:
  assumes "list_at mem h hay" "0 \<notin> set needle" "comma \<notin> set needle"
  obtains "kex_agree_instr mem h (length hay) needle = Some None" "needle \<notin> set (name_items hay)"
  | q where "kex_agree_instr mem h (length hay) needle = Some (Some q)" "needle \<in> set (name_items hay)"
  using kex_agree_instr_list [OF assms] by (metis not_None_eq)

text \<open>The names the client offers, in order.\<close>

definition client_names :: "('m \<Rightarrow> byte list) \<Rightarrow> 'm list \<Rightarrow> byte list option \<Rightarrow> byte list list" where
  "client_names nm methods prefs =
     (case prefs of None \<Rightarrow> map nm methods | Some p \<Rightarrow> pref_names (cstring p))"

context name_table
begin

lemma get_by_name: "m \<in> set methods \<Longrightarrow> kex_get_method_by_name nm (nm m) methods = Some m"
  by (simp add: kex_get_method_by_name_def find_name)

lemma client_name_text:
  "n \<in> set (client_names nm methods prefs) \<Longrightarrow> 0 \<notin> set n \<and> comma \<notin> set n"
  using name_text nul_free_cstring
  by (fastforce simp: client_names_def nul_free_def split: option.splits dest: pref_names_text)

text \<open>The search leaves with the client's first name that the peer offers and that \<open>ok\<close> accepts or
  no table knows.\<close>

lemma agree_search_first:
  assumes "list_at mem h hay"
    and accept: "\<And>m q. m \<in> set methods \<Longrightarrow> accept m q = Some (if ok m then Some (res m) else None)"
  shows "agree_search nm methods prefs mem h (length hay) accept bad =
    Some (map_option (\<lambda>n. case kex_get_method_by_name nm n methods of None \<Rightarrow> bad | Some m \<Rightarrow> res m)
            (find (\<lambda>n. n \<in> set (name_items hay) \<and>
                       (case kex_get_method_by_name nm n methods of None \<Rightarrow> True | Some m \<Rightarrow> ok m))
               (client_names nm methods prefs)))"
proof (cases prefs)
  case (Some p)
  have "(case kex_agree_instr mem h (length hay) n of None \<Rightarrow> None | Some None \<Rightarrow> Some None
      | Some (Some q) \<Rightarrow> (case kex_get_method_by_name nm n methods of None \<Rightarrow> Some (Some bad)
          | Some m \<Rightarrow> accept m q)) =
      Some (if n \<in> set (name_items hay) \<and>
               (case kex_get_method_by_name nm n methods of None \<Rightarrow> True | Some m \<Rightarrow> ok m)
        then Some (case kex_get_method_by_name nm n methods of None \<Rightarrow> bad | Some m \<Rightarrow> res m) else None)"
    if "n \<in> set (pref_names (cstring p))" for n
  proof -
    from that Some client_name_text [of n prefs] have t: "0 \<notin> set n" "comma \<notin> set n"
      by (simp_all add: client_names_def)
    have a: "accept m q = Some (if ok m then Some (res m) else None)"
      if "kex_get_method_by_name nm n methods = Some m" for m q
      by (rule accept, rule conjunct1, rule find_name_Some, rule that [unfolded kex_get_method_by_name_def])
    show ?thesis
      by (rule kex_agree_instr_found [OF assms(1) t]) (simp_all add: a split: option.splits)
  qed
  from method_loop_find [OF this, of "pref_names (cstring p)"] show ?thesis
    by (simp add: agree_search_def Some pref_loop_names client_names_def)
next
  case None
  have "(case kex_agree_instr mem h (length hay) (nm m) of None \<Rightarrow> None | Some None \<Rightarrow> Some None
      | Some (Some q) \<Rightarrow> accept m q) =
      Some (if nm m \<in> set (name_items hay) \<and> ok m then Some (res m) else None)"
    if "m \<in> set methods" for m
  proof -
    from that None client_name_text [of "nm m" prefs] have t: "0 \<notin> set (nm m)" "comma \<notin> set (nm m)"
      by (simp_all add: client_names_def)
    show ?thesis
      by (rule kex_agree_instr_found [OF assms(1) t]) (simp_all add: accept that)
  qed
  from method_loop_find [OF this, of methods]
  have s: "agree_search nm methods prefs mem h (length hay) accept bad =
      Some (map_option res (find (\<lambda>m. nm m \<in> set (name_items hay) \<and> ok m) methods))"
    by (simp add: agree_search_def None)
  have f: "find (\<lambda>n. n \<in> set (name_items hay) \<and>
          (case kex_get_method_by_name nm n methods of None \<Rightarrow> True | Some m \<Rightarrow> ok m)) (map nm methods) =
      map_option nm (find (\<lambda>m. nm m \<in> set (name_items hay) \<and> ok m) methods)"
    unfolding find_map by (intro arg_cong [where f = "map_option nm"] find_cong) (auto simp: get_by_name)
  show ?thesis
  proof (cases "find (\<lambda>m. nm m \<in> set (name_items hay) \<and> ok m) methods")
    case None
    then show ?thesis using s f \<open>prefs = None\<close> by (simp add: client_names_def)
  next
    case (Some m)
    moreover from this have "m \<in> set methods" by (auto simp: find_Some_iff)
    ultimately show ?thesis using s f None by (simp add: client_names_def get_by_name)
  qed
qed

end

text \<open>The method the two sides agree on: the client's first name that the peer offers too.\<close>

definition agreed :: "('m \<Rightarrow> byte list) \<Rightarrow> 'm list \<Rightarrow> byte list option \<Rightarrow> byte list \<Rightarrow> 'm option" where
  "agreed nm methods prefs hay =
     Option.bind (find (\<lambda>n. n \<in> set (name_items hay)) (client_names nm methods prefs))
       (\<lambda>n. kex_get_method_by_name nm n methods)"

context name_table
begin

lemma agree_choice_ok:
  assumes "list_at mem h hay"
    and "\<And>m q. m \<in> set methods \<Longrightarrow> accept m q = Some (if ok then Some (res m) else None)"
  shows "(case agree_search nm methods prefs mem h (length hay) accept bad of
            None \<Rightarrow> None | Some (Some r) \<Rightarrow> Some r | Some None \<Rightarrow> Some bad) =
    Some (case agreed nm methods prefs hay of None \<Rightarrow> bad | Some m \<Rightarrow> if ok then res m else bad)"
proof -
  let ?P = "\<lambda>n. n \<in> set (name_items hay)"
  note s = agree_search_first [OF assms(1), where ok = "\<lambda>_. ok" and accept = accept and res = res
      and prefs = prefs and bad = bad]
  show ?thesis
  proof (cases ok)
    case True
    have q: "(\<lambda>n. ?P n \<and> (case kex_get_method_by_name nm n methods of None \<Rightarrow> True | Some m \<Rightarrow> ok)) = ?P"
      using True by (auto split: option.splits)
    have "agree_search nm methods prefs mem h (length hay) accept bad =
        Some (map_option (\<lambda>n. case kex_get_method_by_name nm n methods of None \<Rightarrow> bad | Some m \<Rightarrow> res m)
          (find ?P (client_names nm methods prefs)))"
      using s assms(2) unfolding q by blast
    then show ?thesis
      using True by (cases "find ?P (client_names nm methods prefs)")
        (auto simp: agreed_def split: option.splits)
  next
    case False
    let ?Q = "\<lambda>n. ?P n \<and> (case kex_get_method_by_name nm n methods of None \<Rightarrow> True | Some m \<Rightarrow> ok)"
    have "agree_search nm methods prefs mem h (length hay) accept bad =
        Some (map_option (\<lambda>n. case kex_get_method_by_name nm n methods of None \<Rightarrow> bad | Some m \<Rightarrow> res m)
          (find ?Q (client_names nm methods prefs)))"
      using s [OF assms(2)] by (simp add: False)
    moreover have "kex_get_method_by_name nm n methods = None"
      if "find ?Q (client_names nm methods prefs) = Some n" for n
      using that False by (auto simp: find_Some_iff split: option.splits)
    ultimately show ?thesis
      using False by (cases "find ?Q (client_names nm methods prefs)") (auto split: option.splits)
  qed
qed

lemma agree_choice:
  assumes "list_at mem h hay"
  shows "(case agree_search nm methods prefs mem h (length hay) (\<lambda>m q. Some (Some (res m))) bad of
            None \<Rightarrow> None | Some (Some r) \<Rightarrow> Some r | Some None \<Rightarrow> Some bad) =
    Some (case agreed nm methods prefs hay of None \<Rightarrow> bad | Some m \<Rightarrow> res m)"
  by (subst agree_choice_ok [OF assms, where ok = True and res = res])
    (simp_all cong: option.case_cong)

lemma agreed_mem: "agreed nm methods prefs hay = Some m \<Longrightarrow> m \<in> set methods"
  by (auto simp: agreed_def kex_get_method_by_name_def option_bind_eq_Some dest: find_name_Some)

end

lemma kex_agree_crypt_agreed:
  assumes "list_at mem h hay"
  shows "kex_agree_crypt c ep mem h (length hay) =
    Some (case agreed cm_name (libssh2_crypt_methods c) (crypt_prefs ep) hay of
            None \<Rightarrow> (-1, ep) | Some m \<Rightarrow> (0, ep\<lparr>crypt := Some m\<rparr>))"
  unfolding kex_agree_crypt_def by (rule crypt_table.agree_choice [OF assms])

lemma kex_agree_mac_agreed:
  assumes "list_at mem h hay"
  shows "kex_agree_mac c ep mem h (length hay) =
    Some (case agreed mm_name (libssh2_mac_methods c) (mac_prefs ep) hay of
            None \<Rightarrow> (-1, ep) | Some m \<Rightarrow> (0, ep\<lparr>mac := Some m\<rparr>))"
  unfolding kex_agree_mac_def by (rule mac_table.agree_choice [OF assms])

lemma kex_agree_comp_agreed:
  assumes "list_at mem h hay"
  shows "kex_agree_comp c s ep mem h (length hay) =
    Some (case agreed pm_name (libssh2_comp_methods c s) (comp_prefs ep) hay of
            None \<Rightarrow> (-1, ep) | Some m \<Rightarrow> (0, ep\<lparr>comp := Some m\<rparr>))"
  unfolding kex_agree_comp_def by (rule comp_table.agree_choice [OF assms])

lemma hostkey_suits_sign: "m \<in> set libssh2_hostkey_methods \<Longrightarrow> hostkey_suits FLAG_REQ_SIGN_HOSTKEY m"
  by (auto simp: libssh2_hostkey_methods_def hostkey_suits_def hostkey_method_ssh_rsa_def
      hostkey_method_ssh_dss_def)

lemma kex_flags_sign: "m \<in> set libssh2_kex_methods \<Longrightarrow> km_flags m = FLAG_REQ_SIGN_HOSTKEY"
  by (auto simp: libssh2_kex_methods_def kex_method_diffie_helman_group1_sha1_def
      kex_method_diffie_helman_group14_sha1_def kex_method_diffie_helman_group_exchange_sha1_def)

lemma kex_agree_hostkey_agreed:
  assumes "list_at mem h hay"
  shows "kex_agree_hostkey s FLAG_REQ_SIGN_HOSTKEY mem h (length hay) =
    Some (case agreed hm_name libssh2_hostkey_methods (hostkey_prefs s) hay of
            None \<Rightarrow> (-1, s) | Some m \<Rightarrow> (0, s\<lparr>hostkey := Some m\<rparr>))"
  unfolding kex_agree_hostkey_def
  by (subst hostkey_table.agree_choice_ok [OF assms, where ok = True and res = "\<lambda>m. (0, s\<lparr>hostkey := Some m\<rparr>)"])
    (simp_all add: hostkey_suits_sign cong: option.case_cong)

lemma kex_agree_kex_hostkey_agreed:
  assumes "list_at mem h hay" "list_at mem h' hay'" "\<not> burn_optimistic_kexinit s"
  shows "kex_agree_kex_hostkey s mem h (length hay) h' (length hay') =
    Some (case (agreed km_name libssh2_kex_methods (kex_prefs s) hay,
                agreed hm_name libssh2_hostkey_methods (hostkey_prefs s) hay') of
            (Some k, Some m) \<Rightarrow> (0, s\<lparr>hostkey := Some m, kex := Some k\<rparr>)
          | _ \<Rightarrow> (-1, s))"
proof -
  let ?hk = "agreed hm_name libssh2_hostkey_methods (hostkey_prefs s) hay'"
  show ?thesis
    unfolding kex_agree_kex_hostkey_def
    by (subst kex_table.agree_choice_ok [OF assms(1), where ok = "?hk \<noteq> None" and
          res = "\<lambda>k. (0, s\<lparr>hostkey := ?hk, kex := Some k\<rparr>)"])
      (use assms(3) in \<open>auto simp: kex_flags_sign kex_agree_hostkey_agreed [OF assms(2)] split: option.splits\<close>)
qed

section \<open>KEXINIT packets\<close>

text \<open>The payload \<^verbatim>\<open>kexinit\<close> builds from the session's preferences and a random cookie.\<close>

definition kexinit_payload :: "crypto \<Rightarrow> session \<Rightarrow> byte list \<Rightarrow> byte list" where
  "kexinit_payload c s cookie =
     [20] @ cookie @
     method_prefs_str (kex_prefs s) (map km_name libssh2_kex_methods) @
     method_prefs_str (hostkey_prefs s) (map hm_name libssh2_hostkey_methods) @
     method_prefs_str (crypt_prefs (local_ep s)) (map cm_name (libssh2_crypt_methods c)) @
     method_prefs_str (crypt_prefs (remote_ep s)) (map cm_name (libssh2_crypt_methods c)) @
     method_prefs_str (mac_prefs (local_ep s)) (map mm_name (libssh2_mac_methods c)) @
     method_prefs_str (mac_prefs (remote_ep s)) (map mm_name (libssh2_mac_methods c)) @
     method_prefs_str (comp_prefs (local_ep s)) (map pm_name (libssh2_comp_methods c s)) @
     method_prefs_str (comp_prefs (remote_ep s)) (map pm_name (libssh2_comp_methods c s)) @
     method_prefs_str (lang_prefs (local_ep s)) [] @
     method_prefs_str (lang_prefs (remote_ep s)) [] @
     [0] @ libssh2_htonu32 0"

text \<open>The general shape of a KEXINIT packet: ten name lists, the flag that a guessed packet follows,
  and a reserved word.\<close>

definition put_list :: "byte list \<Rightarrow> byte list" where
  "put_list l = libssh2_htonu32 (word_of_nat (length l)) @ l"

definition kexinit_packet :: "byte list \<Rightarrow> byte list list \<Rightarrow> byte \<Rightarrow> byte list" where
  "kexinit_packet cookie ls follows =
     [20] @ cookie @ concat (map put_list ls) @ [follows] @ libssh2_htonu32 0"

definition list_text :: "byte list \<Rightarrow> bool" where
  "list_text l \<longleftrightarrow> 0 \<notin> set l \<and> length l < 2 ^ 24"

lemma put_list_head:
  assumes "list_text l"
  shows "\<exists>r. put_list l = 0 # r"
proof -
  have "drop_bit 24 (word_of_nat (length l) :: u32) = 0"
  proof (rule word_unat_eq_iff [THEN iffD2])
    have "unat (word_of_nat (length l) :: u32) = length l"
      using assms by (intro unat_u32_of_nat) (simp add: list_text_def)
    then show "unat (drop_bit 24 (word_of_nat (length l) :: u32)) = unat (0 :: u32)"
      unfolding unat_drop_bit_eq using assms by (simp add: list_text_def drop_bit_eq_div)
  qed
  then show ?thesis by (simp add: put_list_def libssh2_htonu32_def)
qed

lemma locate_put_list:
  assumes "list_text l"
  shows "locate_string (p @ put_list l @ r) (length p) =
    Some (length p + 4, length l, length (p @ put_list l))"
proof -
  have "unat (word_of_nat (length l) :: u32) = length l"
    using assms by (intro unat_u32_of_nat) (simp add: list_text_def)
  then show ?thesis
    by (simp add: locate_string_def put_list_def rd32_at)
qed

lemma list_at_put_list:
  assumes "list_text l" "\<exists>x. r = 0 # x"
  shows "list_at (p @ put_list l @ r) (length p + 4) l"
proof -
  from assms(2) obtain x where "r = 0 # x" by blast
  then have "p @ put_list l @ r = (p @ libssh2_htonu32 (word_of_nat (length l))) @ l @ 0 # x"
    by (simp add: put_list_def)
  moreover have "length p + 4 = length (p @ libssh2_htonu32 (word_of_nat (length l)))" by simp
  moreover have "0 \<notin> set l" "length l < 2 ^ 64" using assms(1) by (auto simp: list_text_def)
  ultimately show ?thesis unfolding list_at_def by blast
qed

text \<open>The eight agreements of a session with a peer that offers the lists \<open>ls\<close>.\<close>

definition agreements ::
  "crypto \<Rightarrow> session \<Rightarrow> byte list list \<Rightarrow>
   (kex_method \<times> hostkey_method \<times> crypt_method \<times> crypt_method \<times> mac_method \<times> mac_method \<times>
    comp_method \<times> comp_method) option" where
  "agreements c s ls =
     do {
       k \<leftarrow> agreed km_name libssh2_kex_methods (kex_prefs s) (ls ! 0);
       h \<leftarrow> agreed hm_name libssh2_hostkey_methods (hostkey_prefs s) (ls ! 1);
       ccs \<leftarrow> agreed cm_name (libssh2_crypt_methods c) (crypt_prefs (local_ep s)) (ls ! 2);
       csc \<leftarrow> agreed cm_name (libssh2_crypt_methods c) (crypt_prefs (remote_ep s)) (ls ! 3);
       mcs \<leftarrow> agreed mm_name (libssh2_mac_methods c) (mac_prefs (local_ep s)) (ls ! 4);
       msc \<leftarrow> agreed mm_name (libssh2_mac_methods c) (mac_prefs (remote_ep s)) (ls ! 5);
       zcs \<leftarrow> agreed pm_name (libssh2_comp_methods c s) (comp_prefs (local_ep s)) (ls ! 6);
       zsc \<leftarrow> agreed pm_name (libssh2_comp_methods c s) (comp_prefs (remote_ep s)) (ls ! 7);
       Some (k, h, ccs, csc, mcs, msc, zcs, zsc)
     }"

definition store_agreements ::
  "(kex_method \<times> hostkey_method \<times> crypt_method \<times> crypt_method \<times> mac_method \<times> mac_method \<times>
    comp_method \<times> comp_method) \<Rightarrow> session \<Rightarrow> session" where
  "store_agreements a s =
     (case a of (k, h, ccs, csc, mcs, msc, zcs, zsc) \<Rightarrow>
        s\<lparr>kex := Some k, hostkey := Some h,
          local_ep := (local_ep s)\<lparr>crypt := Some ccs, mac := Some mcs, comp := Some zcs\<rparr>,
          remote_ep := (remote_ep s)\<lparr>crypt := Some csc, mac := Some msc, comp := Some zsc\<rparr>\<rparr>)"

lemma comp_methods_frame [simp]:
  "libssh2_comp_methods c (s\<lparr>kex := k\<rparr>) = libssh2_comp_methods c s"
  "libssh2_comp_methods c (s\<lparr>hostkey := hk\<rparr>) = libssh2_comp_methods c s"
  "libssh2_comp_methods c (s\<lparr>local_ep := e\<rparr>) = libssh2_comp_methods c s"
  "libssh2_comp_methods c (s\<lparr>remote_ep := e\<rparr>) = libssh2_comp_methods c s"
  by (simp_all add: libssh2_comp_methods_def)

lemma kex_agree_all_agreements:
  assumes "\<And>i. i < 8 \<Longrightarrow> list_at mem (h i) (ls ! i)" "\<not> burn_optimistic_kexinit s"
  shows "\<exists>rc s'. kex_agree_all c s mem (map (\<lambda>i. (h i, length (ls ! i))) [0..<8]) = Some (rc, s') \<and>
    (case agreements c s ls of
       Some a \<Rightarrow> rc = 0 \<and> s' = store_agreements a s
     | None \<Rightarrow> rc = -1 \<and> \<not> burn_optimistic_kexinit s')"
proof -
  have l: "list_at mem (h 0) (ls ! 0)" "list_at mem (h (Suc 0)) (ls ! Suc 0)" "list_at mem (h 2) (ls ! 2)"
    "list_at mem (h 3) (ls ! 3)" "list_at mem (h 4) (ls ! 4)" "list_at mem (h 5) (ls ! 5)"
    "list_at mem (h 6) (ls ! 6)" "list_at mem (h 7) (ls ! 7)"
    using assms(1) by simp_all
  note agree = kex_agree_kex_hostkey_agreed [OF l(1,2) assms(2)] kex_agree_crypt_agreed [OF l(3)]
    kex_agree_crypt_agreed [OF l(4)] kex_agree_mac_agreed [OF l(5)] kex_agree_mac_agreed [OF l(6)]
    kex_agree_comp_agreed [OF l(7)] kex_agree_comp_agreed [OF l(8)]
  have m: "map (\<lambda>i. (h i, length (ls ! i))) [0..<8] =
      [(h 0, length (ls ! 0)), (h 1, length (ls ! 1)), (h 2, length (ls ! 2)), (h 3, length (ls ! 3)),
       (h 4, length (ls ! 4)), (h 5, length (ls ! 5)), (h 6, length (ls ! 6)), (h 7, length (ls ! 7))]"
    by (simp add: upt_rec numeral_eq_Suc)
  show ?thesis
    unfolding kex_agree_all_def agreements_def m
    apply (simp add: agree)
    apply (cases "agreed km_name libssh2_kex_methods (kex_prefs s) (ls ! 0)"; simp add: assms(2))
    apply (cases "agreed hm_name libssh2_hostkey_methods (hostkey_prefs s) (ls ! Suc 0)"; simp add: assms(2) agree)
    apply (cases "agreed cm_name (libssh2_crypt_methods c) (crypt_prefs (local_ep s)) (ls ! 2)";
        simp add: assms(2) agree)
    apply (cases "agreed cm_name (libssh2_crypt_methods c) (crypt_prefs (remote_ep s)) (ls ! 3)";
        simp add: assms(2) agree)
    apply (cases "agreed mm_name (libssh2_mac_methods c) (mac_prefs (local_ep s)) (ls ! 4)";
        simp add: assms(2) agree)
    apply (cases "agreed mm_name (libssh2_mac_methods c) (mac_prefs (remote_ep s)) (ls ! 5)";
        simp add: assms(2) agree)
    apply (cases "agreed pm_name (libssh2_comp_methods c s) (comp_prefs (local_ep s)) (ls ! 6)";
        simp add: assms(2) agree)
    apply (cases "agreed pm_name (libssh2_comp_methods c s) (comp_prefs (remote_ep s)) (ls ! 7)";
        simp add: assms(2) store_agreements_def)
    done
qed

text \<open>Where the lists of a KEXINIT packet start.\<close>

definition list_start :: "byte list \<Rightarrow> byte list list \<Rightarrow> nat \<Rightarrow> nat" where
  "list_start cookie ls i = length ([20] @ cookie @ concat (map put_list (take i ls)))"

lemma kexinit_packet_split:
  assumes "i < length ls"
  shows "kexinit_packet cookie ls follows =
    ([20] @ cookie @ concat (map put_list (take i ls))) @ put_list (ls ! i) @
    (concat (map put_list (drop (Suc i) ls)) @ [follows] @ libssh2_htonu32 0)"
proof -
  have "concat (map put_list ls) =
      concat (map put_list (take i ls)) @ put_list (ls ! i) @ concat (map put_list (drop (Suc i) ls))"
    using assms by (subst id_take_nth_drop [OF assms]) simp
  then show ?thesis by (simp add: kexinit_packet_def)
qed

lemma locate_list:
  assumes "i < length ls" "list_text (ls ! i)"
  shows "locate_string (kexinit_packet cookie ls follows) (list_start cookie ls i) =
    Some (list_start cookie ls i + 4, length (ls ! i), list_start cookie ls (Suc i))"
  using locate_put_list [OF assms(2), of "[20] @ cookie @ concat (map put_list (take i ls))"] assms(1)
  unfolding kexinit_packet_split [OF assms(1)] list_start_def by (simp add: take_Suc_conv_app_nth)

lemma packet_list_at:
  assumes "Suc i < length ls" "list_text (ls ! i)" "list_text (ls ! Suc i)"
  shows "list_at (kexinit_packet cookie ls follows) (list_start cookie ls i + 4) (ls ! i)"
proof -
  have d: "drop (Suc i) ls = ls ! Suc i # drop (Suc (Suc i)) ls"
    using assms(1) by (simp add: Cons_nth_drop_Suc)
  have i: "i < length ls" using assms(1) by simp
  show ?thesis
    unfolding kexinit_packet_split [OF i] list_start_def
    by (rule list_at_put_list [OF assms(2)])
      (use put_list_head [OF assms(3)] in \<open>auto simp: d\<close>)
qed

lemma packet_length_byte:
  assumes "i < length ls" "list_text (ls ! i)"
  shows "rd8 (kexinit_packet cookie ls follows) (list_start cookie ls i) = Some 0"
    and "list_start cookie ls i < length (kexinit_packet cookie ls follows)"
proof -
  from put_list_head [OF assms(2)] obtain r where "put_list (ls ! i) = 0 # r" by blast
  then show "rd8 (kexinit_packet cookie ls follows) (list_start cookie ls i) = Some 0"
    "list_start cookie ls i < length (kexinit_packet cookie ls follows)"
    unfolding kexinit_packet_split [OF assms(1)] list_start_def
    by (simp_all add: rd8_def nth_append)
qed

lemma kex_agree_methods_packet:
  assumes "length ls = 10" "\<And>l. l \<in> set ls \<Longrightarrow> list_text l" "length cookie = 16"
    and "data_len = length (kexinit_packet cookie ls follows)"
  shows "kex_agree_methods c s (kexinit_packet cookie ls follows) data_len =
    kex_agree_all c (s\<lparr>burn_optimistic_kexinit := False\<rparr>) (kexinit_packet cookie ls follows)
      (map (\<lambda>i. (list_start cookie ls i + 4, length (ls ! i))) [0..<8])"
proof -
  have t: "i < 10 \<Longrightarrow> list_text (ls ! i)" for i using assms(1,2) by simp
  have loc: "i < 10 \<Longrightarrow> locate_string (kexinit_packet cookie ls follows) (list_start cookie ls i) =
    Some (list_start cookie ls i + 4, length (ls ! i), list_start cookie ls (Suc i))" for i
    using locate_list t assms(1) by simp
  have 17: "(17 :: nat) = list_start cookie ls 0" by (simp add: list_start_def assms(3))
  have b: "rd8 (kexinit_packet cookie ls follows) (list_start cookie ls 7) = Some 0"
    "\<not> data_len < list_start cookie ls 7 + 1"
    using packet_length_byte [of 7 ls cookie follows] t [of 7] assms(1,4) by simp_all
  have m: "map (\<lambda>i. (list_start cookie ls i + 4, length (ls ! i))) [0..<8] =
      [(list_start cookie ls 0 + 4, length (ls ! 0)), (list_start cookie ls 1 + 4, length (ls ! 1)),
       (list_start cookie ls 2 + 4, length (ls ! 2)), (list_start cookie ls 3 + 4, length (ls ! 3)),
       (list_start cookie ls 4 + 4, length (ls ! 4)), (list_start cookie ls 5 + 4, length (ls ! 5)),
       (list_start cookie ls 6 + 4, length (ls ! 6)), (list_start cookie ls 7 + 4, length (ls ! 7))]"
    by (simp add: upt_rec numeral_eq_Suc)
  let ?m = "kexinit_packet cookie ls follows" and ?p = "list_start cookie ls"
  have locs:
    "locate_string ?m (?p (0)) = Some (?p (0) + 4, length (ls ! (0)), ?p (Suc 0))"
    "locate_string ?m (?p (Suc 0)) = Some (?p (Suc 0) + 4, length (ls ! (Suc 0)), ?p (2))"
    "locate_string ?m (?p (2)) = Some (?p (2) + 4, length (ls ! (2)), ?p (3))"
    "locate_string ?m (?p (3)) = Some (?p (3) + 4, length (ls ! (3)), ?p (4))"
    "locate_string ?m (?p (4)) = Some (?p (4) + 4, length (ls ! (4)), ?p (5))"
    "locate_string ?m (?p (5)) = Some (?p (5) + 4, length (ls ! (5)), ?p (6))"
    "locate_string ?m (?p (6)) = Some (?p (6) + 4, length (ls ! (6)), ?p (7))"
    "locate_string ?m (?p (7)) = Some (?p (7) + 4, length (ls ! (7)), ?p (8))"
    using loc [of 0] loc [of 1] loc [of 2] loc [of 3] loc [of 4] loc [of 5] loc [of 6] loc [of 7]
    by (simp_all add: eval_nat_numeral)
  show ?thesis
    unfolding kex_agree_methods_def m 17 using b by (simp add: locs)
qed

section \<open>The packet a session sends\<close>

fun join_names :: "byte list list \<Rightarrow> byte list" where
  "join_names [] = []"
| "join_names [n] = n"
| "join_names (n # m # ns) = n @ comma # join_names (m # ns)"

definition offered :: "byte list option \<Rightarrow> byte list list \<Rightarrow> byte list" where
  "offered prefs names = (case prefs of Some p \<Rightarrow> cstring p | None \<Rightarrow> join_names names)"

lemma concat_comma: "ns \<noteq> [] \<Longrightarrow> concat (map (\<lambda>n. n @ [comma]) ns) = join_names ns @ [comma]"
  by (induction ns rule: join_names.induct) auto

lemma strlen_join: "ns \<noteq> [] \<Longrightarrow> kex_method_strlen ns = length (join_names ns)"
proof -
  assume ne: "ns \<noteq> []"
  have "sum_list (map (\<lambda>n. length n + 1) ns) = length (concat (map (\<lambda>n. n @ [comma]) ns))"
    by (induction ns) auto
  also have "\<dots> = length (join_names ns) + 1" using concat_comma [OF ne] by simp
  finally show ?thesis using ne by (simp add: kex_method_strlen_def)
qed

lemma method_prefs_str_put: "method_prefs_str prefs names = put_list (offered prefs names)"
proof (cases prefs)
  case None
  show ?thesis
  proof (cases "names = []")
    case True
    then show ?thesis
      using None by (simp add: method_prefs_str_def offered_def put_list_def kex_method_list_def kex_method_strlen_def)
  next
    case False
    then show ?thesis
      using None by (simp add: method_prefs_str_def offered_def put_list_def kex_method_list_def
          strlen_join concat_comma)
  qed
qed (simp add: method_prefs_str_def offered_def put_list_def)

text \<open>The ten lists a session offers.\<close>

definition session_lists :: "crypto \<Rightarrow> session \<Rightarrow> byte list list" where
  "session_lists c s =
     [offered (kex_prefs s) (map km_name libssh2_kex_methods),
      offered (hostkey_prefs s) (map hm_name libssh2_hostkey_methods),
      offered (crypt_prefs (local_ep s)) (map cm_name (libssh2_crypt_methods c)),
      offered (crypt_prefs (remote_ep s)) (map cm_name (libssh2_crypt_methods c)),
      offered (mac_prefs (local_ep s)) (map mm_name (libssh2_mac_methods c)),
      offered (mac_prefs (remote_ep s)) (map mm_name (libssh2_mac_methods c)),
      offered (comp_prefs (local_ep s)) (map pm_name (libssh2_comp_methods c s)),
      offered (comp_prefs (remote_ep s)) (map pm_name (libssh2_comp_methods c s)),
      offered (lang_prefs (local_ep s)) [], offered (lang_prefs (remote_ep s)) []]"

lemma kexinit_payload_packet: "kexinit_payload c s cookie = kexinit_packet cookie (session_lists c s) 0"
  by (simp add: kexinit_payload_def kexinit_packet_def session_lists_def method_prefs_str_put)

lemma name_items_join:
  "ns \<noteq> [] \<Longrightarrow> (\<And>n. n \<in> set ns \<Longrightarrow> comma \<notin> set n) \<Longrightarrow> name_items (join_names ns) = ns"
  by (induction ns rule: join_names.induct) (auto simp: name_items_comma_free name_items_app)

context name_table
begin

lemma items_offered_default: "methods \<noteq> [] \<Longrightarrow> name_items (offered None (map nm methods)) = map nm methods"
  using name_text by (auto simp: offered_def intro!: name_items_join)

lemma agreed_default:
  "methods \<noteq> [] \<Longrightarrow> agreed nm methods None (offered None (map nm methods)) = Some (hd methods)"
proof -
  assume ne: "methods \<noteq> []"
  then obtain m ms where m: "methods = m # ms" by (cases methods) auto
  have "find (\<lambda>n. n \<in> set (map nm methods)) (map nm methods) = Some (nm m)" by (simp add: m)
  then show ?thesis
    using get_by_name [of m] unfolding agreed_def client_names_def items_offered_default [OF ne]
    by (simp add: m)
qed

lemma offered_text:
  "(\<Sum>m\<leftarrow>methods. length (nm m) + 1) < 2 ^ 24 \<Longrightarrow> list_text (offered None (map nm methods))"
proof -
  assume size: "(\<Sum>m\<leftarrow>methods. length (nm m) + 1) < 2 ^ 24"
  show ?thesis
  proof (cases "methods = []")
    case False
    have c: "concat (map (\<lambda>n. n @ [comma]) (map nm methods)) = join_names (map nm methods) @ [comma]"
      using False by (intro concat_comma) simp
    have "0 \<notin> set (concat (map (\<lambda>n. n @ [comma]) (map nm methods)))" using name_text by auto
    moreover have "length (concat (map (\<lambda>n. n @ [comma]) (map nm methods))) < 2 ^ 24"
      using size by (simp add: length_concat o_def)
    ultimately show ?thesis unfolding c by (simp add: offered_def list_text_def)
  qed (simp add: offered_def list_text_def)
qed

end

section \<open>Stored preferences\<close>

lemma pref_names_app: "comma \<notin> set w \<Longrightarrow> pref_names (w @ comma # r) = w # pref_names r"
proof -
  assume "comma \<notin> set w"
  then have "takeWhile (\<lambda>c. c \<noteq> comma) (w @ comma # r) = w"
    "dropWhile (\<lambda>c. c \<noteq> comma) (w @ comma # r) = comma # r"
    by (auto intro: takeWhile_all_app dropWhile_all_app)
  then show ?thesis by (subst pref_names.simps) simp
qed

lemma strip_loop_supported:
  "0 \<notin> set t \<Longrightarrow> set (pref_names t) \<subseteq> set names \<Longrightarrow>
   strip_loop (Some names) (u @ t @ [0]) (length u) = Some (u @ t @ [0])"
proof (induction t arbitrary: u rule: length_induct)
  case (1 t)
  have s: "str_at (u @ t @ [0]) (length u) = t"
    using 1(2) by (simp add: str_at_def cstring_append_nul nul_free_def)
  show ?case
  proof (cases "t = []")
    case True
    then show ?thesis using s by (subst strip_loop.simps) simp
  next
    case ne: False
    show ?thesis
    proof (cases rule: comma_cases [of t])
      case last
      have "pref_names t = [t]"
        unfolding pref_names.simps [of t] last(2,3) using ne by simp
      then show ?thesis using 1(3) ne last(1) by (subst strip_loop.simps) (simp add: s last(2) Let_def)
    next
      case (more w r)
      have w: "w \<in> set names" and r: "set (pref_names r) \<subseteq> set names"
        using 1(3) pref_names_app [OF more(2)] more(1) by auto
      have "strip_loop (Some names) ((u @ w @ [comma]) @ r @ [0]) (length (u @ w @ [comma])) =
          Some ((u @ w @ [comma]) @ r @ [0])"
        using 1(1) [rule_format, of r "u @ w @ [comma]"] 1(2) r more(1) by simp
      then have l: "strip_loop (Some names) (u @ t @ [0]) (Suc (length u + length w)) = Some (u @ t @ [0])"
        by (simp add: more(1))
      have "comma \<in> set t" by (simp add: more(1))
      then show ?thesis
        using ne w by (subst strip_loop.simps) (simp add: s more(3) l Let_def)
    qed
  qed
qed

lemma method_pref_supported:
  assumes "method_type_of mt = Some ty" "mlist_names c s ty = Some names"
    and "nul_free prefs" "prefs \<noteq> []" "set (pref_names prefs) \<subseteq> set names" "allocs (env s) = []"
  shows "libssh2_session_method_pref c s mt prefs = Some (0, set_prefvar ty prefs s)"
proof -
  have "strip_loop (Some names) (prefs @ [0]) 0 = Some (prefs @ [0])"
    using strip_loop_supported [of prefs names "[]"] assms(3,5) by (simp add: nul_free_def)
  moreover have "cstring (prefs @ [0]) = prefs" "strlen (prefs @ [0]) = length prefs"
    using assms(3) by (simp_all add: cstring_append_nul flip: length_cstring)
  ultimately show ?thesis
    using assms by (simp add: libssh2_session_method_pref_def libssh2_alloc_unlimited)
qed

lemma kex_agree_methods_agreements:
  assumes "length ls = 10" "\<forall>l \<in> set ls. list_text l" "length cookie = 16"
  shows "\<exists>rc s'. kex_agree_methods c s (kexinit_packet cookie ls follows)
        (length (kexinit_packet cookie ls follows)) = Some (rc, s') \<and>
    \<not> burn_optimistic_kexinit s' \<and>
    (case agreements c s ls of
       Some a \<Rightarrow> rc = 0 \<and> s' = store_agreements a (s\<lparr>burn_optimistic_kexinit := False\<rparr>)
     | None \<Rightarrow> rc = -1)"
proof -
  let ?s = "s\<lparr>burn_optimistic_kexinit := False\<rparr>"
  have t: "i < 8 \<Longrightarrow> list_at (kexinit_packet cookie ls follows) (list_start cookie ls i + 4) (ls ! i)" for i
    using assms by (intro packet_list_at) auto
  have a: "agreements c ?s ls = agreements c s ls"
    by (simp add: agreements_def libssh2_comp_methods_def)
  obtain rc s' where "kex_agree_methods c s (kexinit_packet cookie ls follows)
        (length (kexinit_packet cookie ls follows)) = Some (rc, s')"
    "case agreements c s ls of Some a \<Rightarrow> rc = 0 \<and> s' = store_agreements a ?s
      | None \<Rightarrow> rc = -1 \<and> \<not> burn_optimistic_kexinit s'"
    using kex_agree_all_agreements [OF t, of ?s c] a
      kex_agree_methods_packet [OF assms(1) _ assms(3) refl, of c s follows] assms(2) by auto
  then show ?thesis
    by (auto simp: store_agreements_def split: option.splits)
qed

section \<open>Properties\<close>

text \<open>C5. The negotiation refines its specification: on any well-formed KEXINIT packet (ten name
  lists without NUL, each shorter than \<open>2 ^ 24\<close>) it never reads outside the packet, and succeeds
  exactly when for each of the eight kinds of method the client's first name that the peer also
  offers exists and is in the client's tables; it then stores exactly those methods and nothing
  else. Whatever the packet says about a guessed packet following, the flag to skip that
  packet ends up cleared.\<close>

theorem kex_agree_methods_refines:
  assumes "length ls = 10" "\<forall>l \<in> set ls. list_text l" "length cookie = 16"
  shows "\<exists>rc s'. kex_agree_methods c s (kexinit_packet cookie ls follows)
        (length (kexinit_packet cookie ls follows)) = Some (rc, s') \<and>
    \<not> burn_optimistic_kexinit s' \<and>
    (case agreements c s ls of
       Some a \<Rightarrow> rc = 0 \<and> s' = store_agreements a (s\<lparr>burn_optimistic_kexinit := False\<rparr>)
     | None \<Rightarrow> rc = -1)"
  using assms by (rule kex_agree_methods_agreements)

definition crypto0 :: crypto where
  "crypto0 = \<lparr>cipher_crypt = \<lambda>_ st b. Some (st, b), hmac_sha1 = \<lambda>_ _. replicate 20 0,
     hmac_md5 = \<lambda>_ _. replicate 16 0, hmac_ripemd160 = \<lambda>_ _. replicate 20 0, zlib = None\<rparr>"

definition sample_lists :: "byte list list" where
  "sample_lists =
     [cstr ''kex-x,diffie-hellman-group1-sha1'', cstr ''ssh-dss'', cstr ''3des-cbc,arcfour'',
      cstr ''3des-cbc'', cstr ''hmac-md5,hmac-sha1'', cstr ''hmac-md5'', cstr ''none'', cstr ''zlib,none'', [], []]"

theorem kex_agree_methods_refines_witness:
  "\<exists>s'. kex_agree_methods crypto0 (session_cleared env0)
      (kexinit_packet (replicate 16 7) sample_lists 1)
      (length (kexinit_packet (replicate 16 7) sample_lists 1)) = Some (0, s') \<and>
    map_option km_name (kex s') = Some (cstr ''diffie-hellman-group1-sha1'') \<and>
    map_option cm_name (crypt (local_ep s')) = Some (cstr ''arcfour'') \<and>
    map_option mm_name (mac (local_ep s')) = Some (cstr ''hmac-sha1'') \<and>
    \<not> burn_optimistic_kexinit s'"
proof -
  have ls: "length sample_lists = 10" "\<forall>l \<in> set sample_lists. list_text l" "length (replicate 16 (7 :: byte)) = 16"
    by (simp_all add: sample_lists_def list_text_def)
  have i: "name_items (sample_lists ! 0) = [cstr ''kex-x'', cstr ''diffie-hellman-group1-sha1'']"
    "name_items (sample_lists ! Suc 0) = [cstr ''ssh-dss'']"
    "name_items (sample_lists ! 2) = [cstr ''3des-cbc'', cstr ''arcfour'']"
    "name_items (sample_lists ! 3) = [cstr ''3des-cbc'']"
    "name_items (sample_lists ! 4) = [cstr ''hmac-md5'', cstr ''hmac-sha1'']"
    "name_items (sample_lists ! 5) = [cstr ''hmac-md5'']"
    "name_items (sample_lists ! 6) = [cstr ''none'']"
    "name_items (sample_lists ! 7) = [cstr ''zlib'', cstr ''none'']"
    by (simp_all add: sample_lists_def name_items.simps)
  have "\<exists>h csc msc zcs zsc. agreements crypto0 (session_cleared env0) sample_lists =
      Some (kex_method_diffie_helman_group1_sha1, h, libssh2_crypt_methods crypto0 ! 9, csc,
            libssh2_mac_methods crypto0 ! 0, msc, zcs, zsc)"
    by (simp add: agreements_def agreed_def i client_names_def session_cleared_def endpoint0_def
        libssh2_kex_methods_def kex_method_diffie_helman_group1_sha1_def
        kex_method_diffie_helman_group14_sha1_def kex_method_diffie_helman_group_exchange_sha1_def
        libssh2_hostkey_methods_def hostkey_method_ssh_rsa_def hostkey_method_ssh_dss_def
        crypt_table_defs
        libssh2_mac_methods_def libssh2_comp_methods_def comp_method_none_def kex_get_method_by_name_def)
  with kex_agree_methods_refines [OF ls, of crypto0 "session_cleared env0" 1]
  show ?thesis
    by (auto simp: store_agreements_def kex_method_diffie_helman_group1_sha1_def
        crypt_table_defs
        libssh2_mac_methods_def)
qed



text \<open>C35. A preference string whose names are all in the table is stored as given, for every kind of
  method with a table; and a method type that does not exist is refused with INVAL, leaving
  the preferences alone.\<close>

theorem method_pref_stored:
  assumes "method_type_of mt = Some ty" "mlist_names c s ty = Some names"
    and "nul_free prefs" "prefs \<noteq> []" "set (pref_names prefs) \<subseteq> set names" "allocs (env s) = []"
  shows "libssh2_session_method_pref c s mt prefs = Some (0, set_prefvar ty prefs s) \<and>
    (\<forall>i. method_type_of i = None \<longrightarrow>
       libssh2_session_method_pref c s i prefs =
         Some (libssh2_error s LIBSSH2_ERROR_INVAL ''Invalid parameter specified for method_type''))"
  using method_pref_supported [OF assms] by (simp add: libssh2_session_method_pref_def)

theorem method_pref_stored_witness:
  "libssh2_session_method_pref crypto0 (session_cleared env0) 1 (cstr ''ssh-dss,ssh-rsa'') =
     Some (0, (session_cleared env0)\<lparr>hostkey_prefs := Some (cstr ''ssh-dss,ssh-rsa'')\<rparr>)"
proof -
  have "pref_names (cstr ''ssh-dss,ssh-rsa'') = [cstr ''ssh-dss'', cstr ''ssh-rsa'']"
    by (simp add: pref_names.simps)
  then show ?thesis
    using method_pref_stored [of 1 METHOD_HOSTKEY crypto0 "session_cleared env0"
        "[cstr ''ssh-rsa'', cstr ''ssh-dss'']" "cstr ''ssh-dss,ssh-rsa''"]
    by (simp add: method_type_of_def libssh2_hostkey_methods_def hostkey_method_ssh_rsa_def
        hostkey_method_ssh_dss_def upto.simps)
qed


text \<open>C33. The list search is membership: for a needle without comma or NUL, and a list followed by
  a NUL byte in memory, \<^verbatim>\<open>kex_agree_instr\<close> finds the needle exactly when it is one of the
  comma-separated names, and returns the start of the list exactly when it is the first one.\<close>

theorem kex_agree_instr_spec:
  assumes "list_at mem h hay" "0 \<notin> set needle" "comma \<notin> set needle"
  shows "\<exists>r. kex_agree_instr mem h (length hay) needle = Some r \<and>
    (r \<noteq> None \<longleftrightarrow> needle \<in> set (name_items hay)) \<and> (r = Some h \<longleftrightarrow> hd (name_items hay) = needle)"
  using assms by (rule kex_agree_instr_list)

theorem kex_agree_instr_spec_witness:
  "\<exists>q. kex_agree_instr (cstr ''xxab,abc'' @ [0, 9]) 2 (length (cstr ''ab,abc'')) (cstr ''abc'') = Some (Some q) \<and> q \<noteq> 2"
proof -
  have "list_at (cstr ''xxab,abc'' @ [0, 9]) 2 (cstr ''ab,abc'')"
    unfolding list_at_def
    by (intro conjI exI [of _ "cstr ''xx''"] exI [of _ "[9]"]) simp_all
  moreover have "name_items (cstr ''ab,abc'') = [cstr ''ab'', cstr ''abc'']"
    by (simp add: name_items.simps)
  ultimately show ?thesis
    using kex_agree_instr_spec [of "cstr ''xxab,abc'' @ [0, 9]" 2 "cstr ''ab,abc''" "cstr ''abc''"] by auto
qed

lemma strchr_at_end:
  "0 \<notin> set t \<Longrightarrow> comma \<notin> set t \<Longrightarrow> strchr_at (p @ t) (length p) comma = None"
proof (induction t arbitrary: p)
  case Nil
  show ?case by (subst strchr_at.simps) simp
next
  case (Cons x t)
  with Cons.IH [of "p @ [x]"] show ?case by (subst strchr_at.simps) simp
qed

lemma strncmp_at_inside:
  "length needle \<le> length t \<Longrightarrow> 0 \<notin> set needle \<Longrightarrow>
   strncmp_at (p @ t) (length p) needle = Some (take (length needle) t = needle)"
proof (induction needle arbitrary: p t)
  case (Cons c cs)
  then obtain x t' where t: "t = x # t'" by (cases t) auto
  with Cons.prems Cons.IH [of t' "p @ [x]"] show ?case by auto
qed simp



end
