(* ===== verification/Kex_Exchange.thy ===== *)
theory Kex_Exchange
  imports Packet Kex
begin

text \<open>
  The key exchange driver of \<^verbatim>\<open>libssh2/src/kex.c\<close>: sending \<^verbatim>\<open>KEXINIT\<close> (\<open>kexinit\<close>) and the state
  machine \<open>libssh2_kex_exchange\<close>, on the state \<^verbatim>\<open>session->startup_key_state\<close>. The Diffie-Hellman
  exchange of the chosen method, \<^verbatim>\<open>session->kex->exchange_keys\<close>, is the argument \<open>xkeys\<close>.

  \<^verbatim>\<open>_libssh2_kex_exchange\<close>, \<^verbatim>\<open>_libssh2_transport_read\<close> and \<^verbatim>\<open>_libssh2_packet_add\<close> call each other.
  While a key exchange runs, the flags \<^verbatim>\<open>LIBSSH2_STATE_EXCHANGING_KEYS\<close> and
  \<^verbatim>\<open>LIBSSH2_STATE_KEX_ACTIVE\<close> keep the other two from calling it again; the reads made from inside
  of it therefore use \<open>no_kex\<close>, a key exchange that must not be entered.
\<close>

definition no_kex :: kex_exchange_fn where
  "no_kex s = None"

definition set_state :: "u32 \<Rightarrow> session \<Rightarrow> session" where
  "set_state flag s = s\<lparr>sstate := sstate s OR flag\<rparr>"

definition clear_state :: "u32 \<Rightarrow> session \<Rightarrow> session" where
  "clear_state flag s = s\<lparr>sstate := sstate s AND NOT flag\<rparr>"

definition set_key_state :: "nb_state \<Rightarrow> session \<Rightarrow> session" where
  "set_key_state st s = s\<lparr>startup_key_state := (startup_key_state s)\<lparr>ke_state := st\<rparr>\<rparr>"

section \<open>KEXINIT\<close>

text \<open>The packet, made on the first call and kept while the send would block.\<close>

definition kexinit_data_of :: "crypto \<Rightarrow> session \<Rightarrow> (byte list \<times> session) step ub" where
  "kexinit_data_of c s =
     (if kexinit_state s = NB_idle then
        case libssh2_alloc s of (ok, s1) \<Rightarrow>
          if \<not> ok then Some (Inl (libssh2_error s1 LIBSSH2_ERROR_ALLOC ''Unable to allocate memory''))
          else case libssh2_random s1 16 of (cookie, s2) \<Rightarrow>
            Some (Inr (kexinit_payload c s2 cookie, s2\<lparr>kexinit_state := NB_created\<rparr>))
      else (case kexinit_data s of
          None \<Rightarrow> None
        | Some d \<Rightarrow> Some (Inr (d, s\<lparr>kexinit_data := None\<rparr>))))"

definition kexinit :: "crypto \<Rightarrow> session \<Rightarrow> (int \<times> session) ub" where
  "kexinit c s = do {
     r \<leftarrow> kexinit_data_of c s;
     (case r of
        Inl ret \<Rightarrow> Some ret
      | Inr (d, s1) \<Rightarrow> do {
          (rc, s2) \<leftarrow> libssh2_transport_send s1 addr_kexinit_data d None;
          if rc = LIBSSH2_ERROR_EAGAIN then Some (rc, s2\<lparr>kexinit_data := Some d\<rparr>)
          else if rc \<noteq> 0 then
            Some (libssh2_error (s2\<lparr>kexinit_state := NB_idle\<rparr>) rc
                    ''Unable to send KEXINIT packet to remote host'')
          else Some (0, s2\<lparr>local_ep := (local_ep s2)\<lparr>kexinit_buf := Some d\<rparr>, kexinit_state := NB_idle\<rparr>) }) }"

section \<open>The exchange\<close>

text \<open>A failed step: the old \<^verbatim>\<open>KEXINIT\<close> of this side is restored and the exchange given up.\<close>

definition kex_abandon :: "session \<Rightarrow> int \<times> session" where
  "kex_abandon s =
     (-1, clear_state LIBSSH2_STATE_EXCHANGING_KEYS (clear_state LIBSSH2_STATE_KEX_ACTIVE
        (set_key_state NB_idle
          (s\<lparr>local_ep := (local_ep s)\<lparr>kexinit_buf := ke_oldlocal (startup_key_state s)\<rparr>\<rparr>))))"

definition kex_start :: "bool \<Rightarrow> session \<Rightarrow> session" where
  "kex_start reexchange s =
     (let s1 = set_state LIBSSH2_STATE_KEX_ACTIVE s in
      if ke_state (startup_key_state s1) = NB_idle then
        let s2 = set_state LIBSSH2_STATE_EXCHANGING_KEYS s1;
            s3 = (if reexchange then s2\<lparr>kex := None, hostkey := None\<rparr> else s2)
        in set_key_state NB_created s3
      else s1)"

definition kex_save_old :: "session \<Rightarrow> session" where
  "kex_save_old s =
     (if ke_state (startup_key_state s) = NB_created
      then s\<lparr>startup_key_state := (startup_key_state s)\<lparr>ke_oldlocal := kexinit_buf (local_ep s),
                                                       ke_state := NB_sent\<rparr>,
             local_ep := (local_ep s)\<lparr>kexinit_buf := None\<rparr>\<rparr>
      else s)"

definition kex_send_init :: "crypto \<Rightarrow> session \<Rightarrow> session step ub" where
  "kex_send_init c s =
     (if ke_state (startup_key_state s) = NB_sent then do {
        (rc, s1) \<leftarrow> kexinit c s;
        if rc = LIBSSH2_ERROR_EAGAIN then Some (Inl (rc, clear_state LIBSSH2_STATE_KEX_ACTIVE s1))
        else if rc \<noteq> 0 then Some (Inl (kex_abandon s1))
        else Some (Inr (set_key_state NB_sent1 s1)) }
      else Some (Inr s))"

text \<open>Waiting for the peer's \<^verbatim>\<open>KEXINIT\<close> and agreeing on methods; the result carries \<^verbatim>\<open>rc\<close>.\<close>

definition kex_receive_init :: "crypto \<Rightarrow> session \<Rightarrow> (int \<times> session) step ub" where
  "kex_receive_init c s =
     (if ke_state (startup_key_state s) = NB_sent1 then do {
        (rc, d, start, s1) \<leftarrow> libssh2_packet_require no_kex s SSH_MSG_KEXINIT 0 None 0
                                (ke_req_start (startup_key_state s));
        let s2 = s1\<lparr>startup_key_state := (startup_key_state s1)\<lparr>ke_req_start := start\<rparr>\<rparr>;
        if rc = LIBSSH2_ERROR_EAGAIN then Some (Inl (rc, clear_state LIBSSH2_STATE_KEX_ACTIVE s2))
        else if rc \<noteq> 0 then Some (Inl (kex_abandon s2))
        else (case d of
            None \<Rightarrow> None
          | Some (data, n) \<Rightarrow> do {
              (rc2, s3) \<leftarrow> kex_agree_methods c
                 (s2\<lparr>startup_key_state := (startup_key_state s2)\<lparr>ke_data := Some data\<rparr>,
                    remote_ep := (remote_ep s2)\<lparr>kexinit_buf := Some (take n data)\<rparr>\<rparr>) data n;
              Some (Inr (if rc2 \<noteq> 0 then LIBSSH2_ERROR_KEX_FAILURE else 0, set_key_state NB_sent2 s3)) }) }
      else Some (Inr (0, s)))"

definition kex_negotiate :: "crypto \<Rightarrow> session \<Rightarrow> (int \<times> session) step ub" where
  "kex_negotiate c s =
     (if kex s = None \<or> hostkey s = None then do {
        r \<leftarrow> kex_send_init c (kex_save_old s);
        (case r of Inl ret \<Rightarrow> Some (Inl ret) | Inr s1 \<Rightarrow> kex_receive_init c s1) }
      else Some (Inr (0, set_key_state NB_sent2 s)))"

definition kex_finish :: "int \<Rightarrow> session \<Rightarrow> int \<times> session" where
  "kex_finish rc s =
     (rc, set_key_state NB_idle
        (clear_state LIBSSH2_STATE_EXCHANGING_KEYS (clear_state LIBSSH2_STATE_KEX_ACTIVE
          (s\<lparr>local_ep := (local_ep s)\<lparr>kexinit_buf := None\<rparr>,
             remote_ep := (remote_ep s)\<lparr>kexinit_buf := None\<rparr>\<rparr>))))"

definition libssh2_kex_exchange ::
  "crypto \<Rightarrow> (session \<Rightarrow> (int \<times> session) ub) \<Rightarrow> bool \<Rightarrow> session \<Rightarrow> (int \<times> session) ub" where
  "libssh2_kex_exchange c xkeys reexchange s = do {
     r \<leftarrow> kex_negotiate c (kex_start reexchange s);
     (case r of
        Inl ret \<Rightarrow> Some ret
      | Inr (rc, s1) \<Rightarrow>
          if rc = 0 \<and> ke_state (startup_key_state s1) = NB_sent2 then
            if kex s1 = None then None
            else do {
              (rc2, s2) \<leftarrow> xkeys s1;
              if rc2 = LIBSSH2_ERROR_EAGAIN then Some (rc2, clear_state LIBSSH2_STATE_KEX_ACTIVE s2)
              else if rc2 \<noteq> 0 then
                (case libssh2_error s2 LIBSSH2_ERROR_KEY_EXCHANGE_FAILURE
                        ''Unrecoverable error exchanging keys'' of
                   (rc3, s3) \<Rightarrow> Some (kex_finish rc3 s3))
              else Some (kex_finish 0 s2) }
          else Some (kex_finish rc s1)) }"

text \<open>The reader of a session whose key exchange method is \<open>xkeys\<close>.\<close>

definition session_read :: "crypto \<Rightarrow> (session \<Rightarrow> (int \<times> session) ub) \<Rightarrow> session \<Rightarrow> (int \<times> session) ub" where
  "session_read c xkeys = transport_read (libssh2_kex_exchange c xkeys True)"

end
