(* ===== verification/Kex_Driver.thy ===== *)
theory Kex_Driver
  imports Kex_Exchange Packet_Frame Transport_Roundtrip
begin

text \<open>
  The key exchange and the packet layer call each other. The locale \<open>kex_driver\<close> states what the packet
  layer relies on when it calls the key exchange, \<open>kx\<close> interprets it on \<open>libssh2_kex_exchange\<close> for every
  Diffie-Hellman exchange \<open>xkeys\<close>, and the calls a session makes, \<open>session_step\<close>, keep the flags that
  prevent the exchange from being entered twice.
\<close>

section \<open>Reading while keys are exchanged\<close>

text \<open>The state in which the key exchange reads packets.\<close>

definition kex_busy :: "session \<Rightarrow> bool" where
  "kex_busy s \<longleftrightarrow> state_has s LIBSSH2_STATE_EXCHANGING_KEYS \<and> state_has s LIBSSH2_STATE_KEX_ACTIVE
     \<and> packAdd_state s \<noteq> NB_sent2"

lemma kex_busy_kept: "kept s' = kept s \<Longrightarrow> kex_busy s' = kex_busy s"
  by (auto simp: kex_busy_def kept_def state_has_def)

lemma kex_busy_add_kept: "add_kept s s' \<Longrightarrow> kex_busy s \<Longrightarrow> kex_busy s'"
  by (auto simp: kex_busy_def add_kept_def state_has_def)

lemma kex_busy_updates [simp]:
  "kex_busy (s\<lparr>packet := p\<rparr>) = kex_busy s" "kex_busy (s\<lparr>readPack_state := q\<rparr>) = kex_busy s"
  "kex_busy (s\<lparr>readPack_encrypted := e\<rparr>) = kex_busy s" "kex_busy (s\<lparr>fullpacket_state := q\<rparr>) = kex_busy s"
  "kex_busy (clear_direction d s) = kex_busy s"
  by (simp_all add: kex_busy_def state_has_def clear_direction_def)

lemma add_rekey_busy:
  "state_has s LIBSSH2_STATE_EXCHANGING_KEYS \<Longrightarrow> packAdd_state s \<noteq> NB_sent2 \<Longrightarrow>
   add_rekey kx s msg = Some (0, add_done s)"
  by (simp add: add_rekey_def)

lemma add_queue_busy:
  assumes "state_has s LIBSSH2_STATE_EXCHANGING_KEYS"
  shows "add_queue kx s msg data n h = add_queue kx' s msg data n h"
    "add_queue kx s msg data n h = Some (rc, s') \<Longrightarrow> add_kept s s'"
proof -
  obtain ok s1 where a: "libssh2_alloc s = (ok, s1)" by force
  have k: "kept s1 = kept s" using alloc_kept [OF a] .
  have "add_rekey kx'' (s1\<lparr>packets := q, packAdd_state := NB_sent1\<rparr>) msg
     = Some (0, add_done (s1\<lparr>packets := q, packAdd_state := NB_sent1\<rparr>))" for kx'' q
    by (rule add_rekey_busy) (use assms k in \<open>auto simp: state_has_def kept_def\<close>)
  then show "add_queue kx s msg data n h = add_queue kx' s msg data n h"
    "add_queue kx s msg data n h = Some (rc, s') \<Longrightarrow> add_kept s s'"
    using k by (auto simp: add_queue_def a kept_simps split: if_split_asm)
qed

lemma add_dispatch_busy:
  assumes "state_has s LIBSSH2_STATE_EXCHANGING_KEYS"
  shows "add_dispatch kx s msg data n = add_dispatch kx' s msg data n"
    "add_dispatch kx s msg data n = Some (rc, s') \<Longrightarrow> add_kept s s'"
proof -
  let ?sent = "\<lambda>s. s\<lparr>packAdd_state := NB_sent\<rparr>"
  have st: "state_has (?sent s1) LIBSSH2_STATE_EXCHANGING_KEYS"
    if "sstate s1 = sstate s" for s1 using assms that by (simp add: state_has_def)
  have data: "add_queue kx1 (?sent s1) msg data k h = add_queue kx2 (?sent s1) msg data k h"
    if "add_channel_data s msg data n = Some (Inr (k, h, s1))" for kx1 kx2 k h s1
    by (rule add_queue_busy, rule st) (use add_channel_data_kept(2) [OF that] in \<open>auto simp: kept_def\<close>)
  have kept: "add_kept s s'"
    if "add_queue kx (?sent s1) msg data k h = Some (rc, s')" "sstate s1 = sstate s" for k h s1
    using add_queue_busy(2) [OF st [OF that(2)] that(1)] that(2) by (simp add: add_kept_def)
  show "add_dispatch kx s msg data n = add_dispatch kx' s msg data n"
  proof (cases "handled_msg msg")
    case False
    then show ?thesis
      using data [of _ _ _ kx kx'] add_queue_busy(1) [OF st [OF refl], of kx msg data n 0 kx']
      by (auto simp: add_dispatch_def handled_msg_def split: sum.split prod.split intro!: Option.bind_cong)
  qed (rule add_dispatch_handled)
  show "add_dispatch kx s msg data n = Some (rc, s') \<Longrightarrow> add_kept s s'"
  proof (cases "handled_msg msg")
    case False
    assume "add_dispatch kx s msg data n = Some (rc, s')"
    with False show ?thesis
      by (auto simp: add_dispatch_def handled_msg_def elim!: bind_SomeE split: sum.split_asm prod.split_asm
          if_split_asm dest!: add_channel_data_kept keptD intro: kept)
  qed (rule add_dispatch_handled)
qed

lemma packet_add_busy:
  assumes "kex_busy s"
  shows "libssh2_packet_add kx s data n m = libssh2_packet_add kx' s data n m"
    "libssh2_packet_add kx s data n m = Some (rc, s') \<Longrightarrow> kex_busy s'"
proof -
  have b: "state_has s LIBSSH2_STATE_EXCHANGING_KEYS" "packAdd_state s \<noteq> NB_sent2"
    using assms by (auto simp: kex_busy_def)
  have alloc: "state_has (s1\<lparr>packAdd_state := q\<rparr>) LIBSSH2_STATE_EXCHANGING_KEYS"
    if "kept s1 = kept s" for s1 q using b(1) that by (simp add: state_has_def kept_def)
  have mac: "kept (snd (macerror_result s)) = kept s" by (simp add: flag_simps)
  have d: "add_dispatch kx (s1\<lparr>packAdd_state := q\<rparr>) msg data n = add_dispatch kx' (s1\<lparr>packAdd_state := q\<rparr>) msg data n"
    if "kept s1 = kept s" for s1 q msg by (rule add_dispatch_busy(1) [OF alloc [OF that]])
  show "libssh2_packet_add kx s data n m = libssh2_packet_add kx' s data n m"
    using d [OF refl, of NB_allocated] d [OF mac, of NB_allocated] add_dispatch_busy(1) [OF b(1), of kx _ data n kx']
      add_queue_busy(1) [OF b(1), of kx _ data n 0 kx'] add_rekey_busy [OF b]
    by (auto simp: libssh2_packet_add_def split: nb_state.split prod.split intro!: Option.bind_cong)
  assume "libssh2_packet_add kx s data n m = Some (rc, s')"
  then obtain msg where r: "(case packAdd_state s of
        NB_idle \<Rightarrow>
          (case (if m then (False, s)
                 else if \<not> has_macerror_cb s then (True, s) else macerror_result s) of (bad, s1) \<Rightarrow>
             if bad then Some (libssh2_error s1 LIBSSH2_ERROR_INVALID_MAC ''Invalid MAC received'')
             else add_dispatch kx (s1\<lparr>packAdd_state := NB_allocated\<rparr>) msg data n)
      | NB_jump1 \<Rightarrow> jump_point1 s n
      | NB_jump2 \<Rightarrow> jump_point2 s data
      | NB_jump3 \<Rightarrow> jump_point3 s data
      | NB_jump4 \<Rightarrow> jump_point4 s data
      | NB_jump5 \<Rightarrow> jump_point5 s
      | NB_allocated \<Rightarrow> add_dispatch kx s msg data n
      | NB_sent \<Rightarrow> add_queue kx s msg data n 0
      | _ \<Rightarrow> add_rekey kx s msg) = Some (rc, s')"
    unfolding libssh2_packet_add_def by (elim bind_SomeE)
  have disp: "add_kept s s'" if "add_dispatch kx (s1\<lparr>packAdd_state := q\<rparr>) msg data n = Some (rc, s')"
    "kept s1 = kept s" for s1 q
    using add_dispatch_busy(2) [OF alloc [OF that(2)] that(1)] that(2) by (simp add: add_kept_def kept_def)
  have "add_kept s s' \<or> kept s' = kept s"
    using r disp mac add_rekey_busy [OF b] add_dispatch_busy(2) [OF b(1)] add_queue_busy(2) [OF b(1)]
      jump_point_kept kept_done [OF refl, of s]
    by (auto split: nb_state.split_asm prod.split_asm if_split_asm dest!: error_kept)
  then show "kex_busy s'" using assms kex_busy_add_kept kex_busy_kept by blast
qed

lemma fullpacket_busy:
  assumes "kex_busy s"
  shows "fullpacket (libssh2_packet_add kx) s e = fullpacket (libssh2_packet_add kx') s e"
    "fullpacket (libssh2_packet_add kx) s e = Some (rc, s') \<Longrightarrow> kex_busy s'"
proof -
  have dec: "kex_busy s1" if "(if fullpacket_state s = NB_idle then fullpacket_decode s e else Some (Inr s)) = Some (Inr s1)" for s1
    using that assms by (auto simp: step_kept_def split: if_split_asm dest!: fullpacket_decode_kept kex_busy_kept)
  have decl: "kex_busy s1" if "(if fullpacket_state s = NB_idle then fullpacket_decode s e else Some (Inr s)) = Some (Inl (rc, s1))" for rc s1
    using that assms by (auto simp: step_kept_def split: if_split_asm dest!: fullpacket_decode_kept kex_busy_kept)
  note add = packet_add_busy(1) [OF dec, of _ kx _ _ _ kx']
  show "fullpacket (libssh2_packet_add kx) s e = fullpacket (libssh2_packet_add kx') s e"
    unfolding fullpacket_def using add
    by (intro Option.bind_cong refl) (auto split: sum.split)
  assume "fullpacket (libssh2_packet_add kx) s e = Some (rc, s')"
  then show "kex_busy s'" unfolding fullpacket_def using dec decl
    by (auto elim!: bind_SomeE split: sum.split_asm if_split_asm)
      (erule (1) packet_add_busy(2))+
qed

lemma read_point1_busy:
  assumes "kex_busy s"
  shows "read_point1 (libssh2_packet_add kx) s e = read_point1 (libssh2_packet_add kx') s e"
    "read_point1 (libssh2_packet_add kx) s e = Some (rc, s') \<Longrightarrow> kex_busy s'"
  using fullpacket_busy(1) [OF assms, of kx e kx']
  by (auto simp: read_point1_def elim!: bind_SomeE split: if_split_asm dest!: fullpacket_busy(2) [OF assms])

lemma read_loop_busy_Some:
  assumes "read_loop padd s = Some r" "padd = libssh2_packet_add kx" "kex_busy s"
  shows "read_loop (libssh2_packet_add kx') s = Some r \<and> kex_busy (snd r)"
proof -
  have "padd = libssh2_packet_add kx \<longrightarrow> kex_busy s \<longrightarrow>
             read_loop (libssh2_packet_add kx') s = Some r \<and> kex_busy (snd r)"
  proof (rule read_loop.raw_induct [OF _ assms(1)], intro impI)
    fix loop padd s r
    assume IH: "\<And>padd s r. loop padd s = Some r \<Longrightarrow> padd = libssh2_packet_add kx \<longrightarrow> kex_busy s \<longrightarrow>
             read_loop (libssh2_packet_add kx') s = Some r \<and> kex_busy (snd r)"
      and body: "(if socket_state s = LIBSSH2_SOCKET_DISCONNECTED then Some (LIBSSH2_ERROR_NONE, s)
      else Option.bind (read_round s)
        (\<lambda>r. case r of
            Inl ret \<Rightarrow> Some ret
          | Inr s1 \<Rightarrow>
              if total_num (packet s1) = length (payload (packet s1))
              then read_point1 padd s1 (state_has s1 LIBSSH2_STATE_NEWKEYS)
              else loop padd s1)) = Some r"
      and prems: "padd = libssh2_packet_add kx" "kex_busy s"
  show "read_loop (libssh2_packet_add kx') s = Some r \<and> kex_busy (snd r)"
  proof (cases "socket_state s = LIBSSH2_SOCKET_DISCONNECTED")
    case True
    then show ?thesis using body prems by (auto simp: read_loop.simps [of _ s])
  next
    case False
    then obtain q where q: "read_round s = Some q"
      "(case q of Inl ret \<Rightarrow> Some ret
          | Inr s1 \<Rightarrow>
              if total_num (packet s1) = length (payload (packet s1))
              then read_point1 padd s1 (state_has s1 LIBSSH2_STATE_NEWKEYS)
              else loop padd s1) = Some r"
      using body by (auto elim!: bind_SomeE)
    note k = read_round_kept [OF q(1)]
    show ?thesis
    proof (cases q)
      case (Inl ret)
      then show ?thesis using q k False prems kex_busy_kept [of "snd ret" s]
        by (cases ret) (auto simp: read_loop.simps [of _ s] step_kept_def)
    next
      case (Inr s1)
      then have b: "kex_busy s1" using k prems kex_busy_kept [of s1 s] by (auto simp: step_kept_def)
      show ?thesis
        using q False Inr IH [of padd s1 r] prems
          read_point1_busy(1) [OF b, of kx _ kx'] read_point1_busy(2) [OF b, of kx _ "fst r" "snd r"]  b
        by (auto simp: read_loop.simps [of _ s] split: if_split_asm)
    qed
  qed
  qed
  then show ?thesis using assms by blast
qed

lemma read_loop_busy:
  assumes "kex_busy s"
  shows "read_loop (libssh2_packet_add kx) s = read_loop (libssh2_packet_add kx') s"
  using read_loop_busy_Some [OF _ refl assms, of kx _ kx'] read_loop_busy_Some [OF _ refl assms, of kx' _ kx]
  by (cases "read_loop (libssh2_packet_add kx) s"; cases "read_loop (libssh2_packet_add kx') s") auto

lemma transport_read_busy:
  assumes "kex_busy s"
  shows "transport_read kx s = transport_read kx' s"
    "transport_read kx s = Some (rc, s') \<Longrightarrow> kex_busy s'"
proof -
  let ?s = "clear_direction LIBSSH2_SESSION_BLOCK_INBOUND s"
  have b: "kex_busy ?s" using assms by simp
  have r: "transport_read kx'' s = (if readPack_state ?s = NB_jump1
      then read_point1 (libssh2_packet_add kx'') (?s\<lparr>readPack_state := NB_idle\<rparr>) (readPack_encrypted ?s)
      else read_loop (libssh2_packet_add kx'') ?s)" for kx''
    using b by (auto simp: transport_read_def libssh2_transport_read_def kex_busy_def Let_def)
  show "transport_read kx s = transport_read kx' s"
    using read_loop_busy [OF b, of kx kx'] b
      read_point1_busy(1) [of "?s\<lparr>readPack_state := NB_idle\<rparr>" kx "readPack_encrypted ?s" kx']
    by (simp only: r kex_busy_updates)
  show "transport_read kx s = Some (rc, s') \<Longrightarrow> kex_busy s'"
    using read_loop_busy_Some [OF _ refl b, of kx "(rc, s')" kx] b
      read_point1_busy(2) [of "?s\<lparr>readPack_state := NB_idle\<rparr>" kx "readPack_encrypted ?s" rc s']
    by (auto simp: r simp del: clear_direction_def split: if_split_asm)
qed

lemma packet_ask_kept:
  "libssh2_packet_ask s t ofs m n = Some (d, s') \<Longrightarrow> kept s' = kept s"
  by (auto simp: libssh2_packet_ask_def elim!: bind_SomeE split: asm_splits)

lemma require_loop_busy_Some:
  assumes "require_loop k t ofs m n start s = Some r" "k = kx" "kex_busy s"
  shows "require_loop kx' t ofs m n start s = Some r"
proof -
  have "k = kx \<longrightarrow> kex_busy s \<longrightarrow> require_loop kx' t ofs m n start s = Some r"
  proof (rule require_loop.raw_induct [OF _ assms(1)], intro impI)
    fix loop k t ofs m n start s r
    assume IH: "\<And>k t ofs m n start s r. loop k t ofs m n start s = Some r \<Longrightarrow> k = kx \<longrightarrow> kex_busy s
        \<longrightarrow> require_loop kx' t ofs m n start s = Some r"
      and body: "(if socket_state s \<noteq> LIBSSH2_SOCKET_CONNECTED
      then Some (LIBSSH2_ERROR_SOCKET_DISCONNECT, None, start, s)
      else Option.bind (transport_read k s) (\<lambda>(ret, s1).
        if ret = LIBSSH2_ERROR_EAGAIN then Some (ret, None, start, s1)
        else if ret < 0 then Some (ret, None, 0, s1)
        else if ret = int (unat t) then
          Option.bind (libssh2_packet_ask s1 t ofs m n) (\<lambda>(d, s2).
            Some (if d = None then -1 else 0, d, 0, s2))
        else if ret = 0 then
          (case libssh2_time s1 of (now, s2) \<Rightarrow>
             if LIBSSH2_READ_TIMEOUT - (now - start) \<le> 0 then Some (LIBSSH2_ERROR_TIMEOUT, None, 0, s2)
             else Some (-1, None, start, s2))
        else loop k t ofs m n start s1)) = Some r"
      and prems: "k = kx" "kex_busy s"
    show "require_loop kx' t ofs m n start s = Some r"
    proof (cases "socket_state s = LIBSSH2_SOCKET_CONNECTED")
      case False
      then show ?thesis using body by (simp add: require_loop.simps [of kx' t ofs m n start s])
    next
      case True
      then obtain ret s1 where tr: "transport_read kx s = Some (ret, s1)"
        using body prems by (auto elim!: bind_SomeE)
      have tr': "transport_read kx' s = Some (ret, s1)" "kex_busy s1"
        using tr transport_read_busy [OF prems(2), of kx] by (metis, blast)
      have "loop kx t ofs m n start s1 = Some r \<Longrightarrow> require_loop kx' t ofs m n start s1 = Some r"
        using IH [of kx t ofs m n start s1 r] tr'(2) by blast
      then show ?thesis using body prems True tr tr'(1)
        by (cases "ret = LIBSSH2_ERROR_EAGAIN"; cases "ret < 0"; cases "ret = int (unat t)"; cases "ret = 0")
          (simp_all add: require_loop.simps [of kx' t ofs m n start s])
    qed
  qed
  then show ?thesis using assms by blast
qed

lemma require_loop_busy:
  assumes "kex_busy s"
  shows "require_loop kx t ofs m n start s = require_loop kx' t ofs m n start s"
  using require_loop_busy_Some [OF _ refl assms, of kx t ofs m n start _ kx']
    require_loop_busy_Some [OF _ refl assms, of kx' t ofs m n start _ kx]
  by (cases "require_loop kx t ofs m n start s"; cases "require_loop kx' t ofs m n start s") auto

lemma packet_require_busy:
  assumes "kex_busy s"
  shows "libssh2_packet_require kx s t ofs m n start = libssh2_packet_require kx' s t ofs m n start"
proof (cases "start = 0 \<and> libssh2_packet_ask s t ofs m n \<noteq> None")
  case True
  then obtain d s1 where ask: "libssh2_packet_ask s t ofs m n = Some (d, s1)" by auto
  obtain now s2 where tm: "libssh2_time s1 = (now, s2)" by force
  have "require_loop kx t ofs m n now s2 = require_loop kx' t ofs m n now s2"
    using tm small_kept(6) [of s1] packet_ask_kept [OF ask] assms
    by (intro require_loop_busy, subst kex_busy_kept [of s2 s]) simp_all
  with True ask tm show ?thesis by (simp only: libssh2_packet_require_def) simp
next
  case False
  then show ?thesis using require_loop_busy [OF assms, of kx t ofs m n start kx']
    by (cases "libssh2_packet_ask s t ofs m n"; cases "start = 0") (simp_all add: libssh2_packet_require_def)
qed

section \<open>The contract of the key exchange\<close>

text \<open>What the packet layer relies on when it calls the key exchange: a call never leaves the exchange
  marked as running, and it is marked as unfinished only when it is to be resumed.\<close>

definition kex_at_rest :: "int \<Rightarrow> session \<Rightarrow> bool" where
  "kex_at_rest rc s \<longleftrightarrow> \<not> state_has s LIBSSH2_STATE_KEX_ACTIVE \<and>
     (state_has s LIBSSH2_STATE_EXCHANGING_KEYS \<longrightarrow> rc = LIBSSH2_ERROR_EAGAIN)"

definition no_exchange :: "session \<Rightarrow> bool" where
  "no_exchange s \<longleftrightarrow> \<not> state_has s LIBSSH2_STATE_KEX_ACTIVE \<and> \<not> state_has s LIBSSH2_STATE_EXCHANGING_KEYS"

lemma kex_at_rest_not_again: "rc \<noteq> LIBSSH2_ERROR_EAGAIN \<Longrightarrow> kex_at_rest rc s \<longleftrightarrow> no_exchange s"
  by (auto simp: kex_at_rest_def no_exchange_def)

lemma no_exchange_at_rest: "no_exchange s \<Longrightarrow> kex_at_rest rc s"
  by (auto simp: kex_at_rest_def no_exchange_def)

lemma no_exchange_sstate: "sstate s' = sstate s \<Longrightarrow> no_exchange s' = no_exchange s"
  by (simp add: no_exchange_def state_has_def)

lemma no_exchange_kept:
  "kept s' = kept s \<Longrightarrow> no_exchange s \<Longrightarrow> no_exchange s'"
  "add_kept s s' \<Longrightarrow> no_exchange s \<Longrightarrow> no_exchange s'"
  by (auto simp: no_exchange_def state_has_def kept_def add_kept_def)

lemma at_rest_updates [simp]:
  "kex_at_rest rc (s\<lparr>packet := p\<rparr>) = kex_at_rest rc s"
  "kex_at_rest rc (s\<lparr>readPack_encrypted := e, readPack_state := q\<rparr>) = kex_at_rest rc s"
  "no_exchange (s\<lparr>fullpacket_state := q\<rparr>) = no_exchange s" "no_exchange (s\<lparr>packet := p\<rparr>) = no_exchange s"
  "no_exchange (s\<lparr>readPack_state := q\<rparr>) = no_exchange s" "no_exchange (s\<lparr>packAdd_state := q\<rparr>) = no_exchange s"
  "no_exchange (add_done s) = no_exchange s" "kex_at_rest rc (add_done s) = kex_at_rest rc s"
  by (simp_all add: kex_at_rest_def no_exchange_def state_has_def add_done_def)

locale kex_driver =
  fixes kx :: kex_exchange_fn
  assumes kx_rests: "kx s = Some (rc, s') \<Longrightarrow> kex_at_rest rc s'"
begin

lemma add_rekey_rests:
  "no_exchange s \<Longrightarrow> add_rekey kx s msg = Some (rc, s') \<Longrightarrow> kex_at_rest rc s'"
  by (auto simp: add_rekey_def kex_at_rest_not_again elim!: bind_SomeE split: if_split_asm
      dest!: kx_rests intro: no_exchange_at_rest)

lemma add_queue_rests:
  assumes "no_exchange s" "add_queue kx s msg data n h = Some (rc, s')"
  shows "kex_at_rest rc s'"
proof -
  obtain ok s1 where a: "libssh2_alloc s = (ok, s1)" by force
  have n: "no_exchange s1" using no_exchange_kept(1) [OF alloc_kept [OF a] assms(1)] .
  then have "no_exchange (s1\<lparr>packets := q, packAdd_state := NB_sent1\<rparr>)" for q
    by (simp add: no_exchange_def state_has_def)
  from add_rekey_rests [OF this] show ?thesis using assms(2) no_exchange_at_rest [OF n]
    by (auto simp: add_queue_def a split: if_split_asm)
qed

lemma add_dispatch_rests:
  assumes "no_exchange s" "add_dispatch kx s msg data n = Some (rc, s')"
  shows "kex_at_rest rc s'"
proof (cases "handled_msg msg")
  case True
  then show ?thesis
    using add_dispatch_handled(2) [OF True assms(2)] no_exchange_kept(2) [OF _ assms(1)] no_exchange_at_rest by blast
next
  case False
  have q: "kex_at_rest rc s'" if "add_queue kx (s1\<lparr>packAdd_state := NB_sent\<rparr>) m data k h = Some (rc, s')"
    "kept s1 = kept s" for m k h s1
    using add_queue_rests [OF _ that(1)] no_exchange_kept(1) [OF that(2) assms(1)] by simp
  have h: "kex_at_rest rc s'" if "add_kept s s'"
    using no_exchange_at_rest [OF no_exchange_kept(2) [OF that assms(1)]] .
  from False assms(2) show ?thesis
    by (auto simp: add_dispatch_def handled_msg_def elim!: bind_SomeE split: sum.split_asm prod.split_asm
        if_split_asm dest!: add_channel_data_kept elim: q h)
qed

lemma packet_add_rests:
  assumes "no_exchange s" "libssh2_packet_add kx s data n m = Some (rc, s')"
  shows "kex_at_rest rc s'"
proof -
  have k: "kex_at_rest rc s'" if "kept s' = kept s" using no_exchange_at_rest [OF no_exchange_kept(1) [OF that assms(1)]] .
  have h: "kex_at_rest rc s'" if "add_kept s s'" using no_exchange_at_rest [OF no_exchange_kept(2) [OF that assms(1)]] .
  have d: "kex_at_rest rc s'" if "add_dispatch kx (s1\<lparr>packAdd_state := q\<rparr>) msg data n = Some (rc, s')"
    "kept s1 = kept s" for s1 q msg
    using add_dispatch_rests [OF _ that(1)] no_exchange_kept(1) [OF that(2) assms(1)] by simp
  show ?thesis using assms(2) small_kept(7) [of s] unfolding libssh2_packet_add_def
    by (auto elim!: bind_SomeE split: nb_state.split_asm prod.split_asm if_split_asm
        dest!: error_kept jump_point_kept add_queue_rests [OF assms(1)] add_rekey_rests [OF assms(1)]
          add_dispatch_rests [OF assms(1)])
      (erule k | erule h | (erule d, (rule refl | assumption)))+
qed

lemma fullpacket_rests:
  assumes "no_exchange s" "fullpacket (libssh2_packet_add kx) s e = Some (rc, s')"
  shows "kex_at_rest rc s'"
proof -
  obtain r where r: "(if fullpacket_state s = NB_idle then fullpacket_decode s e else Some (Inr s)) = Some r"
    "(case r of Inl ret \<Rightarrow> Some ret
      | Inr s1 \<Rightarrow> Option.bind (if fullpacket_state s1 = NB_created
                      then libssh2_packet_add kx s1 (payload (packet s1)) (fullpacket_payload_len s1)
                             (fullpacket_macstate s1)
                      else Some (0, s1)) (\<lambda>(rc, s2). if rc \<noteq> 0 then Some (rc, s2)
          else Some (int (unat (fullpacket_packet_type s2)), s2\<lparr>fullpacket_state := NB_idle\<rparr>))) = Some (rc, s')"
    using assms(2) unfolding fullpacket_def by (elim bind_SomeE)
  have k: "step_kept s r" using r(1) fullpacket_decode_kept by (auto simp: step_kept_def split: if_split_asm)
  show ?thesis
  proof (cases r)
    case (Inl ret)
    then show ?thesis using k r(2) assms(1) no_exchange_at_rest no_exchange_kept(1) by (auto simp: step_kept_def)
  next
    case (Inr s1)
    then have n: "no_exchange s1" using k assms(1) no_exchange_kept(1) by (auto simp: step_kept_def)
    show ?thesis using Inr r(2) n no_exchange_at_rest
      by (auto simp: kex_at_rest_not_again split: if_split_asm elim!: bind_SomeE
          dest!: packet_add_rests [OF n])
  qed
qed

lemma read_point1_rests:
  assumes "no_exchange s" "read_point1 (libssh2_packet_add kx) s e = Some (rc, s')"
  shows "kex_at_rest rc s'"
  using assms(2) by (auto simp: read_point1_def elim!: bind_SomeE split: if_split_asm
      dest!: fullpacket_rests [OF assms(1)])

lemma read_loop_rests:
  assumes "read_loop padd s = Some r" "padd = libssh2_packet_add kx" "no_exchange s"
  shows "kex_at_rest (fst r) (snd r)"
proof -
  have "padd = libssh2_packet_add kx \<longrightarrow> no_exchange s \<longrightarrow> kex_at_rest (fst r) (snd r)"
  proof (rule read_loop.raw_induct [OF _ assms(1)], intro impI)
    fix loop padd s r
    assume IH: "\<And>padd s r. loop padd s = Some r \<Longrightarrow> padd = libssh2_packet_add kx \<longrightarrow> no_exchange s \<longrightarrow>
             kex_at_rest (fst r) (snd r)"
      and body: "(if socket_state s = LIBSSH2_SOCKET_DISCONNECTED then Some (LIBSSH2_ERROR_NONE, s)
      else Option.bind (read_round s)
        (\<lambda>r. case r of
            Inl ret \<Rightarrow> Some ret
          | Inr s1 \<Rightarrow>
              if total_num (packet s1) = length (payload (packet s1))
              then read_point1 padd s1 (state_has s1 LIBSSH2_STATE_NEWKEYS)
              else loop padd s1)) = Some r"
      and prems: "padd = libssh2_packet_add kx" "no_exchange s"
    have "no_exchange s1" if "step_kept s (Inr s1)" for s1
      using that prems(2) no_exchange_kept(1) by (auto simp: step_kept_def)
    moreover have "kex_at_rest rc s1" if "step_kept s (Inl (rc, s1))" for rc s1
      using that prems(2) no_exchange_kept(1) no_exchange_at_rest by (auto simp: step_kept_def)
    ultimately show "kex_at_rest (fst r) (snd r)"
      using body prems no_exchange_at_rest [OF prems(2)] IH [of padd _ r]
        read_point1_rests [of _ _ "fst r" "snd r"]
      by (auto elim!: bind_SomeE split: sum.split_asm if_split_asm dest!: read_round_kept) blast
  qed
  then show ?thesis using assms by blast
qed

lemma transport_read_rests:
  assumes "\<not> state_has s LIBSSH2_STATE_KEX_ACTIVE" "transport_read kx s = Some (rc, s')"
  shows "kex_at_rest rc s'"
proof -
  let ?s = "clear_direction LIBSSH2_SESSION_BLOCK_INBOUND s"
  obtain rc1 s1 where r: "(if state_has ?s LIBSSH2_STATE_EXCHANGING_KEYS \<and> \<not> state_has ?s LIBSSH2_STATE_KEX_ACTIVE
                 then kx ?s else Some (0, ?s)) = Some (rc1, s1)"
    "(if rc1 \<noteq> 0 then Some (rc1, s1)
     else if readPack_state s1 = NB_jump1
     then read_point1 (libssh2_packet_add kx) (s1\<lparr>readPack_state := NB_idle\<rparr>) (readPack_encrypted s1)
     else read_loop (libssh2_packet_add kx) s1) = Some (rc, s')"
    using assms(2) unfolding transport_read_def libssh2_transport_read_def Let_def
    by (auto elim!: bind_SomeE)
  have n: "kex_at_rest rc1 s1"
    using r(1) assms(1) kx_rests [of ?s rc1 s1]
    by (auto simp: kex_at_rest_def state_has_def clear_direction_def split: if_split_asm)
  show ?thesis using r(2) n read_loop_rests [OF _ refl, of s1 "(rc, s')"]
      read_point1_rests [of "s1\<lparr>readPack_state := NB_idle\<rparr>" "readPack_encrypted s1" rc s']
    by (auto simp: kex_at_rest_not_again split: if_split_asm)
qed

end

lemma word_and_not_self: "((x :: 'a::len word) AND NOT m) AND m = 0"
  by (simp add: and.assoc bit.conj_cancel_left)

lemma state_flags [simp]:
  "\<not> state_has (clear_state f s) f"
  "g AND f = 0 \<Longrightarrow> state_has (clear_state f s) g = state_has s g"
  "state_has (set_key_state st s) g = state_has s g"
proof -
  show "g AND f = 0 \<Longrightarrow> state_has (clear_state f s) g = state_has s g"
  proof -
    assume "g AND f = 0"
    then have "bit (g AND f) n = bit 0 n" for n by simp
    then have "\<not> (bit g n \<and> bit f n)" for n by (simp add: bit_and_iff)
    then have "NOT f AND g = g" by (intro bit_word_eqI) (auto simp: bit_simps)
    then show ?thesis by (simp add: state_has_def clear_state_def and.assoc)
  qed
qed (simp_all add: state_has_def clear_state_def set_key_state_def word_and_not_self)

lemma kex_give_up_rests:
  "kex_at_rest rc (snd (kex_abandon s))" "kex_at_rest rc (snd (kex_finish rc' s))"
  by (simp_all add: kex_at_rest_def kex_abandon_def kex_finish_def)

lemma kex_eagain_rests: "kex_at_rest LIBSSH2_ERROR_EAGAIN (clear_state LIBSSH2_STATE_KEX_ACTIVE s)"
  by (simp add: kex_at_rest_def)

lemma kex_return_rests:
  "(rc, s') = kex_abandon s \<Longrightarrow> kex_at_rest rc s'" "kex_abandon s = (rc, s') \<Longrightarrow> kex_at_rest rc s'"
  "kex_finish rc' s = (rc, s') \<Longrightarrow> kex_at_rest rc s'"
  using kex_give_up_rests(1) [of rc s] kex_give_up_rests(2) [of rc rc' s] by (metis snd_conv)+

lemma kex_negotiate_rests:
  "kex_negotiate c s = Some (Inl (rc, s')) \<Longrightarrow> kex_at_rest rc s'"
  by (auto simp: kex_negotiate_def kex_send_init_def kex_receive_init_def Let_def kex_eagain_rests
      elim!: bind_SomeE split: asm_splits dest!: kex_return_rests)

interpretation kx: kex_driver "libssh2_kex_exchange c xkeys reexchange"
proof
  fix s rc s'
  assume "libssh2_kex_exchange c xkeys reexchange s = Some (rc, s')"
  then show "kex_at_rest rc s'"
    by (auto simp: libssh2_kex_exchange_def Let_def kex_eagain_rests
        elim!: bind_SomeE split: asm_splits dest!: kex_return_rests kex_negotiate_rests)
qed

abbreviation kex_inactive :: "session \<Rightarrow> bool" where
  "kex_inactive s \<equiv> \<not> state_has s LIBSSH2_STATE_KEX_ACTIVE"

lemma kex_inactive_kept: "kept s' = kept s \<Longrightarrow> kex_inactive s \<Longrightarrow> kex_inactive s'"
  by (simp add: kept_def state_has_def)

context kex_driver
begin

lemma require_loop_rests:
  assumes "require_loop k t ofs m n start s = Some r" "k = kx" "kex_inactive s"
  shows "kex_inactive (snd (snd (snd r)))"
proof -
  have "k = kx \<longrightarrow> kex_inactive s \<longrightarrow> kex_inactive (snd (snd (snd r)))"
  proof (rule require_loop.raw_induct [OF _ assms(1)], intro impI)
    fix loop k t ofs m n start s r
    assume IH: "\<And>k t ofs m n start s r. loop k t ofs m n start s = Some r \<Longrightarrow> k = kx \<longrightarrow>
        kex_inactive s \<longrightarrow> kex_inactive (snd (snd (snd r)))"
      and body: "(if socket_state s \<noteq> LIBSSH2_SOCKET_CONNECTED
      then Some (LIBSSH2_ERROR_SOCKET_DISCONNECT, None, start, s)
      else Option.bind (transport_read k s) (\<lambda>(ret, s1).
        if ret = LIBSSH2_ERROR_EAGAIN then Some (ret, None, start, s1)
        else if ret < 0 then Some (ret, None, 0, s1)
        else if ret = int (unat t) then
          Option.bind (libssh2_packet_ask s1 t ofs m n) (\<lambda>(d, s2).
            Some (if d = None then -1 else 0, d, 0, s2))
        else if ret = 0 then
          (case libssh2_time s1 of (now, s2) \<Rightarrow>
             if LIBSSH2_READ_TIMEOUT - (now - start) \<le> 0 then Some (LIBSSH2_ERROR_TIMEOUT, None, 0, s2)
             else Some (-1, None, start, s2))
        else loop k t ofs m n start s1)) = Some r"
      and prems: "k = kx" "kex_inactive s"
    show "kex_inactive (snd (snd (snd r)))"
    proof (cases "socket_state s = LIBSSH2_SOCKET_CONNECTED")
      case True
      then obtain ret s1 where tr: "transport_read kx s = Some (ret, s1)"
        using body prems by (auto elim!: bind_SomeE)
      have a: "kex_inactive s1" using transport_read_rests [OF prems(2) tr] by (simp add: kex_at_rest_def)
      have tm: "kex_inactive (snd (libssh2_time s1))" using small_kept(6) [of s1] a kex_inactive_kept by blast
      have ask: "kex_inactive s2" if "libssh2_packet_ask s1 t ofs m n = Some (d, s2)" for d s2
        using packet_ask_kept [OF that] a kex_inactive_kept by blast
      show ?thesis using body prems True tr tm ask a IH [of kx t ofs m n start s1 r]
        by (auto simp: elim!: bind_SomeE split: if_split_asm prod.split_asm)
    qed (use body prems in auto)
  qed
  then show ?thesis using assms by blast
qed

lemma packet_require_rests:
  assumes "kex_inactive s" "libssh2_packet_require kx s t ofs m n start = Some (rc, d, st, s')"
  shows "kex_inactive s'"
proof (cases "start = 0")
  case True
  then obtain d1 s1 where ask: "libssh2_packet_ask s t ofs m n = Some (d1, s1)"
    using assms(2) by (auto simp: libssh2_packet_require_def elim!: bind_SomeE)
  have a: "kex_inactive s1" using packet_ask_kept [OF ask] assms(1) kex_inactive_kept by blast
  then have "kex_inactive (snd (libssh2_time s1))" using small_kept(6) [of s1] kex_inactive_kept by blast
  then show ?thesis using assms(2) True ask a require_loop_rests [OF _ refl, of t ofs m n _ _ "(rc, d, st, s')"]
    by (auto simp: libssh2_packet_require_def split: prod.split_asm if_split_asm)
next
  case False
  then show ?thesis using assms require_loop_rests [OF _ refl, of t ofs m n start s "(rc, d, st, s')"]
    by (auto simp: libssh2_packet_require_def)
qed

end

section \<open>Runs of a session\<close>

text \<open>The calls the parts above this layer make, in any order.\<close>

inductive session_step ::
  "crypto \<Rightarrow> (session \<Rightarrow> (int \<times> session) ub) \<Rightarrow> session \<Rightarrow> session \<Rightarrow> bool"
  for c xkeys where
  startup: "libssh2_kex_exchange c xkeys False s = Some (rc, s') \<Longrightarrow> session_step c xkeys s s'"
| read: "session_read c xkeys s = Some (rc, s') \<Longrightarrow> session_step c xkeys s s'"
| send: "libssh2_transport_send s daddr data data2 = Some (rc, s') \<Longrightarrow> session_step c xkeys s s'"
| ask: "libssh2_packet_ask s t ofs m n = Some (d, s') \<Longrightarrow> session_step c xkeys s s'"
| require: "libssh2_packet_require (libssh2_kex_exchange c xkeys True) s t ofs m n start = Some (rc, d, st, s')
    \<Longrightarrow> session_step c xkeys s s'"
| adjust: "libssh2_channel_receive_window_adjust s cid adjustment force = Some (rc, s')
    \<Longrightarrow> session_step c xkeys s s'"

inductive_cases session_stepE: "session_step c xkeys s s'"

lemma session_step_inactive:
  assumes "session_step c xkeys s s'" "kex_inactive s"
  shows "kex_inactive s'"
  using assms
proof cases
  case (startup rc)
  then show ?thesis using kx.kx_rests by (auto simp: kex_at_rest_def)
next
  case (read rc)
  then show ?thesis using kx.transport_read_rests [OF assms(2)] by (auto simp: session_read_def kex_at_rest_def)
next
  case (require t ofs m n start rc d st)
  then show ?thesis using kx.packet_require_rests [OF assms(2)] by blast
qed (use assms(2) kex_inactive_kept in \<open>blast dest: transport_send_kept packet_ask_kept window_adjust_kept\<close>)+


section \<open>The key exchange is not entered twice\<close>

lemma kept_updates_kex [simp]:
  "kept (s\<lparr>kexinit_state := x\<rparr>) = kept s" "kept (s\<lparr>kexinit_data := y\<rparr>) = kept s"
  "kept (s\<lparr>startup_key_state := z\<rparr>) = kept s" "kept (s\<lparr>kex := k\<rparr>) = kept s" "kept (s\<lparr>hostkey := h\<rparr>) = kept s"
  "kept (set_key_state q s) = kept s"
  by (simp_all add: kept_def set_key_state_def)

lemma random_kept: "libssh2_random s n = (r, s') \<Longrightarrow> kept s' = kept s"
  by (auto simp: libssh2_random_def)

lemma kexinit_kept: "kexinit c s = Some (rc, s') \<Longrightarrow> kept s' = kept s"
  by (auto simp: kexinit_def kexinit_data_of_def elim!: bind_SomeE split: asm_splits
      dest!: transport_send_kept alloc_kept error_kept random_kept)

lemma kex_start_busy:
  assumes "packAdd_state s \<noteq> NB_sent2"
    and "ke_state (startup_key_state s) = NB_idle \<or> state_has s LIBSSH2_STATE_EXCHANGING_KEYS"
  shows "kex_busy (kex_start r s)"
proof -
  have "(x OR f) AND g \<noteq> 0" if "x AND g \<noteq> 0" for x f g :: u32
    using that by (auto simp: bit_eq_iff bit_simps)
  moreover have "(x OR f) AND f \<noteq> 0" if "f \<noteq> 0" for x f :: u32
    using that by (auto simp: bit_eq_iff bit_simps)
  ultimately show ?thesis using assms
    by (auto simp: kex_busy_def kex_start_def set_state_def set_key_state_def state_has_def Let_def)
qed

lemma kex_save_old_kept: "kept (kex_save_old s) = kept s"
  by (simp add: kex_save_old_def)

lemma kex_send_init_kept: "kex_send_init c s = Some (Inr s') \<Longrightarrow> kept s' = kept s"
  by (auto simp: kex_send_init_def elim!: bind_SomeE split: if_split_asm dest!: kexinit_kept)

text \<open>C15. The reads the key exchange makes while it waits for the peer's \<^verbatim>\<open>KEXINIT\<close> never call the key
  exchange again: the result does not depend on it. The model's \<open>no_kex\<close>, and the cycle of calls
  between the key exchange, the reader and \<^verbatim>\<open>_libssh2_packet_add\<close> it cuts, rest on this.\<close>

theorem kex_not_reentered:
  assumes "packAdd_state s \<noteq> NB_sent2"
    and "ke_state (startup_key_state s) = NB_idle \<or> state_has s LIBSSH2_STATE_EXCHANGING_KEYS"
    and "kex_send_init c (kex_save_old (kex_start reexchange s)) = Some (Inr s1)"
  shows "libssh2_packet_require kx s1 t ofs m n start = libssh2_packet_require no_kex s1 t ofs m n start"
proof -
  have "kept s1 = kept (kex_start reexchange s)"
    using kex_send_init_kept [OF assms(3)] kex_save_old_kept by simp
  then show ?thesis using kex_start_busy [OF assms(1,2), of reexchange] kex_busy_kept
    by (intro packet_require_busy) blast
qed

lemmas reader_eval = read_loop.simps read_round_def read_blocksize_def read_fill_def libssh2_recv_def read_start_def
  read_body_def read_amounts_def take_bytes_def read_point1_def fullpacket_def fullpacket_decode_def
  fullpacket_mac_def fullpacket_decomp_def libssh2_alloc_def rd32_def rd8_def rdn_def libssh2_ntohu32_def size_sub_def
  session_cleared_def env0_def transportpacket0_def endpoint0_def state_has_def Let_def
  transport_read_def libssh2_transport_read_def clear_direction_def

definition ignore_env :: env where
  "ignore_env = env0\<lparr>recvs := [Received [0, 0, 0, 12, 6, 2, 0, 0, 0, 0, 0, 0, 0, 0, 0, 0]]\<rparr>"

lemma ignore_read:
  "\<exists>s2. session_read crypto1 (\<lambda>s. None) (session_cleared ignore_env) = Some (2, s2) \<and> recvs (env s2) = []"
  by (simp add: ignore_env_def session_read_def reader_eval libssh2_packet_add_def add_dispatch_def add_ignore_def add_done_def)


theorem kex_not_reentered_witness:
  "\<forall>kx. libssh2_packet_require kx
       ((session_cleared env0)\<lparr>sstate := 9, startup_key_state := key_exchange_state0\<lparr>ke_state := NB_sent1\<rparr>\<rparr>)
       SSH_MSG_KEXINIT 0 None 0 5 =
     libssh2_packet_require no_kex
       ((session_cleared env0)\<lparr>sstate := 9, startup_key_state := key_exchange_state0\<lparr>ke_state := NB_sent1\<rparr>\<rparr>)
       SSH_MSG_KEXINIT 0 None 0 5"
proof
  fix kx
  let ?s = "(session_cleared env0)\<lparr>sstate := 9, startup_key_state := key_exchange_state0\<lparr>ke_state := NB_sent1\<rparr>\<rparr>"
  have "kex_send_init crypto1 (kex_save_old (kex_start True ?s)) = Some (Inr ?s)"
    by (simp add: kex_send_init_def kex_save_old_def kex_start_def set_state_def)
  then show "libssh2_packet_require kx ?s SSH_MSG_KEXINIT 0 None 0 5 = libssh2_packet_require no_kex ?s SSH_MSG_KEXINIT 0 None 0 5"
    by (rule kex_not_reentered [rotated 2]) (simp_all add: state_has_def session_cleared_def)
qed

end
