(* ===== verification/Channel_Stream.thy ===== *)
theory Channel_Stream
  imports Channel Packet_Queue Kex_Driver
begin

text \<open>
  A channel as a stream of bytes.

  \<^item> \<open>byte_stream ch stream_id ps\<close> is what the queue of packets holds for one stream of a channel: the
    abstraction under which \<open>libssh2_channel_read\<close> takes a prefix of a sequence of bytes.
  \<^item> Writing: how much of the buffer goes into a packet, what the packet is, and what happens to the
    window; \<open>channel_writes\<close> repeats the call while it would block.
  \<^item> The two together with the transport layer: what one end writes is appended to the stream of the
    other end, and the window of the writer never exceeds the window the reader offers (\<open>credit\<close>).
\<close>

section \<open>The stream in the queue\<close>

text \<open>A packet whose fields lie inside its data, and which is not larger than an \<^verbatim>\<open>int\<close> can count; every
  packet that was read from the socket has at least nine bytes with its padding.\<close>

definition readable :: "ssh_packet \<Rightarrow> bool" where
  "readable p \<longleftrightarrow> 9 \<le> length (pk_data p) \<and> pk_data_head p \<le> pk_data_len p \<and>
     pk_data_len p \<le> length (pk_data p) \<and> pk_data_len p < 2 ^ 31"

text \<open>Whether a read of the stream takes data from the packet, and the data it has left.\<close>

definition wants :: "channel \<Rightarrow> int \<Rightarrow> ssh_packet \<Rightarrow> bool" where
  "wants ch stream_id p \<longleftrightarrow> read_wanted ch stream_id p = Some True"

definition unread_data :: "ssh_packet \<Rightarrow> byte list" where
  "unread_data p = drop (pk_data_head p) (take (pk_data_len p) (pk_data p))"

definition byte_stream :: "channel \<Rightarrow> int \<Rightarrow> ssh_packet list \<Rightarrow> byte list" where
  "byte_stream ch stream_id ps = concat (map unread_data (filter (wants ch stream_id) ps))"

lemma read_wanted_wants: "readable p \<Longrightarrow> read_wanted ch stream_id p = Some (wants ch stream_id p)"
  by (cases "read_wanted ch stream_id p") (auto simp: wants_def readable_def read_wanted_def rd8_def rd32_def split: if_split_asm)

lemma c_int_small: "n < 2 ^ 31 \<Longrightarrow> c_int n = int n"
  by (simp add: c_int_def signed_of_nat signed_take_bit_int_eq_self)

lemma readable_advance: "readable p \<Longrightarrow> n \<le> length (unread_data p) \<Longrightarrow> readable (p\<lparr>pk_data_head := pk_data_head p + n\<rparr>)"
  by (auto simp: readable_def unread_data_def)

lemma unread_data_advance: "unread_data (p\<lparr>pk_data_head := pk_data_head p + n\<rparr>) = drop n (unread_data p)"
  by (simp add: unread_data_def add.commute)

lemma wants_advance [simp]: "wants ch sid (p\<lparr>pk_data_head := h\<rparr>) = wants ch sid p"
  by (simp add: wants_def read_wanted_def cong: if_cong)

lemma byte_stream_simps [simp]:
  "byte_stream ch sid [] = []"
  "wants ch sid p \<Longrightarrow> byte_stream ch sid (p # ps) = unread_data p @ byte_stream ch sid ps"
  "\<not> wants ch sid p \<Longrightarrow> byte_stream ch sid (p # ps) = byte_stream ch sid ps"
  by (simp_all add: byte_stream_def)

lemma length_unread_data: "readable p \<Longrightarrow> length (unread_data p) = pk_data_len p - pk_data_head p"
  by (simp add: readable_def unread_data_def)

lemma rdn_unread: "readable p \<Longrightarrow> n \<le> length (unread_data p) \<Longrightarrow> rdn (pk_data p) (pk_data_head p) n = Some (take n (unread_data p))"
  by (auto simp: readable_def unread_data_def rdn_def drop_take)

text \<open>One step of the loop.\<close>

lemma read_packets_step:
  assumes p: "readable p" "wants ch sid p" and n: "length acc < buflen" "buflen < 2 ^ 31"
  shows "read_packets ch sid buflen (p # ps) acc =
     map_option (\<lambda>(acc', qs). (acc', if length (unread_data p) \<le> buflen - length acc then qs
         else p\<lparr>pk_data_head := pk_data_head p + (buflen - length acc)\<rparr> # qs))
       (read_packets ch sid buflen ps (acc @ take (buflen - length acc) (unread_data p)))"
proof -
  have w: "c_int (size_sub buflen (length acc)) = int (buflen - length acc)"
    using n c_int_small [of "buflen - length acc"] by (subst size_sub_exact) auto
  have a: "c_int (size_sub (pk_data_len p) (pk_data_head p)) = int (length (unread_data p))"
    using p(1) by (subst size_sub_exact) (auto simp: readable_def length_unread_data [OF p(1)] c_int_small)
  have b: "c_int buflen = int buflen" using n by (simp add: c_int_small)
  have r: "rdn (pk_data p) (pk_data_head p) (min (buflen - length acc) (length (unread_data p))) =
      Some (take (buflen - length acc) (unread_data p))"
    using rdn_unread [OF p(1), of "min (buflen - length acc) (length (unread_data p))"]
    by (simp add: min_def split: if_split_asm)
  have m: "nat (min (int (buflen - length acc)) (int (length (unread_data p)))) = min (buflen - length acc) (length (unread_data p))"
    by simp
  show ?thesis
    using n unfolding read_packets.simps b w a Let_def read_wanted_wants [OF p(1)] m r
    by (cases "read_packets ch sid buflen ps (acc @ take (buflen - length acc) (unread_data p))") (auto simp: p(2))
qed

lemma read_packets_skip:
  assumes p: "readable p" "\<not> wants ch sid p" and n: "length acc < buflen" "buflen < 2 ^ 31"
  shows "read_packets ch sid buflen (p # ps) acc =
     map_option (\<lambda>(acc', qs). (acc', p # qs)) (read_packets ch sid buflen ps acc)"
proof -
  have "c_int buflen = int buflen" using n by (simp add: c_int_small)
  then show ?thesis using n p by (cases "read_packets ch sid buflen ps acc") (auto simp: read_wanted_wants)
qed

declare read_packets.simps(2) [simp del]

lemma read_packets_full:
  "buflen \<le> length acc \<Longrightarrow> buflen < 2 ^ 31 \<Longrightarrow> read_packets ch sid buflen ps acc = Some (acc, ps)"
  by (cases ps) (auto simp: c_int_small read_packets.simps)

text \<open>The loop takes a prefix of the stream and leaves the rest of it; other packets stay.\<close>

lemma read_packets_stream:
  assumes "list_all readable ps" "length acc \<le> buflen" "buflen < 2 ^ 31"
  shows "\<exists>qs. read_packets ch sid buflen ps acc =
      Some (acc @ take (buflen - length acc) (byte_stream ch sid ps), qs) \<and> list_all readable qs \<and>
    byte_stream ch sid qs = drop (buflen - length acc) (byte_stream ch sid ps) \<and>
    filter (\<lambda>p. \<not> wants ch sid p) qs = filter (\<lambda>p. \<not> wants ch sid p) ps"
  using assms
proof (induction ps arbitrary: acc)
  case (Cons p ps)
  consider "length acc = buflen" | "length acc < buflen" "wants ch sid p" | "length acc < buflen" "\<not> wants ch sid p"
    using Cons.prems by linarith
  then show ?case
  proof cases
    case 1
    then show ?thesis using Cons.prems by (simp add: read_packets_full)
  next
    case 2
    let ?acc = "acc @ take (buflen - length acc) (unread_data p)"
    have "length ?acc \<le> buflen" using 2(1) by simp
    then obtain qs where qs: "read_packets ch sid buflen ps ?acc =
        Some (?acc @ take (buflen - length ?acc) (byte_stream ch sid ps), qs)" "list_all readable qs"
      "byte_stream ch sid qs = drop (buflen - length ?acc) (byte_stream ch sid ps)"
      "filter (\<lambda>p. \<not> wants ch sid p) qs = filter (\<lambda>p. \<not> wants ch sid p) ps"
      using Cons.IH [of ?acc] Cons.prems by auto
    let ?qs = "if length (unread_data p) \<le> buflen - length acc then qs
        else p\<lparr>pk_data_head := pk_data_head p + (buflen - length acc)\<rparr> # qs"
    have "read_packets ch sid buflen (p # ps) acc =
        Some (?acc @ take (buflen - length ?acc) (byte_stream ch sid ps), ?qs)"
      using read_packets_step [of p ch sid acc buflen ps] Cons.prems 2 qs(1) by simp
    moreover have "?acc @ take (buflen - length ?acc) (byte_stream ch sid ps) =
        acc @ take (buflen - length acc) (byte_stream ch sid (p # ps))"
      using 2 by (simp add: min_def)
    moreover have "list_all readable ?qs"
      using qs(2) Cons.prems readable_advance [of p "buflen - length acc"] by auto
    moreover have "byte_stream ch sid ?qs = drop (buflen - length acc) (byte_stream ch sid (p # ps))"
      using qs(3) 2 by (auto simp: unread_data_advance min_def simp del: add_diff_assoc)
    ultimately show ?thesis using qs(4) 2(2) by (intro exI [of _ ?qs]) simp
  next
    case 3
    then obtain qs where "read_packets ch sid buflen ps acc =
        Some (acc @ take (buflen - length acc) (byte_stream ch sid ps), qs)" "list_all readable qs"
      "byte_stream ch sid qs = drop (buflen - length acc) (byte_stream ch sid ps)"
      "filter (\<lambda>p. \<not> wants ch sid p) qs = filter (\<lambda>p. \<not> wants ch sid p) ps"
      using Cons.IH [of acc] Cons.prems by auto
    then show ?thesis using read_packets_skip [of p ch sid acc buflen ps] Cons.prems 3 by auto
  qed
qed auto

section \<open>Reading\<close>

definition start_reading :: "channel \<Rightarrow> channel" where
  "start_reading c = (if read_state c = NB_idle then c\<lparr>read_state := NB_created\<rparr> else c)"

lemma wants_local_id: "wants ch sid p \<Longrightarrow> rd32 (pk_data p) 1 = Some (local_id ch)"
  by (auto simp: wants_def read_wanted_def elim!: bind_SomeE split: if_split_asm)

lemma other_stream:
  assumes "filter (\<lambda>p. \<not> wants ch sid p) qs = filter (\<lambda>p. \<not> wants ch sid p) ps" "local_id ch2 \<noteq> local_id ch"
  shows "byte_stream ch2 sid2 qs = byte_stream ch2 sid2 ps"
proof -
  have "filter (wants ch2 sid2) xs = filter (wants ch2 sid2) (filter (\<lambda>p. \<not> wants ch sid p) xs)" for xs
    using assms(2) by (induction xs) (auto dest!: wants_local_id)
  with assms(1) show ?thesis unfolding byte_stream_def by metis
qed

text \<open>C4. Reading is reading from a byte stream. After the pending packets have been taken from the socket,
  a call with room for \<open>buflen\<close> bytes returns the first \<open>buflen\<close> bytes of the unread data the queue holds
  for the stream, across packet boundaries and never reading outside a packet; what is left in the queue
  is exactly the rest of the stream, and the streams of the other channels are as before. The result
  is the number of bytes; without data it is 0 at the end of the stream and otherwise what the
  transport said.\<close>

theorem channel_read_refines_stream:
  assumes drained: "update_channel s cid start_reading = Some s1" "drain kx s1 = Some (rc, s2)"
      "rc = 0 \<or> rc = LIBSSH2_ERROR_EAGAIN"
    and ch: "libssh2_channel_locate s2 cid = Some ch" and wf: "list_all readable (packets s2)" and n: "buflen < 2 ^ 31"
    and bytes: "bytes = take buflen (byte_stream ch sid (packets s2))"
  shows "\<exists>rc' s'. libssh2_channel_read kx s cid sid buflen = Some (rc', bytes, s') \<and>
     rc' = (if bytes \<noteq> [] then int (length bytes)
            else if cd_eof (ch_remote ch) \<or> cd_close (ch_remote ch) then 0 else rc) \<and>
     byte_stream ch sid (packets s') = drop buflen (byte_stream ch sid (packets s2)) \<and>
     (\<forall>ch2 sid2. local_id ch2 \<noteq> cid \<longrightarrow> byte_stream ch2 sid2 (packets s') = byte_stream ch2 sid2 (packets s2)) \<and>
     list_all readable (packets s')"
proof -
  obtain qs where qs: "read_packets ch sid buflen (packets s2) [] = Some (bytes, qs)" "list_all readable qs"
    "byte_stream ch sid qs = drop buflen (byte_stream ch sid (packets s2))"
    "filter (\<lambda>p. \<not> wants ch sid p) qs = filter (\<lambda>p. \<not> wants ch sid p) (packets s2)"
    using read_packets_stream [OF wf, of "[]" buflen ch sid] n bytes by auto
  have id: "local_id ch = cid" by (rule chans.find_ident [OF ch])
  let ?s = "s2\<lparr>packets := qs\<rparr>"
  have l: "libssh2_channel_locate ?s cid = Some ch" using ch locate_cong [of ?s s2] by simp
  obtain i c where
    i: "update_channel ?s cid (\<lambda>c. c\<lparr>read_state := NB_idle\<rparr>) = Some i" and
    c: "update_channel ?s cid (\<lambda>c. c\<lparr>read_state := NB_created\<rparr>) = Some c"
    by (rule chans.upd_obtains [OF l, of "\<lambda>c. c\<lparr>read_state := NB_idle\<rparr>"],
        simp add: id, rule chans.upd_obtains [OF l, of "\<lambda>c. c\<lparr>read_state := NB_created\<rparr>"], simp add: id) blast
  have pk: "packets i = qs" "packets c = qs" using update_channel_frame(1) [OF i] update_channel_frame(1) [OF c] by simp_all
  have sr: "update_channel s cid (\<lambda>c. if read_state c = NB_idle then c\<lparr>read_state := NB_created\<rparr> else c) = Some s1"
    using drained(1) unfolding start_reading_def .
  have "libssh2_channel_read kx s cid sid buflen = Some (
      if bytes \<noteq> [] then (int (length bytes), bytes, c)
      else if cd_eof (ch_remote ch) \<or> cd_close (ch_remote ch) \<or> rc = 0 then (0, [], i)
      else (rc, [], snd (libssh2_error i rc ''would block'')))"
    using sr drained(2,3) ch qs(1) i c by (auto simp: libssh2_channel_read_def Let_def libssh2_error_def)
  moreover have "byte_stream ch2 sid2 qs = byte_stream ch2 sid2 (packets s2)" if "local_id ch2 \<noteq> cid" for ch2 sid2
    using other_stream [OF qs(4)] that id by simp
  ultimately show ?thesis using qs(2,3) pk by (auto simp: libssh2_error_def)
qed

section \<open>Writing\<close>

lemma locate_err [simp]: "libssh2_channel_locate (s\<lparr>err_msg := m, err_code := x\<rparr>) = libssh2_channel_locate s"
  by (rule locate_cong) simp_all

lemma data_view_err [simp]: "data_view (s\<lparr>err_msg := m, err_code := x\<rparr>) = data_view s"
  by (simp add: data_view_def)

lemma write_amount_min: "write_amount ch k = min (min k (unat (window_size (ch_local ch)))) (unat (packet_size (ch_local ch)))"
  by (simp add: write_amount_def Let_def)

definition sendable :: "channel \<Rightarrow> byte list \<Rightarrow> byte list" where
  "sendable ch bufp = take (write_amount ch (min (length bufp) 32700)) bufp"

definition prepared :: "channel \<Rightarrow> int \<Rightarrow> byte list \<Rightarrow> channel \<Rightarrow> channel" where
  "prepared ch sid bufp c = c\<lparr>write_bufwrite := length (sendable ch bufp),
     write_packet := write_header ch sid (length (sendable ch bufp)), write_state := NB_created\<rparr>"

definition after_write :: "nat \<Rightarrow> channel \<Rightarrow> channel" where
  "after_write n c = c\<lparr>ch_local := (ch_local c)\<lparr>window_size := window_size (ch_local c) - word_of_nat n\<rparr>,
     write_state := NB_idle\<rparr>"

lemma length_sendable:
  "length (sendable ch bufp) = write_amount ch (min (length bufp) 32700)"
  by (simp add: sendable_def write_amount_min)

lemma local_id_write [simp]: "local_id (prepared ch sid bufp c) = local_id c" "local_id (after_write n c) = local_id c"
  by (simp_all add: prepared_def after_write_def)

text \<open>The packet of a prepared write.\<close>

lemma write_send_outcome:
  assumes c: "libssh2_channel_locate t cid = Some c" "write_bufwrite c = length d" "d = take (length d) bufp"
    and send: "libssh2_transport_send t (addr_write cid) (write_packet c) (Some d) = Some (r, t1)"
  shows "r = LIBSSH2_ERROR_EAGAIN \<Longrightarrow>
      write_send t cid bufp = Some (r, snd (libssh2_error t1 r ''Unable to send channel data''))"
    "r = 0 \<Longrightarrow> \<exists>t2. write_send t cid bufp = Some (int (length d), t2) \<and>
      libssh2_channel_locate t2 cid = Some (after_write (length d) c) \<and> data_view t2 = data_view t1 \<and>
      (\<forall>j. j \<noteq> cid \<longrightarrow> libssh2_channel_locate t2 j = libssh2_channel_locate t j) \<and> packets t2 = packets t"
    "r \<noteq> 0 \<Longrightarrow> r \<noteq> LIBSSH2_ERROR_EAGAIN \<Longrightarrow> \<exists>t2. write_send t cid bufp = Some (r, t2) \<and>
      libssh2_channel_locate t2 cid = Some (c\<lparr>write_state := NB_idle\<rparr>) \<and> data_view t2 = data_view t1"
proof -
  have "length d \<le> length bufp" using c(3) by (metis nat_le_linear take_all_iff)
  then have d: "rdn bufp 0 (write_bufwrite c) = Some d" using c(2,3) by (simp add: rdn_def)
  have l: "libssh2_channel_locate t1 = libssh2_channel_locate t" by (rule transport_send_frame(7) [OF send])
  have id: "local_id c = cid" by (rule chans.find_ident [OF c(1)])
  show "r = LIBSSH2_ERROR_EAGAIN \<Longrightarrow>
      write_send t cid bufp = Some (r, snd (libssh2_error t1 r ''Unable to send channel data''))"
    using c(1) d send by (simp add: write_send_def libssh2_error_def)
  obtain t3 where t3: "update_channel t1 cid (\<lambda>c. c\<lparr>ch_local := (ch_local c)\<lparr>window_size :=
        window_size (ch_local c) - word_of_nat (write_bufwrite c)\<rparr>, write_state := NB_idle\<rparr>) = Some t3"
    "libssh2_channel_locate t3 cid = Some (after_write (length d) c)"
    "\<forall>j. j \<noteq> cid \<longrightarrow> libssh2_channel_locate t3 j = libssh2_channel_locate t1 j"
    by (rule chans.upd_obtains [of t1 cid c "\<lambda>c. c\<lparr>ch_local := (ch_local c)\<lparr>window_size :=
        window_size (ch_local c) - word_of_nat (write_bufwrite c)\<rparr>, write_state := NB_idle\<rparr>"])
      (use l c id in \<open>auto simp: after_write_def\<close>)
  show "r = 0 \<Longrightarrow> \<exists>t2. write_send t cid bufp = Some (int (length d), t2) \<and>
      libssh2_channel_locate t2 cid = Some (after_write (length d) c) \<and> data_view t2 = data_view t1 \<and>
      (\<forall>j. j \<noteq> cid \<longrightarrow> libssh2_channel_locate t2 j = libssh2_channel_locate t j) \<and> packets t2 = packets t"
    using c(1,2) d send t3 l update_channel_data_view [OF t3(1)] update_channel_frame(1) [OF t3(1)]
      transport_send_frame(5) [OF send] by (simp add: write_send_def)
  obtain t4 where t4: "update_channel t1 cid (\<lambda>c. c\<lparr>write_state := NB_idle\<rparr>) = Some t4"
    "libssh2_channel_locate t4 cid = Some (c\<lparr>write_state := NB_idle\<rparr>)"
    by (rule chans.upd_obtains [of t1 cid c "\<lambda>c. c\<lparr>write_state := NB_idle\<rparr>"]) (use l c id in auto)
  have v: "data_view (snd (libssh2_error t4 r ''Unable to send channel data'')) = data_view t1"
    using update_channel_data_view [OF t4(1)] by (simp add: libssh2_error_def data_view_def)
  show "r \<noteq> 0 \<Longrightarrow> r \<noteq> LIBSSH2_ERROR_EAGAIN \<Longrightarrow> \<exists>t2. write_send t cid bufp = Some (r, t2) \<and>
      libssh2_channel_locate t2 cid = Some (c\<lparr>write_state := NB_idle\<rparr>) \<and> data_view t2 = data_view t1"
    using c(1) d send t4 v locate_error [of t4 r] by (simp add: write_send_def) (simp add: libssh2_error_def)
qed

lemma channel_write_resumed:
  "libssh2_channel_locate s cid = Some c \<Longrightarrow> write_state c = NB_created \<Longrightarrow>
   libssh2_channel_write kx s cid sid bufp = write_send s cid bufp"
  by (simp add: libssh2_channel_write_def)

lemma channel_write_begins:
  assumes c0: "libssh2_channel_locate s cid = Some c0" "write_state c0 = NB_idle"
      "\<not> cd_close (ch_local c0)" "\<not> cd_eof (ch_local c0)"
    and drained: "drain kx s = Some (rc, s1)" "libssh2_channel_locate s1 cid = Some c" "window_size (ch_local c) \<noteq> 0"
    and upd: "update_channel s1 cid (prepared c sid bufp) = Some s2" "libssh2_channel_locate s2 cid = Some (prepared c sid bufp c)"
  shows "libssh2_channel_write kx s cid sid bufp = write_send s2 cid bufp"
proof -
  have m: "(if length bufp > 32700 then 32700 else length bufp) = min (length bufp) 32700" by simp
  have "update_channel s1 cid (\<lambda>x. x\<lparr>write_bufwrite := write_amount c (min (length bufp) 32700),
      write_packet := write_header c sid (write_amount c (min (length bufp) 32700)),
      write_state := NB_created\<rparr>) = Some s2"
    using upd(1) by (simp add: prepared_def [abs_def] length_sendable)
  then show ?thesis using assms unfolding libssh2_channel_write_def Let_def m
    by (simp add: write_prepare_def Let_def prepared_def)
qed

lemma after_write_window:
  assumes "n \<le> unat (window_size (ch_local c))"
  shows "unat (window_size (ch_local (after_write n c))) = unat (window_size (ch_local c)) - n"
proof -
  have "unat (word_of_nat n :: u32) = n"
    by (rule unat_u32_of_nat, rule le_less_trans [OF assms]) simp
  with assms show ?thesis by (simp add: after_write_def unat_sub word_le_nat_alt)
qed

lemma prepared_fields [simp]:
  "write_bufwrite (prepared ch sid bufp c) = length (sendable ch bufp)"
  "write_packet (prepared ch sid bufp c) = write_header ch sid (length (sendable ch bufp))"
  "write_state (prepared ch sid bufp c) = NB_created" "ch_local (prepared ch sid bufp c) = ch_local c"
  "ch_remote (prepared ch sid bufp c) = ch_remote c"
  by (simp_all add: prepared_def)

lemma after_write_fields [simp]:
  "write_state (after_write n c) = NB_idle" "ch_remote (after_write n c) = ch_remote c"
  "packet_size (ch_local (after_write n c)) = packet_size (ch_local c)"
  "window_size (ch_local (after_write n (prepared ch sid bufp c))) = window_size (ch_local (after_write n c))"
  by (simp_all add: after_write_def)

lemma sendable_prefix: "sendable ch bufp = take (length (sendable ch bufp)) bufp"
  unfolding length_sendable by (simp add: sendable_def)

text \<open>C8. Writing respects the limits of the peer. After a local close or end of file a write is refused
  and nothing is sent. Otherwise, after the pending packets have been read, a write on a channel with an
  empty window sends nothing; with an open window one packet is sent with the first \<open>n\<close> bytes of the
  buffer, \<open>n\<close> being bounded by the buffer, 32700, the window and the packet size the peer offered. When
  the send completes the result is \<open>n\<close> and the window has shrunk by exactly \<open>n\<close>; when it would block the
  window is unchanged and the call can be resumed; on an error the write is given up.\<close>

theorem channel_write_bounded:
  assumes c0: "libssh2_channel_locate s cid = Some c0" "write_state c0 = NB_idle"
  shows "(cd_close (ch_local c0) \<longrightarrow> libssh2_channel_write kx s cid sid bufp =
       Some (libssh2_error s LIBSSH2_ERROR_CHANNEL_CLOSED ''We've already closed this channel''))
   \<and> (\<not> cd_close (ch_local c0) \<and> cd_eof (ch_local c0) \<longrightarrow> libssh2_channel_write kx s cid sid bufp =
       Some (libssh2_error s LIBSSH2_ERROR_CHANNEL_EOF_SENT ''EOF has already been received, data might be ignored''))
   \<and> (\<not> cd_close (ch_local c0) \<and> \<not> cd_eof (ch_local c0) \<and> drain kx s = Some (rc, s1) \<and>
        libssh2_channel_locate s1 cid = Some c \<longrightarrow>
      (window_size (ch_local c) = 0 \<longrightarrow>
         libssh2_channel_write kx s cid sid bufp = Some (if rc = LIBSSH2_ERROR_EAGAIN then rc else 0, s1)) \<and>
      (window_size (ch_local c) \<noteq> 0 \<and> n = min (min (min (length bufp) 32700) (unat (window_size (ch_local c))))
            (unat (packet_size (ch_local c))) \<longrightarrow>
         (\<exists>s2. data_view s2 = data_view s1 \<and> (\<forall>r s3. libssh2_transport_send s2 (addr_write cid)
              (write_header c sid n) (Some (take n bufp)) = Some (r, s3) \<longrightarrow>
            (\<exists>s4 c4. libssh2_channel_write kx s cid sid bufp = Some (if r = 0 then int n else r, s4) \<and>
               data_view s4 = data_view s3 \<and> libssh2_channel_locate s4 cid = Some c4 \<and>
               unat (window_size (ch_local c4)) = unat (window_size (ch_local c)) - (if r = 0 then n else 0) \<and>
               (write_state c4 = NB_idle \<longleftrightarrow> r \<noteq> LIBSSH2_ERROR_EAGAIN))))))"
proof (intro conjI impI; (elim conjE)?)
  assume a: "\<not> cd_close (ch_local c0)" "\<not> cd_eof (ch_local c0)" "drain kx s = Some (rc, s1)"
    "libssh2_channel_locate s1 cid = Some c" "window_size (ch_local c) \<noteq> 0"
    "n = min (min (min (length bufp) 32700) (unat (window_size (ch_local c)))) (unat (packet_size (ch_local c)))"
  have n: "length (sendable c bufp) = n" using a(6) by (simp add: length_sendable write_amount_min)
  have d: "sendable c bufp = take n bufp" using sendable_prefix [of c bufp] n by simp
  have id: "local_id c = cid" by (rule chans.find_ident [OF a(4)])
  obtain s2 where s2: "update_channel s1 cid (prepared c sid bufp) = Some s2"
    "libssh2_channel_locate s2 cid = Some (prepared c sid bufp c)"
    by (rule chans.upd_obtains [of s1 cid c "prepared c sid bufp"]) (use a id in auto)
  note w = channel_write_begins [OF c0 a(1-5) s2]
  have "\<exists>s4 c4. libssh2_channel_write kx s cid sid bufp = Some (if r = 0 then int n else r, s4) \<and>
      data_view s4 = data_view s3 \<and> libssh2_channel_locate s4 cid = Some c4 \<and>
      unat (window_size (ch_local c4)) = unat (window_size (ch_local c)) - (if r = 0 then n else 0) \<and>
      (write_state c4 = NB_idle \<longleftrightarrow> r \<noteq> LIBSSH2_ERROR_EAGAIN)"
    if h: "libssh2_transport_send s2 (addr_write cid) (write_header c sid n) (Some (take n bufp)) = Some (r, s3)" for r s3
  proof -
    have send: "libssh2_transport_send s2 (addr_write cid) (write_packet (prepared c sid bufp c)) (Some (sendable c bufp))
        = Some (r, s3)" using h n d by simp
    note o = write_send_outcome [OF s2(2) prepared_fields(1) sendable_prefix send]
    consider "r = 0" | "r = LIBSSH2_ERROR_EAGAIN" | "r \<noteq> 0" "r \<noteq> LIBSSH2_ERROR_EAGAIN" by blast
    then show ?thesis
    proof cases
      case 1
      with o(2) w n after_write_window [of n c] a(6) show ?thesis by auto
    next
      case 2
      with o(1) w n s2(2) transport_send_frame(7) [OF send] show ?thesis
        by (auto simp: libssh2_error_def)
    next
      case 3
      with o(3) w n show ?thesis by auto
    qed
  qed
  then show "\<exists>s2. data_view s2 = data_view s1 \<and> (\<forall>r s3. libssh2_transport_send s2 (addr_write cid)
      (write_header c sid n) (Some (take n bufp)) = Some (r, s3) \<longrightarrow>
    (\<exists>s4 c4. libssh2_channel_write kx s cid sid bufp = Some (if r = 0 then int n else r, s4) \<and>
       data_view s4 = data_view s3 \<and> libssh2_channel_locate s4 cid = Some c4 \<and>
       unat (window_size (ch_local c4)) = unat (window_size (ch_local c)) - (if r = 0 then n else 0) \<and>
       (write_state c4 = NB_idle \<longleftrightarrow> r \<noteq> LIBSSH2_ERROR_EAGAIN)))"
    using update_channel_data_view [OF s2(1)] by blast
qed (use c0 in \<open>auto simp: libssh2_channel_write_def write_prepare_def Let_def\<close>)

section \<open>From one end to the other\<close>

text \<open>Calling again while the write would block.\<close>

inductive channel_writes :: "kex_exchange_fn \<Rightarrow> u32 \<Rightarrow> int \<Rightarrow> byte list \<Rightarrow> session \<Rightarrow> int \<Rightarrow> session \<Rightarrow> bool"
  for kx cid sid bufp where
  writes_done: "libssh2_channel_write kx s cid sid bufp = Some (n, s') \<Longrightarrow> n \<noteq> LIBSSH2_ERROR_EAGAIN \<Longrightarrow>
    channel_writes kx cid sid bufp s n s'"
| writes_again: "libssh2_channel_write kx s cid sid bufp = Some (LIBSSH2_ERROR_EAGAIN, s1) \<Longrightarrow>
    channel_writes kx cid sid bufp s1 n s' \<Longrightarrow> channel_writes kx cid sid bufp s n s'"

lemma data_view_fields:
  assumes "data_view s' = data_view s"
  shows "local_ep s' = local_ep s" "sstate s' = sstate s" "packet s' = packet s" "env s' = env s"
    "remote_ep s' = remote_ep s" "socket_state s' = socket_state s" "readPack_state s' = readPack_state s"
    "fullpacket_state s' = fullpacket_state s" "fullpacket_packet_type s' = fullpacket_packet_type s"
  using arg_cong [OF assms, of local_ep] arg_cong [OF assms, of sstate] arg_cong [OF assms, of packet]
    arg_cong [OF assms, of env] arg_cong [OF assms, of remote_ep] arg_cong [OF assms, of socket_state]
    arg_cong [OF assms, of readPack_state] arg_cong [OF assms, of fullpacket_state]
    arg_cong [OF assms, of fullpacket_packet_type]
  by (simp_all add: data_view_def)

lemma all_sent_data_view: "data_view t2 = data_view t1 \<Longrightarrow> all_sent ep st w0 wire t1 \<Longrightarrow> all_sent ep st w0 wire t2"
  using data_view_fields [of t2 t1] by (simp add: all_sent_def sends_alive_def)

lemma pending_send_err: "pending_send ep st a n w0 wire s \<Longrightarrow>
    pending_send ep st a n w0 wire (snd (libssh2_error s c m))"
  by (simp add: pending_send_def libssh2_error_def sends_alive_def)

lemma write_sends_pending:
  assumes "pending_send ep st (addr_write cid) (length (write_packet c)) w0 wire s" "write_packet c \<noteq> []"
    "st AND LIBSSH2_STATE_NEWKEYS \<noteq> 0 \<longrightarrow> crypt ep \<noteq> None"
    "libssh2_channel_locate s cid = Some c" "write_state c = NB_created"
    "write_bufwrite c = length d" "d = take (length d) bufp"
  shows "\<exists>s'. channel_writes kx cid sid bufp s (int (length d)) s' \<and> all_sent ep st w0 wire s' \<and>
     libssh2_channel_locate s' cid = Some (after_write (length d) c)"
  using assms
proof (induction "length (sends (env s))" arbitrary: s rule: less_induct)
  case less
  note w = channel_write_resumed [OF less.prems(4,5), of kx sid bufp]
  from pending_step [OF less.prems(1-3), of "Some d"] show ?case
  proof (elim disjE exE conjE)
    fix s' assume s': "libssh2_transport_send s (addr_write cid) (write_packet c) (Some d) = Some (LIBSSH2_ERROR_NONE, s')"
      "all_sent ep st w0 wire s'"
    then obtain t where t: "write_send s cid bufp = Some (int (length d), t)"
      "libssh2_channel_locate t cid = Some (after_write (length d) c)" "data_view t = data_view s'"
      using write_send_outcome(2) [OF less.prems(4,6,7)] by force
    then have "channel_writes kx cid sid bufp s (int (length d)) t"
      using w by (intro writes_done) auto
    then show ?thesis using t all_sent_data_view [OF t(3) s'(2)] by blast
  next
    fix s' assume s': "libssh2_transport_send s (addr_write cid) (write_packet c) (Some d) = Some (LIBSSH2_ERROR_EAGAIN, s')"
      "pending_send ep st (addr_write cid) (length (write_packet c)) w0 wire s'"
      "length (sends (env s')) < length (sends (env s))"
    let ?t = "snd (libssh2_error s' LIBSSH2_ERROR_EAGAIN ''Unable to send channel data'')"
    have t: "libssh2_channel_write kx s cid sid bufp = Some (LIBSSH2_ERROR_EAGAIN, ?t)"
      using write_send_outcome(1) [OF less.prems(4,6,7) s'(1)] w by simp
    have l: "libssh2_channel_locate ?t cid = Some c"
      using transport_send_frame(7) [OF s'(1)] less.prems(4) by simp
    have "length (sends (env ?t)) < length (sends (env s))" using s'(3) by (simp add: libssh2_error_def)
    from less.hyps [OF this pending_send_err [OF s'(2)] less.prems(2,3) l less.prems(5-7)]
    show ?thesis using writes_again [OF t] by blast
  qed
qed

text \<open>The reader offers at least the window and packet size the writer believes in.\<close>

definition credit :: "channel \<Rightarrow> channel \<Rightarrow> bool" where
  "credit ca cb \<longleftrightarrow> window_size (ch_local ca) \<le> window_size (ch_remote cb) \<and>
     packet_size (ch_local ca) \<le> packet_size (ch_remote cb)"

lemma write_sends_first:
  assumes snd: "sender_ok s" "olen (packet s) = 0" "length (write_packet c @ d) < MAX_SSH_PACKET_LEN - 0x100"
      "fst (snd_cipher s (write_packet c @ d))" "write_packet c \<noteq> []"
    and c: "libssh2_channel_locate s cid = Some c" "write_state c = NB_created"
      "write_bufwrite c = length d" "d = take (length d) bufp"
    and call: "libssh2_channel_write kx s0 cid sid bufp = write_send s cid bufp"
  shows "\<exists>s'. channel_writes kx cid sid bufp s0 (int (length d)) s' \<and>
     all_sent (snd_endpoint s (write_packet c @ d)) (sstate s) (wire_out (env s)) (snd_wire s (write_packet c @ d)) s' \<and>
     libssh2_channel_locate s' cid = Some (after_write (length d) c)"
proof -
  let ?d = "write_packet c @ d"
  have dd: "?d = write_packet c @ (case Some d of None \<Rightarrow> [] | Some d2 \<Rightarrow> d2)" by simp
  from transport_send_outcome [OF snd(1,2) dd snd(3,4), of "addr_write cid"] show ?thesis
  proof (elim disjE exE conjE)
    fix s' assume s': "libssh2_transport_send s (addr_write cid) (write_packet c) (Some d) = Some (LIBSSH2_ERROR_NONE, s')"
      "all_sent (snd_endpoint s ?d) (sstate s) (wire_out (env s)) (snd_wire s ?d) s'"
    then obtain t where t: "write_send s cid bufp = Some (int (length d), t)"
      "libssh2_channel_locate t cid = Some (after_write (length d) c)" "data_view t = data_view s'"
      using write_send_outcome(2) [OF c(1,3,4)] by force
    then have "channel_writes kx cid sid bufp s0 (int (length d)) t"
      using call by (intro writes_done) auto
    then show ?thesis using t all_sent_data_view [OF t(3) s'(2)] by blast
  next
    fix s' assume s': "libssh2_transport_send s (addr_write cid) (write_packet c) (Some d) = Some (LIBSSH2_ERROR_EAGAIN, s')"
      "pending_send (snd_endpoint s ?d) (sstate s) (addr_write cid) (length (write_packet c)) (wire_out (env s)) (snd_wire s ?d) s'"
    let ?t = "snd (libssh2_error s' LIBSSH2_ERROR_EAGAIN ''Unable to send channel data'')"
    have t: "libssh2_channel_write kx s0 cid sid bufp = Some (LIBSSH2_ERROR_EAGAIN, ?t)"
      using write_send_outcome(1) [OF c(1,3,4) s'(1)] call by simp
    have l: "libssh2_channel_locate ?t cid = Some c"
      using transport_send_frame(7) [OF s'(1)] c(1) by simp
    have cr: "sstate s AND LIBSSH2_STATE_NEWKEYS \<noteq> 0 \<longrightarrow> crypt (snd_endpoint s ?d) \<noteq> None"
      using snd(1) by (auto simp: sender_ok_def encrypted_def state_has_def snd_endpoint_def)
    from write_sends_pending [OF pending_send_err [OF s'(2)] snd(5) cr l c(2-4)]
    show ?thesis using writes_again [OF t] by blast
  qed
qed

lemma write_header_fields:
  "rd8 (write_header ch 0 n @ r) 0 = Some SSH_MSG_CHANNEL_DATA"
  "rd32 (write_header ch 0 n @ r) 1 = Some (cd_id (ch_remote ch))" "length (write_header ch 0 n) = 9"
proof -
  have l: "length (libssh2_store_u32 v) = 4" for v by (simp add: libssh2_store_u32_def libssh2_htonu32_def)
  show "rd8 (write_header ch 0 n @ r) 0 = Some SSH_MSG_CHANNEL_DATA" by (simp add: write_header_def rd8_def)
  show "length (write_header ch 0 n) = 9" by (simp add: write_header_def l)
  show "rd32 (write_header ch 0 n @ r) 1 = Some (cd_id (ch_remote ch))"
    using rd32_at [of "[SSH_MSG_CHANNEL_DATA]" 1 "cd_id (ch_remote ch)" "libssh2_store_u32 (word_of_nat n) @ r"]
    by (simp add: write_header_def libssh2_store_u32_def)
qed

lemma queue_ready_finish:
  assumes "data_view s' = data_view s" "packAdd_state s' = NB_idle" "reader_ok s" "quiet s" "allocs (env s) = []"
    "no_decompression (remote_ep s)"
  shows "queue_ready (snd (finish_read e (0, s')))"
  using assms data_view_fields [OF assms(1)]
  by (simp add: queue_ready_def receiver_ready_def finish_read_def reader_ok_def quiet_def state_has_def encrypted_def
      no_decompression_def)

lemma collected_locate:
  assumes "collected (opened b n pad) fin ab rest s"
  shows "libssh2_channel_locate s = libssh2_channel_locate b"
proof -
  have v: "reader_view s = reader_view (opened b n pad)" using assms by (simp add: collected_def)
  from arg_cong [OF v, of channels] arg_cong [OF v, of listeners] show ?thesis
    by (intro locate_cong) (simp_all add: reader_view_def opened_def)
qed

lemma data_queued:
  assumes sender: "sender_ok a" and m: "m = write_header ca 0 (length d) @ d" "length d \<le> 32700"
    and a': "all_sent (snd_endpoint a m) (sstate a) w0 w a'"
    and step: "in_step c R a b" and rdy: "queue_ready b" and inp: "input_stream b = snd_wire a m @ rest"
    and cb: "libssh2_channel_locate b (cd_id (ch_remote ca)) = Some cb" "window_size (ch_remote cb) \<noteq> 0"
      "length d \<le> unat (packet_size (ch_remote cb))" "length d \<le> unat (window_size (ch_remote cb))"
  shows "\<exists>b1 b2 q. polls kx (libssh2_packet_add kx) b b1 \<and>
    transport_read kx b1 = Some (int (unat SSH_MSG_CHANNEL_DATA), b2) \<and> packets b2 = packets b @ [q] \<and>
    readable q \<and> unread_data q = d \<and>
    libssh2_channel_locate b2 (cd_id (ch_remote ca)) = Some (after_data cb (length d)) \<and> wants cb 0 q \<and>
    (\<forall>j. j \<noteq> cd_id (ch_remote ca) \<longrightarrow> libssh2_channel_locate b2 j = libssh2_channel_locate b j) \<and>
    in_step c R a' b2 \<and> queue_ready b2 \<and> input_stream b2 = rest"
proof -
  let ?i = "cd_id (ch_remote ca)"
  have lm: "length m = length d + 9" "m \<noteq> []" "hd m = SSH_MSG_CHANNEL_DATA"
    using write_header_fields(3) [of ca "length d"] by (auto simp: m(1) write_header_def)
  have fit: "length m < MAX_SSH_PACKET_LEN - 0x100" using lm m(2) by simp
  have r: "receiver_ready b" "packAdd_state b = NB_idle" using rdy by (auto simp: queue_ready_def)
  obtain b1 s p k ab where w: "polls kx (libssh2_packet_add kx) b b1"
      "libssh2_transport_read kx (libssh2_packet_add kx) b1 = map_option (finish_read (encrypted b))
         (libssh2_packet_add kx (decoded s m p k) (m @ p @ k) (length m) True)"
      "collected (opened b (length (m @ p)) (word_of_nat (length p))) (m @ p @ k) ab rest s"
      "in_step c R a' (decoded s m p k)"
    by (rule wire_delivered [OF sender lm(2) fit a' step r(1) inp])
  note f = collected_fields [OF w(3)]
  let ?s = "decoded s m p k"
  have al: "allocs (env b) = []" "quiet b" "no_decompression (remote_ep b)" "fullpacket_state b = NB_idle"
    using r by (simp_all add: receiver_ready_def)
  have lo: "libssh2_channel_locate ?s = libssh2_channel_locate b"
    using collected_locate [OF w(3)] locate_cong [of ?s s] by (simp add: decoded_def)
  have rd: "rd8 (m @ p @ k) 0 = Some SSH_MSG_CHANNEL_DATA" "rd32 (m @ p @ k) 1 = Some ?i"
    using write_header_fields(1,2) [of ca "length d" "d @ p @ k"] by (simp_all add: m(1))
  have n: "length d = min (min (length m - 9) (unat (packet_size (ch_remote cb)))) (unat (window_size (ch_remote cb)))"
    using cb(3,4) lm by simp
  let ?q = "\<lparr>pk_data = m @ p @ k, pk_data_len = length d + 9, pk_data_head = 9\<rparr>"
  obtain s' where s': "libssh2_packet_add kx ?s (m @ p @ k) (length m) True = Some (0, s')"
    "packets s' = packets ?s @ [?q]" "libssh2_channel_locate s' ?i = Some (after_data cb (length d))"
    "\<forall>j. j \<noteq> ?i \<longrightarrow> libssh2_channel_locate s' j = libssh2_channel_locate ?s j"
    "data_view s' = data_view ?s" "packAdd_state s' = NB_idle"
    using channel_data_added [OF _ _ rd _ _ cb(2) n, of ?s kx] f r al lo cb(1) lm(1) by (auto simp: decoded_def)
  note v = data_view_fields [OF s'(5)]
  let ?b2 = "snd (finish_read (encrypted b) (0, s'))"
  have ty: "fullpacket_packet_type ?s = SSH_MSG_CHANNEL_DATA" using lm(3) by (simp add: decoded_def)
  have rd2: "transport_read kx b1 = Some (int (unat SSH_MSG_CHANNEL_DATA), ?b2)"
    using w(2) s'(1) v ty by (simp add: transport_read_def finish_read_def)
  have l2: "libssh2_channel_locate ?b2 = libssh2_channel_locate s'"
    by (rule locate_cong) (simp_all add: finish_read_def)
  have q: "readable ?q" "unread_data ?q = d" "wants cb 0 ?q"
    using lm m rd chans.find_ident [OF cb(1)] write_header_fields(3) [of ca "length d"]
    by (simp_all add: readable_def unread_data_def wants_def read_wanted_def)
  have st: "in_step c R a' ?b2" "input_stream ?b2 = rest"
    using w(3,4) v by (simp_all add: finish_read_def decoded_def in_step_def encrypted_def state_has_def
        collected_def input_stream_def unread_def)
  have "reader_ok ?s" "quiet ?s" "allocs (env ?s) = []" "no_decompression (remote_ep ?s)"
    using f al w(3) by (simp_all add: decoded_def reader_ok_def collected_def quiet_def state_has_def encrypted_def
        no_decompression_def)
  from queue_ready_finish [OF s'(5,6) this]
  show ?thesis using w(1) rd2 l2 lo q st s'(2-4) f
    by (intro exI [of _ b1] exI [of _ ?b2] exI [of _ ?q]) (auto simp: finish_read_def decoded_def)
qed

lemma byte_stream_snoc: "wants ch sid q \<Longrightarrow> byte_stream ch sid (ps @ [q]) = byte_stream ch sid ps @ unread_data q"
  by (simp add: byte_stream_def)

lemma in_step_sender: "local_ep a2 = local_ep a1 \<Longrightarrow> sstate a2 = sstate a1 \<Longrightarrow> in_step c R a2 b = in_step c R a1 b"
  by (simp add: in_step_def encrypted_def state_has_def)

lemma sender_ok_view: "data_view a2 = data_view a1 \<Longrightarrow> sender_ok a1 \<Longrightarrow> sender_ok a2"
  using data_view_fields [of a2 a1] by (simp add: sender_ok_def encrypted_def state_has_def sends_alive_def)

lemma credit_kept:
  assumes "credit ca cb" "n \<le> unat (window_size (ch_local ca))"
  shows "credit (after_write n ca) (after_data cb n)"
proof -
  have "unat (window_size (ch_local ca)) \<le> unat (window_size (ch_remote cb))"
    using assms(1) by (simp add: credit_def word_le_nat_alt)
  moreover have "unat (word_of_nat n :: u32) = n"
    by (rule unat_u32_of_nat, rule le_less_trans [OF assms(2)]) simp
  ultimately show ?thesis using assms
    by (simp add: credit_def after_write_def after_data_def word_le_nat_alt unat_sub)
qed

text \<open>C2. Channel data reaches the other end. A write on a channel with an open window, repeated while the
  socket would block, completes; for every session in step with the writer, whose corresponding channel
  offers at least the window and packet size the writer believes in, and whose input starts with the
  bytes that were put on the wire, cut into any pieces, repeated reads append exactly the bytes that were
  written to the stream of that channel. Afterwards the reader again offers at least what the writer
  believes in, and the sessions are in step.\<close>

theorem channel_data_delivered:
  assumes c0: "libssh2_channel_locate a cid = Some c0" "write_state c0 = NB_idle"
      "\<not> cd_close (ch_local c0)" "\<not> cd_eof (ch_local c0)"
    and drained: "drain kx a = Some (rc, a1)" "libssh2_channel_locate a1 cid = Some ca" "window_size (ch_local ca) \<noteq> 0"
    and sender: "sender_ok a1" "olen (packet a1) = 0" "in_step c R a1 b0"
    and n: "n = min (min (min (length bufp) 32700) (unat (window_size (ch_local ca)))) (unat (packet_size (ch_local ca)))"
  shows "\<exists>a' ca' wire. channel_writes kx cid 0 bufp a (int n) a' \<and> wire_out (env a') = wire_out (env a1) @ wire \<and>
     libssh2_channel_locate a' cid = Some ca' \<and>
     (\<forall>b cb rest. in_step c R a1 b \<and> queue_ready b \<and> input_stream b = wire @ rest \<and>
        libssh2_channel_locate b (cd_id (ch_remote ca)) = Some cb \<and> credit ca cb \<longrightarrow>
       (\<exists>b1 b2 cb'. polls ky (libssh2_packet_add ky) b b1 \<and>
          transport_read ky b1 = Some (int (unat SSH_MSG_CHANNEL_DATA), b2) \<and>
          byte_stream cb 0 (packets b2) = byte_stream cb 0 (packets b) @ take n bufp \<and>
          libssh2_channel_locate b2 (cd_id (ch_remote ca)) = Some cb' \<and> credit ca' cb' \<and>
          in_step c R a' b2 \<and> queue_ready b2 \<and> input_stream b2 = rest))"
proof -
  let ?d = "sendable ca bufp"
  have ln: "length ?d = n" using n by (simp add: length_sendable write_amount_min)
  have d: "?d = take n bufp" using sendable_prefix [of ca bufp] ln by simp
  have id: "local_id ca = cid" by (rule chans.find_ident [OF drained(2)])
  obtain a2 where a2: "update_channel a1 cid (prepared ca 0 bufp) = Some a2"
    "libssh2_channel_locate a2 cid = Some (prepared ca 0 bufp ca)"
    by (rule chans.upd_obtains [of a1 cid ca "prepared ca 0 bufp"]) (use drained id in auto)
  note call = channel_write_begins [OF c0 drained a2]
  note v2 = update_channel_data_view [OF a2(1)]
  note f2 = data_view_fields [OF v2]
  let ?m = "write_header ca 0 (length ?d) @ ?d"
  have step: "in_step c R a2 b = in_step c R a1 b" for b by (rule in_step_sender) (use f2 in auto)
  have n32: "n \<le> 32700" unfolding n by (simp add: min.coboundedI1)
  then have m: "length ?m < MAX_SSH_PACKET_LEN - 0x100" "n \<le> 32700"
    using write_header_fields(3) [of ca "length ?d"] ln by simp_all
  have cip: "fst (snd_cipher a2 ?m)" by (rule snd_cipher_in_step [of c R a2 b0]) (use sender(3) step in auto)
  obtain a' where a': "channel_writes kx cid 0 bufp a (int (length ?d)) a'"
    "all_sent (snd_endpoint a2 ?m) (sstate a2) (wire_out (env a2)) (snd_wire a2 ?m) a'"
    "libssh2_channel_locate a' cid = Some (after_write (length ?d) (prepared ca 0 bufp ca))"
    using write_sends_first [OF sender_ok_view [OF v2 sender(1)] _ _ _ _ a2(2) prepared_fields(3) prepared_fields(1)
        sendable_prefix call] m(1) cip sender(2) f2 by (auto simp: write_header_def)
  have "\<exists>b1 b2 cb'. polls ky (libssh2_packet_add ky) b b1 \<and>
          transport_read ky b1 = Some (int (unat SSH_MSG_CHANNEL_DATA), b2) \<and>
          byte_stream cb 0 (packets b2) = byte_stream cb 0 (packets b) @ take n bufp \<and>
          libssh2_channel_locate b2 (cd_id (ch_remote ca)) = Some cb' \<and>
          credit (after_write (length ?d) (prepared ca 0 bufp ca)) cb' \<and>
          in_step c R a' b2 \<and> queue_ready b2 \<and> input_stream b2 = rest"
    if h: "in_step c R a1 b" "queue_ready b" "input_stream b = snd_wire a2 ?m @ rest"
      "libssh2_channel_locate b (cd_id (ch_remote ca)) = Some cb" "credit ca cb" for b cb rest
  proof -
    have w: "window_size (ch_remote cb) \<noteq> 0" "length ?d \<le> unat (packet_size (ch_remote cb))"
      "length ?d \<le> unat (window_size (ch_remote cb))"
      using h(5) drained(3) n ln by (auto simp: credit_def word_le_nat_alt unat_eq_zero [symmetric] simp del: unat_eq_zero)
    have le: "length ?d \<le> 32700" using m(2) ln by simp
    obtain b1 b2 q where q: "polls ky (libssh2_packet_add ky) b b1"
      "transport_read ky b1 = Some (int (unat SSH_MSG_CHANNEL_DATA), b2)" "packets b2 = packets b @ [q]"
      "unread_data q = ?d" "wants cb 0 q"
      "libssh2_channel_locate b2 (cd_id (ch_remote ca)) = Some (after_data cb (length ?d))"
      "in_step c R a' b2" "queue_ready b2" "input_stream b2 = rest"
      using data_queued [OF sender_ok_view [OF v2 sender(1)] refl le a'(2) _ h(2,3,4) w, where c = c and R = R and kx = ky]
        h(1) step by blast
    have "credit (after_write (length ?d) (prepared ca 0 bufp ca)) (after_data cb (length ?d))"
      using credit_kept [of "prepared ca 0 bufp ca" cb "length ?d"] h(5) n ln by (simp add: credit_def)
    with q d show ?thesis by (intro exI [of _ b1] exI [of _ b2] exI) (auto simp: byte_stream_snoc)
  qed
  with a' f2 ln show ?thesis
    by (intro exI [of _ a'] exI [of _ "after_write (length ?d) (prepared ca 0 bufp ca)"] exI [of _ "snd_wire a2 ?m"])
      (simp add: all_sent_def)
qed

section \<open>Concrete runs\<close>

definition out_channel :: channel where
  "out_channel = channel0\<lparr>ch_local := (ch_local channel0)\<lparr>cd_id := 3, window_size := 5, packet_size := 32768\<rparr>,
     ch_remote := (ch_remote channel0)\<lparr>cd_id := 8\<rparr>\<rparr>"

definition out_session :: session where
  "out_session = (session1 (env0\<lparr>sends := [3, - 11, 0, 7]\<rparr>))\<lparr>channels := [out_channel]\<rparr>"

lemma drain_idle:
  assumes "recvs e = []"
  shows "drain kx ((session1 e)\<lparr>channels := chs, packets := ps\<rparr>) =
     Some (LIBSSH2_ERROR_EAGAIN, block_direction LIBSSH2_SESSION_BLOCK_INBOUND ((session1 e)\<lparr>channels := chs, packets := ps\<rparr>))"
  using assms by (subst drain.simps) (simp add: session1_def block_direction_def cipher1 reader_eval)

definition in_channel :: channel where
  "in_channel = channel0\<lparr>ch_local := (ch_local channel0)\<lparr>cd_id := 8\<rparr>,
     ch_remote := (ch_remote channel0)\<lparr>cd_id := 3, window_size := 5, packet_size := 32768\<rparr>\<rparr>"

definition in_session :: "byte list \<Rightarrow> session" where
  "in_session wire = (session1 (env0\<lparr>recvs := map (\<lambda>x. Received [x]) wire\<rparr>))\<lparr>channels := [in_channel]\<rparr>"

lemma session1_channels:
  "sender_ok ((session1 e)\<lparr>channels := chs\<rparr>) = sender_ok (session1 e)"
  "receiver_ready ((session1 e)\<lparr>channels := chs\<rparr>) = receiver_ready (session1 e)"
  "in_step c R ((session1 e)\<lparr>channels := chs\<rparr>) b = in_step c R (session1 e) b"
  "in_step c R a ((session1 e)\<lparr>channels := chs\<rparr>) = in_step c R a (session1 e)"
  by (simp_all add: sender_ok_def sends_alive_def encrypted_def state_has_def receiver_ready_def reader_ok_def
      quiet_def in_step_def)

lemma in_session_ready:
  "queue_ready (in_session wire)" "input_stream (in_session wire) = wire @ []" "packets (in_session wire) = []"
  "libssh2_channel_locate (in_session wire) 8 = Some in_channel"
proof -
  have "receiver_ready (session1 (env0\<lparr>recvs := map (\<lambda>x. Received [x]) wire\<rparr>))"
    by (rule receiver_ready1) (auto simp: env0_def)
  then show "queue_ready (in_session wire)"
    by (simp add: in_session_def queue_ready_def session1_channels) (simp add: session1_def session_cleared_def)
  have "concat (map (recv_bytes \<circ> (\<lambda>x. Received [x])) wire) = wire" by (induction wire) auto
  then show "input_stream (in_session wire) = wire @ []"
    by (simp add: in_session_def input_stream_def unread_def transportpacket0_def)
  show "packets (in_session wire) = []" by (simp add: in_session_def session1_def session_cleared_def)
  show "libssh2_channel_locate (in_session wire) 8 = Some in_channel"
    by (simp add: libssh2_channel_locate_def in_session_def in_channel_def)
qed

lemma drain_out_session:
  "drain kx out_session = Some (LIBSSH2_ERROR_EAGAIN, block_direction LIBSSH2_SESSION_BLOCK_INBOUND out_session)"
  using drain_idle [of "env0\<lparr>sends := [3, - 11, 0, 7]\<rparr>" kx "[]" "[out_channel]"]
  by (simp add: out_session_def env0_def session1_def session_cleared_def)

theorem channel_data_delivered_witness:
  "\<exists>a' wire b1 b2. channel_writes (\<lambda>s. None) 3 0 (cstr ''hello world'') out_session 5 a' \<and>
     wire_out (env a') = wire \<and> polls (\<lambda>s. None) (libssh2_packet_add (\<lambda>s. None)) (in_session wire) b1 \<and>
     transport_read (\<lambda>s. None) b1 = Some (94, b2) \<and> byte_stream in_channel 0 (packets b2) = cstr ''hello'' \<and>
     input_stream b2 = []"
proof -
  let ?a = "block_direction LIBSSH2_SESSION_BLOCK_INBOUND out_session" and ?k = "\<lambda>s. None :: (int \<times> session) ub"
  have l: "libssh2_channel_locate out_session 3 = Some out_channel" "libssh2_channel_locate ?a 3 = Some out_channel"
    by (simp_all add: libssh2_channel_locate_def out_session_def out_channel_def block_direction_def)
  have o: "write_state out_channel = NB_idle" "\<not> cd_close (ch_local out_channel)" "\<not> cd_eof (ch_local out_channel)"
    "window_size (ch_local out_channel) \<noteq> 0" by (simp_all add: out_channel_def channel0_def)
  have "sender_ok out_session" unfolding out_session_def session1_channels by (rule sender_ok1) auto
  then have s: "sender_ok ?a" "olen (packet ?a) = 0" "in_step crypto1 (=) ?a b = in_step crypto1 (=) (session1 env0) b"
    "wire_out (env ?a) = []" for b
    by (auto simp: sender_ok_def block_direction_def encrypted_def state_has_def sends_alive_def in_step_def
        out_session_def transportpacket0_def env0_def)
  have st: "in_step crypto1 (=) ?a (session1 env0)" using s(3) in_step1 by blast
  have n: "5 = min (min (min (length (cstr ''hello world'')) 32700) (unat (window_size (ch_local out_channel))))
      (unat (packet_size (ch_local out_channel)))" by (simp add: out_channel_def)
  obtain a' ca' wire where w: "channel_writes ?k 3 0 (cstr ''hello world'') out_session (int 5) a'"
    "wire_out (env a') = wire_out (env ?a) @ wire" and
    b: "\<forall>b cb rest. in_step crypto1 (=) ?a b \<and> queue_ready b \<and> input_stream b = wire @ rest \<and>
        libssh2_channel_locate b (cd_id (ch_remote out_channel)) = Some cb \<and> credit out_channel cb \<longrightarrow>
       (\<exists>b1 b2 cb'. polls ?k (libssh2_packet_add ?k) b b1 \<and>
          transport_read ?k b1 = Some (int (unat SSH_MSG_CHANNEL_DATA), b2) \<and>
          byte_stream cb 0 (packets b2) = byte_stream cb 0 (packets b) @ take 5 (cstr ''hello world'') \<and>
          libssh2_channel_locate b2 (cd_id (ch_remote out_channel)) = Some cb' \<and> credit ca' cb' \<and>
          in_step crypto1 (=) a' b2 \<and> queue_ready b2 \<and> input_stream b2 = rest)"
    using channel_data_delivered [where kx = ?k and ky = ?k, OF l(1) o(1-3) drain_out_session l(2) o(4) s(1,2) st n]
    by (elim exE conjE) (rule that)
  have "in_step crypto1 (=) ?a (in_session wire)" "credit out_channel in_channel" "cd_id (ch_remote out_channel) = 8"
    unfolding s(3) by (simp_all add: in_session_def session1_channels in_step1 credit_def out_channel_def in_channel_def)
  then have h: "in_step crypto1 (=) ?a (in_session wire) \<and> queue_ready (in_session wire) \<and>
      input_stream (in_session wire) = wire @ [] \<and>
      libssh2_channel_locate (in_session wire) (cd_id (ch_remote out_channel)) = Some in_channel \<and> credit out_channel in_channel"
    using in_session_ready [of wire] by simp
  have t: "take 5 (cstr ''hello world'') = cstr ''hello''" "int (unat SSH_MSG_CHANNEL_DATA) = 94"
    "byte_stream in_channel 0 (packets (in_session wire)) = []" using in_session_ready(3) by simp_all
  from b [THEN spec, THEN spec, THEN spec, THEN mp, OF h] obtain b1 b2 where "polls ?k (libssh2_packet_add ?k) (in_session wire) b1" "transport_read ?k b1 = Some (94, b2)"
    "byte_stream in_channel 0 (packets b2) = cstr ''hello''" "input_stream b2 = []" unfolding t by auto
  with w s(4) show ?thesis by (intro exI conjI) auto
qed

definition stream_packets :: "ssh_packet list" where
  "stream_packets = map (\<lambda>d. \<lparr>pk_data = d, pk_data_len = length d, pk_data_head = 9\<rparr>)
     [[94, 0, 0, 0, 8, 0, 0, 0, 3, 97, 98, 99], [94, 0, 0, 0, 9, 0, 0, 0, 1, 120], [94, 0, 0, 0, 8, 0, 0, 0, 2, 100, 101]]"

lemma stream_eval:
  "byte_stream ch 0 stream_packets = (if local_id ch = 8 then cstr ''abcde'' else if local_id ch = 9 then cstr ''x'' else [])"
  by (simp add: byte_stream_def stream_packets_def wants_def read_wanted_def rd32_def rd8_def libssh2_ntohu32_def unread_data_def)

lemma wants_start_reading: "wants (start_reading c) = wants c"
  by (intro ext) (simp add: wants_def read_wanted_def start_reading_def cong: if_cong)

theorem channel_read_refines_stream_witness:
  "\<exists>s'. libssh2_channel_read (\<lambda>s. None) ((session1 env0)\<lparr>channels := [in_channel], packets := stream_packets\<rparr>) 8 0 4 =
      Some (4, cstr ''abcd'', s') \<and> byte_stream in_channel 0 (packets s') = cstr ''e'' \<and>
     byte_stream (in_channel\<lparr>ch_local := (ch_local in_channel)\<lparr>cd_id := 9\<rparr>\<rparr>) 0 (packets s') = cstr ''x''"
proof -
  let ?s = "(session1 env0)\<lparr>channels := [in_channel], packets := stream_packets\<rparr>" and ?c = "start_reading in_channel"
  let ?s1 = "(session1 env0)\<lparr>channels := [?c], packets := stream_packets\<rparr>"
  have c: "local_id ?c = 8" by (simp add: start_reading_def in_channel_def)
  have u: "update_channel ?s 8 start_reading = Some ?s1" by (simp add: update_channel_def in_channel_def)
  have l: "libssh2_channel_locate (block_direction LIBSSH2_SESSION_BLOCK_INBOUND ?s1) 8 = Some ?c"
    using c by (simp add: libssh2_channel_locate_def block_direction_def)
  have p: "packets (block_direction LIBSSH2_SESSION_BLOCK_INBOUND ?s1) = stream_packets"
    by (simp add: block_direction_def)
  have wf: "list_all readable (packets (block_direction LIBSSH2_SESSION_BLOCK_INBOUND ?s1))"
    unfolding p by (simp add: stream_packets_def readable_def)
  have b: "cstr ''abcd'' = take 4 (byte_stream ?c 0 (packets (block_direction LIBSSH2_SESSION_BLOCK_INBOUND ?s1)))"
    unfolding p stream_eval c by simp
  have same: "byte_stream in_channel 0 ps = byte_stream ?c 0 ps" for ps
    by (simp add: byte_stream_def wants_start_reading)
  show ?thesis
    using channel_read_refines_stream [where kx = "\<lambda>s. None" and sid = 0, OF u drain_idle _ l wf _ b]
    unfolding p stream_eval c same by (simp add: env0_def) (elim exE conjE, intro exI conjI, assumption+, simp add: stream_eval)
qed

theorem channel_write_bounded_witness:
  "\<exists>r s'. libssh2_channel_write (\<lambda>s. None) out_session 3 0 (cstr ''hello world'') = Some (r, s') \<and>
     r \<in> {5, LIBSSH2_ERROR_EAGAIN} \<and>
     fst (the (libssh2_channel_write (\<lambda>s. None) (out_session\<lparr>channels := [out_channel\<lparr>ch_local := (ch_local out_channel)\<lparr>cd_close := True\<rparr>\<rparr>]\<rparr>)
       3 0 (cstr ''hello world''))) = LIBSSH2_ERROR_CHANNEL_CLOSED"
proof -
  let ?a = "block_direction LIBSSH2_SESSION_BLOCK_INBOUND out_session" and ?k = "\<lambda>s. None :: (int \<times> session) ub"
  let ?h = "cstr ''hello world''"
  let ?c = "out_channel\<lparr>ch_local := (ch_local out_channel)\<lparr>cd_close := True\<rparr>\<rparr>"
  have l: "libssh2_channel_locate out_session 3 = Some out_channel" "libssh2_channel_locate ?a 3 = Some out_channel"
    "libssh2_channel_locate (out_session\<lparr>channels := [?c]\<rparr>) 3 = Some ?c"
    by (simp_all add: libssh2_channel_locate_def out_session_def out_channel_def block_direction_def)
  have o: "write_state out_channel = NB_idle" "\<not> cd_close (ch_local out_channel)" "\<not> cd_eof (ch_local out_channel)"
    "window_size (ch_local out_channel) \<noteq> 0" "write_state ?c = NB_idle" "cd_close (ch_local ?c)"
    by (simp_all add: out_channel_def channel0_def)
  have n: "5 = min (min (min (length ?h) 32700) (unat (window_size (ch_local out_channel))))
      (unat (packet_size (ch_local out_channel)))" by (simp add: out_channel_def)
  obtain s2 where s2: "data_view s2 = data_view ?a" "\<forall>r s3. libssh2_transport_send s2 (addr_write 3)
        (write_header out_channel 0 5) (Some (take 5 ?h)) = Some (r, s3) \<longrightarrow>
      (\<exists>s4 c4. libssh2_channel_write ?k out_session 3 0 ?h = Some (if r = 0 then int 5 else r, s4) \<and>
         data_view s4 = data_view s3 \<and> libssh2_channel_locate s4 3 = Some c4 \<and>
         unat (window_size (ch_local c4)) = unat (window_size (ch_local out_channel)) - (if r = 0 then 5 else 0) \<and>
         (write_state c4 = NB_idle \<longleftrightarrow> r \<noteq> LIBSSH2_ERROR_EAGAIN))"
    using channel_write_bounded [OF l(1) o(1), of ?k 0 ?h LIBSSH2_ERROR_EAGAIN ?a out_channel 5]
      o(2-4) l(2) n drain_out_session [of ?k] by blast
  note f = data_view_fields [OF s2(1)]
  have ok: "sender_ok out_session" unfolding out_session_def session1_channels by (rule sender_ok1) auto
  have "sender_ok s2" "olen (packet s2) = 0" "in_step crypto1 (=) s2 (session1 env0)"
    using ok f in_step1 [of env0 env0]
    by (auto simp: sender_ok_def block_direction_def encrypted_def state_has_def sends_alive_def in_step_def
        out_session_def transportpacket0_def)
  moreover have d: "write_header out_channel 0 5 @ take 5 ?h =
      write_header out_channel 0 5 @ (case Some (take 5 ?h) of None \<Rightarrow> [] | Some d2 \<Rightarrow> d2)" by simp
  moreover have "length (write_header out_channel 0 5 @ take 5 ?h) < MAX_SSH_PACKET_LEN - 0x100"
    using write_header_fields(3) [of out_channel 5] by simp
  ultimately obtain r s3 where "libssh2_transport_send s2 (addr_write 3) (write_header out_channel 0 5)
      (Some (take 5 ?h)) = Some (r, s3)" "r = 0 \<or> r = LIBSSH2_ERROR_EAGAIN"
    using transport_send_outcome [of s2 _ "write_header out_channel 0 5" "Some (take 5 ?h)" "addr_write 3", OF _ _ d]
      snd_cipher_in_step [of crypto1 "(=)" s2 "session1 env0" "write_header out_channel 0 5 @ take 5 ?h"] by blast
  with s2(2) channel_write_bounded [OF l(3) o(5), of ?k 0 ?h] o(6) show ?thesis
    by (force simp: libssh2_error_def)
qed

end
