(* ===== verification/Channel_Life.thy ===== *)
theory Channel_Life
  imports Channel Packet_Queue Kex_Driver
begin

text \<open>
  The life of a channel: opening it, closing it and giving it back.

  \<^item> \<open>for_channel\<close> are the packets in the queue that carry data of a channel; \<open>purge_loop\<close> throws away
    exactly those and ends.
  \<^item> \<open>remove_channel\<close> takes one channel out of the session and leaves the others.
  \<^item> \<open>open_created\<close> is the session right before the request to open a channel is sent.
\<close>

section \<open>Throwing away the packets of a channel\<close>

definition for_channel :: "u32 \<Rightarrow> ssh_packet \<Rightarrow> bool" where
  "for_channel cid p \<longleftrightarrow> wanted SSH_MSG_CHANNEL_DATA 1 (Some (libssh2_htonu32 cid)) 4 p \<or>
     wanted SSH_MSG_CHANNEL_EXTENDED_DATA 1 (Some (libssh2_htonu32 cid)) 4 p"

lemma packet_ask_cases:
  assumes "list_all packet_wf (packets s)"
  obtains "libssh2_packet_ask s t ofs m n = Some (None, s)" "\<forall>p\<in>set (packets s). \<not> wanted t ofs m n p"
  | pre p post where "packets s = pre @ p # post" "wanted t ofs m n p"
      "libssh2_packet_ask s t ofs m n = Some (Some (pk_data p, pk_data_len p), s\<lparr>packets := pre @ post\<rparr>)"
proof (cases "find (wanted t ofs m n) (packets s)")
  case None
  then show ?thesis using ask_loop_none [OF assms] that(1) by (auto simp: libssh2_packet_ask_def find_None_iff)
next
  case (Some p)
  then obtain pre post where p: "packets s = pre @ p # post" "wanted t ofs m n p"
    "\<forall>y\<in>set pre. \<not> wanted t ofs m n y" by (rule find_split)
  then show ?thesis using ask_loop_first [of pre p post t ofs m n] assms that(2)
    by (simp add: libssh2_packet_ask_def)
qed

lemma purge_loop_filter:
  assumes "list_all packet_wf (packets s)"
  shows "purge_loop (libssh2_htonu32 cid) s = Some (s\<lparr>packets := filter (\<lambda>p. \<not> for_channel cid p) (packets s)\<rparr>)"
  using assms
proof (induction "length (packets s)" arbitrary: s rule: less_induct)
  case less
  have step: "purge_loop (libssh2_htonu32 cid) (s\<lparr>packets := pre @ post\<rparr>) =
      Some (s\<lparr>packets := filter (\<lambda>p. \<not> for_channel cid p) (packets s)\<rparr>)"
    if "packets s = pre @ p # post" "for_channel cid p" for pre p post
    using less.hyps [of "s\<lparr>packets := pre @ post\<rparr>"] less.prems that by simp
  show ?case
  proof (cases rule: packet_ask_cases [OF less.prems, of SSH_MSG_CHANNEL_DATA 1 "Some (libssh2_htonu32 cid)" 4])
    case d: 1
    show ?thesis
    proof (cases rule: packet_ask_cases [OF less.prems, of SSH_MSG_CHANNEL_EXTENDED_DATA 1 "Some (libssh2_htonu32 cid)" 4])
      case 1
      have "filter (\<lambda>p. \<not> for_channel cid p) (packets s) = packets s"
        using d(2) 1(2) by (auto simp: for_channel_def filter_id_conv)
      then show ?thesis using d(1) 1(1) by (subst purge_loop.simps) simp
    next
      case (2 pre p post)
      then show ?thesis using d(1) step [of pre p post] by (subst purge_loop.simps) (simp add: for_channel_def)
    qed
  next
    case (2 pre p post)
    then show ?thesis using step [of pre p post] by (subst purge_loop.simps) (simp add: for_channel_def)
  qed
qed

section \<open>Taking a channel out of the session\<close>

lemma remove_first_app:
  "P x \<Longrightarrow> \<forall>y\<in>set pre. \<not> P y \<Longrightarrow> remove_first P (pre @ x # post) = Some (pre @ post)"
  by (induction pre) auto

lemma remove_first_append:
  "remove_first P (q @ r) = (case remove_first P q of Some q' \<Rightarrow> Some (q' @ r)
     | None \<Rightarrow> map_option ((@) q) (remove_first P r))"
  by (induction q; cases "remove_first P r") (auto split: option.splits)

lemma remove_queued_concat: "map_option concat (remove_queued P qs) = remove_first P (concat qs)"
proof (induction qs)
  case (Cons q qs)
  then show ?case
    by (cases "remove_queued P qs"; cases "remove_first P (concat qs)")
      (auto simp: remove_first_append split: option.splits)
qed simp

lemma remove_queued_length: "remove_queued P qs = Some qs' \<Longrightarrow> length qs' = length qs"
  by (induction qs arbitrary: qs') (auto split: option.split_asm)

lemma remove_channel_all:
  "map_option all_channels (remove_channel s cid) = remove_first (\<lambda>ch. local_id ch = cid) (all_channels s)"
proof (cases "remove_first (\<lambda>ch. local_id ch = cid) (channels s)")
  case None
  have q: "map_option concat (remove_queued (\<lambda>ch. local_id ch = cid) (map ln_queue (listeners s)))
     = remove_first (\<lambda>ch. local_id ch = cid) (queued_channels s)"
    by (simp add: remove_queued_concat queued_channels_def)
  show ?thesis
    using None q [symmetric] remove_first_append [of "\<lambda>ch. local_id ch = cid" "channels s" "queued_channels s"]
    by (cases "remove_queued (\<lambda>ch. local_id ch = cid) (map ln_queue (listeners s))")
      (auto simp: remove_channel_def all_channels_def queued_channels_def map_ln_queue dest: remove_queued_length)
next
  case (Some chs)
  then show ?thesis using remove_first_append [of "\<lambda>ch. local_id ch = cid" "channels s" "queued_channels s"]
    by (simp add: remove_channel_def all_channels_def queued_channels_def)
qed

lemma locate_all: "libssh2_channel_locate s k = find (\<lambda>ch. local_id ch = k) (all_channels s)"
  by (simp add: libssh2_channel_locate_def all_channels_def)

lemma remove_channel_frame: "remove_channel s cid = Some s' \<Longrightarrow> packets s' = packets s"
  by (auto simp: remove_channel_def split: option.split_asm)

lemma find_map_distinct:
  assumes "distinct (map f (pre @ x # post))" "f x = k"
  shows "find (\<lambda>c. f c = k) (pre @ post) = None"
proof -
  have "f x \<notin> f ` set pre" "f x \<notin> f ` set post" using assms(1) by simp_all
  then show ?thesis using assms(2) unfolding find_None_iff by (metis Un_iff image_eqI set_append)
qed

text \<open>The channel goes, the others stay.\<close>

lemma remove_channel_removes:
  assumes "libssh2_channel_locate s cid = Some ch"
  obtains s' where "remove_channel s cid = Some s'" "packets s' = packets s"
    "\<forall>j. j \<noteq> cid \<longrightarrow> libssh2_channel_locate s' j = libssh2_channel_locate s j"
    "distinct (map local_id (all_channels s)) \<Longrightarrow> libssh2_channel_locate s' cid = None"
proof -
  obtain pre post where all: "all_channels s = pre @ ch # post" "local_id ch = cid" "\<forall>y\<in>set pre. local_id y \<noteq> cid"
    using assms unfolding locate_all by (rule find_split)
  then have "remove_first (\<lambda>ch. local_id ch = cid) (all_channels s) = Some (pre @ post)"
    using remove_first_app [of "\<lambda>ch. local_id ch = cid" ch pre post] by simp
  then obtain s' where s': "remove_channel s cid = Some s'" "all_channels s' = pre @ post"
    using remove_channel_all [of s cid] by (cases "remove_channel s cid") auto
  have "libssh2_channel_locate s' j = libssh2_channel_locate s j" if "j \<noteq> cid" for j
    using that all s'(2) by (auto simp: locate_all find_append split: option.split)
  moreover have "libssh2_channel_locate s' cid = None" if "distinct (map local_id (all_channels s))"
    using find_map_distinct [of local_id pre ch post cid] that all s'(2) by (simp add: locate_all)
  ultimately show ?thesis using s'(1) remove_channel_frame [OF s'(1)] that by blast
qed

section \<open>Freeing\<close>

lemma update_first_id: "find P xs = Some x \<Longrightarrow> f x = x \<Longrightarrow> update_first P f xs = Some xs"
  by (induction xs) (auto split: if_split_asm)

lemma update_queues_id: "find P (concat qs) = Some x \<Longrightarrow> f x = x \<Longrightarrow> update_queues P f qs = Some qs"
proof (induction qs)
  case (Cons q qs)
  then show ?case by (cases "find P q") (auto simp: find_append update_first_id update_first_None [THEN iffD2])
qed simp

lemma update_channel_id:
  assumes "libssh2_channel_locate s cid = Some ch" "f ch = ch"
  shows "update_channel s cid f = Some s"
proof (cases "find (\<lambda>ch. local_id ch = cid) (channels s)")
  case None
  then have "find (\<lambda>ch. local_id ch = cid) (concat (map ln_queue (listeners s))) = Some ch"
    using assms(1) by (simp add: locate_all all_channels_def queued_channels_def find_append)
  then have "update_queues (\<lambda>ch. local_id ch = cid) f (map ln_queue (listeners s)) = Some (map ln_queue (listeners s))"
    using update_queues_id [where f = f] assms(2) by blast
  moreover have "map2 (\<lambda>l q. l\<lparr>ln_queue := q\<rparr>) ls (map ln_queue ls) = ls" for ls :: "listener list"
    by (induction ls) auto
  ultimately show ?thesis using None by (simp add: update_channel_def update_first_None [THEN iffD2])
next
  case (Some x)
  then have "x = ch" using assms(1) by (simp add: locate_all all_channels_def find_append)
  with update_first_id [OF Some, of f] assms(2) show ?thesis by (simp add: update_channel_def)
qed

lemma purge_and_remove:
  assumes "libssh2_channel_locate s cid = Some ch" "list_all packet_wf (packets s)"
  obtains s1 s2 where "purge_loop (libssh2_htonu32 cid) s = Some s1" "remove_channel s1 cid = Some s2"
    "packets s2 = filter (\<lambda>p. \<not> for_channel cid p) (packets s)"
    "\<forall>j. j \<noteq> cid \<longrightarrow> libssh2_channel_locate s2 j = libssh2_channel_locate s j"
    "distinct (map local_id (all_channels s)) \<Longrightarrow> libssh2_channel_locate s2 cid = None"
proof -
  let ?s = "s\<lparr>packets := filter (\<lambda>p. \<not> for_channel cid p) (packets s)\<rparr>"
  have l: "libssh2_channel_locate ?s = libssh2_channel_locate s" "all_channels ?s = all_channels s"
    using locate_cong [of ?s s] by (simp_all add: all_channels_def queued_channels_def)
  obtain s2 where "remove_channel ?s cid = Some s2" "packets s2 = packets ?s"
    "\<forall>j. j \<noteq> cid \<longrightarrow> libssh2_channel_locate s2 j = libssh2_channel_locate ?s j"
    "distinct (map local_id (all_channels ?s)) \<Longrightarrow> libssh2_channel_locate s2 cid = None"
    by (rule remove_channel_removes [of ?s cid ch]) (use assms(1) l in auto)
  then show ?thesis using that [of ?s s2] purge_loop_filter [OF assms(2)] l by simp
qed

text \<open>C11. Freeing a channel. Unless closing it first would block, in which case the call reports that and can
  be repeated, a channel is always freed, whatever else went wrong in closing it: the call returns 0, the
  channel is no longer in the session, the packets with its data and only those have left the queue, and
  every other channel is as before.\<close>

theorem channel_free_releases:
  assumes marked: "update_channel s cid (\<lambda>c. if free_state c = NB_idle then c\<lparr>free_state := NB_created\<rparr> else c) = Some s1"
      "libssh2_channel_locate s1 cid = Some ch"
    and closed: "(if \<not> cd_close (ch_local ch) \<and> socket_state s1 = LIBSSH2_SOCKET_CONNECTED
         then libssh2_channel_close kx s1 cid else Some (0, s1)) = Some (rc, s2)"
    and alive: "libssh2_channel_locate s2 cid = Some ch2" "list_all packet_wf (packets s2)"
      "distinct (map local_id (all_channels s2))"
  shows "if rc = LIBSSH2_ERROR_EAGAIN then libssh2_channel_free kx s cid = Some (rc, s2)
    else \<exists>s'. libssh2_channel_free kx s cid = Some (0, s') \<and> libssh2_channel_locate s' cid = None \<and>
       (\<forall>j. j \<noteq> cid \<longrightarrow> libssh2_channel_locate s' j = libssh2_channel_locate s2 j) \<and>
       packets s' = filter (\<lambda>p. \<not> for_channel cid p) (packets s2)"
proof (cases "rc = LIBSSH2_ERROR_EAGAIN")
  case True
  then show ?thesis using marked closed by (simp add: libssh2_channel_free_def)
next
  case False
  obtain s3 s4 where "purge_loop (libssh2_htonu32 cid) s2 = Some s3" "remove_channel s3 cid = Some s4"
    "packets s4 = filter (\<lambda>p. \<not> for_channel cid p) (packets s2)"
    "\<forall>j. j \<noteq> cid \<longrightarrow> libssh2_channel_locate s4 j = libssh2_channel_locate s2 j"
    "distinct (map local_id (all_channels s2)) \<Longrightarrow> libssh2_channel_locate s4 cid = None"
    by (rule purge_and_remove [OF alive(1,2)]) blast
  with False marked closed alive(3) show ?thesis by (simp add: libssh2_channel_free_def)
qed

section \<open>Closing\<close>

text \<open>What \<open>close_done\<close> does to the channel.\<close>

lemma close_done_closes:
  assumes "libssh2_channel_locate s cid = Some ch" "rc \<noteq> LIBSSH2_ERROR_EAGAIN"
  obtains s' where "close_done s cid rc = Some (if rc \<ge> 0 then 0 else rc, s')"
    "libssh2_channel_locate s' cid = Some (ch\<lparr>ch_local := (ch_local ch)\<lparr>cd_close := True\<rparr>, close_state := NB_idle\<rparr>)"
proof -
  let ?s = "if has_close_cb ch then log_cb (CB_channel_close cid) s else s"
  have l: "libssh2_channel_locate ?s = libssh2_channel_locate s"
    using locate_cong [of ?s s] by (simp add: log_cb_def)
  let ?f = "\<lambda>c. c\<lparr>ch_local := (ch_local c)\<lparr>cd_close := True\<rparr>, close_state := NB_idle\<rparr>"
  obtain s' where "update_channel ?s cid ?f = Some s'" "libssh2_channel_locate s' cid = Some (?f ch)"
    by (rule chans.upd_obtains [of ?s cid ch ?f]) (use assms(1) l chans.find_ident [OF assms(1)] in auto)
  then show ?thesis using assms by (intro that [of s']) (simp_all add: close_done_def)
qed

text \<open>C25. Waiting for the peer to close. A call that has sent its close message reads from the transport: when
  that would block, so does the call, and nothing else changes; an error is returned, with the channel
  closed locally. But any packet that arrives, whatever it is, ends the wait as well: the call reports
  success and marks the channel as closed although the close of the peer has not been received.\<close>

theorem channel_close_waits:
  assumes ch: "libssh2_channel_locate s cid = Some ch" "\<not> cd_close (ch_local ch)" "cd_eof (ch_local ch)"
      "close_state ch = NB_sent" "\<not> cd_close (ch_remote ch)" "socket_state s \<noteq> LIBSSH2_SOCKET_DISCONNECTED"
    and rd: "transport_read kx s = Some (rc, s1)" "libssh2_channel_locate s1 cid = Some ch1"
  shows "(rc = LIBSSH2_ERROR_EAGAIN \<longrightarrow> libssh2_channel_close kx s cid = Some (rc, s1)) \<and>
    (rc > 0 \<longrightarrow> (\<exists>s' c'. libssh2_channel_close kx s cid = Some (0, s') \<and> libssh2_channel_locate s' cid = Some c' \<and>
        cd_close (ch_local c') \<and> ch_remote c' = ch_remote ch1)) \<and>
    (rc < 0 \<and> rc \<noteq> LIBSSH2_ERROR_EAGAIN \<longrightarrow> (\<exists>s' c'. libssh2_channel_close kx s cid = Some (rc, s') \<and>
        libssh2_channel_locate s' cid = Some c' \<and> cd_close (ch_local c')))"
proof -
  have same: "update_channel s cid (\<lambda>c. if close_state c = NB_idle then X c else c) = Some s" for X
    using ch(1,4) by (intro update_channel_id) auto
  have snd: "close_send s cid = Some (Inr s)" using same ch(1,4) by (simp add: close_send_def)
  have w: "close_wait kx cid 0 s = Some (rc, s1)" if "rc \<noteq> 0"
    using that ch rd by (subst close_wait.simps) (simp add: close_wait.simps [of kx cid rc s1])
  have close: "libssh2_channel_close kx s cid = close_done s1 cid rc" if "rc \<noteq> 0"
    using ch snd w [OF that] by (simp add: libssh2_channel_close_def)
  show ?thesis
  proof (intro conjI impI)
    assume "rc = LIBSSH2_ERROR_EAGAIN"
    then show "libssh2_channel_close kx s cid = Some (rc, s1)" using close by (simp add: close_done_def)
  next
    assume a: "rc > 0"
    obtain s' where s': "close_done s1 cid rc = Some (if rc \<ge> 0 then 0 else rc, s')"
      "libssh2_channel_locate s' cid = Some (ch1\<lparr>ch_local := (ch_local ch1)\<lparr>cd_close := True\<rparr>, close_state := NB_idle\<rparr>)"
      by (rule close_done_closes [OF rd(2), of rc]) (use a in auto)
    with a close show "\<exists>s' c'. libssh2_channel_close kx s cid = Some (0, s') \<and> libssh2_channel_locate s' cid = Some c' \<and>
        cd_close (ch_local c') \<and> ch_remote c' = ch_remote ch1" by auto
  next
    assume a: "rc < 0 \<and> rc \<noteq> LIBSSH2_ERROR_EAGAIN"
    obtain s' where s': "close_done s1 cid rc = Some (if rc \<ge> 0 then 0 else rc, s')"
      "libssh2_channel_locate s' cid = Some (ch1\<lparr>ch_local := (ch_local ch1)\<lparr>cd_close := True\<rparr>, close_state := NB_idle\<rparr>)"
      by (rule close_done_closes [OF rd(2), of rc]) (use a in auto)
    with a close show "\<exists>s' c'. libssh2_channel_close kx s cid = Some (rc, s') \<and>
        libssh2_channel_locate s' cid = Some c' \<and> cd_close (ch_local c')" by auto
  qed
qed

section \<open>Opening\<close>

definition opened_channel :: "u32 \<Rightarrow> byte list \<Rightarrow> u32 \<Rightarrow> u32 \<Rightarrow> channel" where
  "opened_channel cid ctype window psize = channel0\<lparr>channel_type := ctype,
     ch_local := (ch_local channel0)\<lparr>cd_id := cid\<rparr>,
     ch_remote := (ch_remote channel0)\<lparr>window_size := window, window_size_initial := window, packet_size := psize\<rparr>\<rparr>"

definition open_request :: "u32 \<Rightarrow> byte list \<Rightarrow> u32 \<Rightarrow> u32 \<Rightarrow> byte list" where
  "open_request cid ctype window psize = SSH_MSG_CHANNEL_OPEN # libssh2_store_str ctype (length ctype)
     @ libssh2_store_u32 cid @ libssh2_store_u32 window @ libssh2_store_u32 psize"

definition open_created :: "session \<Rightarrow> u32 \<Rightarrow> byte list \<Rightarrow> u32 \<Rightarrow> u32 \<Rightarrow> session" where
  "open_created t cid ctype window psize = t\<lparr>open_channel := Some cid,
     open_packet := Some (open_request cid ctype window psize), open_local_channel := cid, open_start := 0,
     channels := channels t @ [opened_channel cid ctype window psize], open_state := NB_created\<rparr>"

lemma nextid_frame:
  assumes "libssh2_channel_nextid s = (cid, t)"
  shows "libssh2_channel_nextid (s\<lparr>open_channel := x, open_packet := y\<rparr>) = (cid, t\<lparr>open_channel := x, open_packet := y\<rparr>)"
    "env t = env s" "channels t = channels s" "open_state t = open_state s"
  using assms by (auto simp: libssh2_channel_nextid_def Let_def)

lemma open_begins:
  assumes "libssh2_channel_nextid s = (cid, t)" "allocs (env s) = []"
  shows "open_prepare s ctype window psize = Some (Inr (open_created t cid ctype window psize))"
  using assms nextid_frame [OF assms(1)]
  by (simp add: open_prepare_def libssh2_alloc_def open_created_def opened_channel_def open_request_def)

lemma open_request_tail:
  "drop (5 + length ctype) (open_request cid ctype window psize) =
     libssh2_store_u32 cid @ libssh2_store_u32 window @ libssh2_store_u32 psize"
proof -
  have "5 + length ctype = length (SSH_MSG_CHANNEL_OPEN # libssh2_store_str ctype (length ctype))"
    by (simp add: length_store_str)
  then show ?thesis unfolding open_request_def by (metis append_Cons append_eq_conv_conj)
qed

lemma open_error_removes:
  assumes "libssh2_channel_locate s cid = Some ch" "list_all packet_wf (packets s)" "open_channel s = Some cid"
    "distinct (map local_id (all_channels s))"
  obtains s' where "open_error s = Some s'" "open_state s' = NB_idle" "open_channel s' = None"
    "packets s' = filter (\<lambda>p. \<not> for_channel cid p) (packets s)" "libssh2_channel_locate s' cid = None"
    "\<forall>j. j \<noteq> cid \<longrightarrow> libssh2_channel_locate s' j = libssh2_channel_locate s j"
proof -
  let ?s = "s\<lparr>open_packet := None\<rparr>"
  have l: "libssh2_channel_locate ?s = libssh2_channel_locate s" "all_channels ?s = all_channels s"
    using locate_cong [of ?s s] by (simp_all add: all_channels_def queued_channels_def)
  obtain s2 where s2: "remove_channel ?s cid = Some s2" "packets s2 = packets ?s"
    "\<forall>j. j \<noteq> cid \<longrightarrow> libssh2_channel_locate s2 j = libssh2_channel_locate ?s j"
    "distinct (map local_id (all_channels ?s)) \<Longrightarrow> libssh2_channel_locate s2 cid = None"
    by (rule remove_channel_removes [of ?s cid ch]) (use assms(1) l in auto)
  let ?s3 = "s2\<lparr>packets := filter (\<lambda>p. \<not> for_channel cid p) (packets s2), open_channel := None, open_state := NB_idle\<rparr>"
  have "open_error s = Some ?s3"
    using s2 assms(2,3) purge_loop_filter [of s2 cid] by (simp add: open_error_def Let_def)
  moreover have "libssh2_channel_locate ?s3 = libssh2_channel_locate s2" by (rule locate_cong) simp_all
  ultimately show ?thesis using s2 l assms(4) by (intro that [of ?s3]) simp_all
qed


section \<open>Concrete runs\<close>

definition closed_channel :: channel where
  "closed_channel = demo_channel\<lparr>ch_local := (ch_local demo_channel)\<lparr>cd_close := True\<rparr>\<rparr>"

definition closed_session :: session where
  "closed_session = (demo_session [])\<lparr>channels := [closed_channel],
     packets := [\<lparr>pk_data = [94, 0, 0, 0, 3, 0, 0, 0, 1, 7], pk_data_len = 10, pk_data_head = 9\<rparr>,
       \<lparr>pk_data = [94, 0, 0, 0, 4, 0, 0, 0, 1, 8], pk_data_len = 10, pk_data_head = 9\<rparr>]\<rparr>"

theorem channel_free_releases_witness:
  "\<exists>s'. libssh2_channel_free (\<lambda>s. None) closed_session 3 = Some (0, s') \<and> libssh2_channel_locate s' 3 = None \<and>
     packets s' = [\<lparr>pk_data = [94, 0, 0, 0, 4, 0, 0, 0, 1, 8], pk_data_len = 10, pk_data_head = 9\<rparr>]"
proof -
  let ?c = "closed_channel\<lparr>free_state := NB_created\<rparr>"
  let ?s = "closed_session\<lparr>channels := [?c]\<rparr>"
  have u: "update_channel closed_session 3 (\<lambda>c. if free_state c = NB_idle then c\<lparr>free_state := NB_created\<rparr> else c) = Some ?s"
    by (simp add: update_channel_def closed_session_def closed_channel_def demo_channel_def channel0_def)
  have l: "libssh2_channel_locate ?s 3 = Some ?c"
    by (simp add: libssh2_channel_locate_def closed_channel_def demo_channel_def)
  have c: "(if \<not> cd_close (ch_local ?c) \<and> socket_state ?s = LIBSSH2_SOCKET_CONNECTED
       then libssh2_channel_close (\<lambda>s. None) ?s 3 else Some (0, ?s)) = Some (0, ?s)"
    by (simp add: closed_channel_def)
  have wf: "list_all packet_wf (packets ?s)" "distinct (map local_id (all_channels ?s))"
    by (simp_all add: closed_session_def packet_wf_def all_channels_def queued_channels_def demo_session_def session_cleared_def)
  show ?thesis using channel_free_releases [OF u l c l wf]
    by (auto simp: closed_session_def for_channel_def wanted_def libssh2_htonu32_def)
qed

definition closing_channel :: channel where
  "closing_channel = demo_channel\<lparr>ch_local := (ch_local demo_channel)\<lparr>cd_eof := True\<rparr>, close_state := NB_sent\<rparr>"

lemma ignore_read_channel:
  "\<exists>s1. transport_read (\<lambda>s. None) ((session_cleared ignore_env)\<lparr>channels := [closing_channel]\<rparr>) = Some (2, s1) \<and>
     channels s1 = [closing_channel]"
  by (simp add: ignore_env_def reader_eval libssh2_packet_add_def add_dispatch_def add_ignore_def add_done_def)

theorem channel_close_waits_witness:
  "\<exists>s' c'. libssh2_channel_close (\<lambda>s. None) ((session_cleared ignore_env)\<lparr>channels := [closing_channel]\<rparr>) 3 = Some (0, s') \<and>
     libssh2_channel_locate s' 3 = Some c' \<and> cd_close (ch_local c') \<and> \<not> cd_close (ch_remote c')"
proof -
  let ?s = "(session_cleared ignore_env)\<lparr>channels := [closing_channel]\<rparr>"
  obtain s1 where s1: "transport_read (\<lambda>s. None) ?s = Some (2, s1)" "channels s1 = [closing_channel]"
    using ignore_read_channel by blast
  have c: "local_id closing_channel = 3" "\<not> cd_close (ch_local closing_channel)" "cd_eof (ch_local closing_channel)"
    "close_state closing_channel = NB_sent" "\<not> cd_close (ch_remote closing_channel)"
    by (simp_all add: closing_channel_def demo_channel_def channel0_def)
  have l: "libssh2_channel_locate ?s 3 = Some closing_channel" "libssh2_channel_locate s1 3 = Some closing_channel"
    using c(1) s1(2) by (simp_all add: libssh2_channel_locate_def)
  have d: "socket_state ?s \<noteq> LIBSSH2_SOCKET_DISCONNECTED" by (simp add: session_cleared_def)
  show ?thesis using channel_close_waits [OF l(1) c(2-5) d s1(1) l(2)] c(5) by auto
qed

definition open_session :: session where
  "open_session = (session_cleared env0)\<lparr>packets :=
     [\<lparr>pk_data = [91, 0, 0, 0, 0, 0, 0, 0, 7, 0, 0, 2, 0, 0, 0, 1, 0], pk_data_len = 17, pk_data_head = 0\<rparr>]\<rparr>"

lemma open_session_sent:
  "\<exists>s2 s3. libssh2_transport_send (open_created (open_session\<lparr>next_channel := 1\<rparr>) 0 (cstr ''session'') 100 50) addr_open_packet
        (open_request 0 (cstr ''session'') 100 50) None = Some (0, s2) \<and>
     libssh2_packet_requirev (\<lambda>s. None) (s2\<lparr>open_state := NB_sent\<rparr>) [91, 92] 1
        (Some (libssh2_store_u32 0 @ libssh2_store_u32 100 @ libssh2_store_u32 50)) 4 0 =
        Some (0, Some ([91, 0, 0, 0, 0, 0, 0, 0, 7, 0, 0, 2, 0, 0, 0, 1, 0], 17), 0, s3) \<and>
     open_channel s3 = Some 0 \<and> packets s3 = [] \<and> channels s3 = [opened_channel 0 (cstr ''session'') 100 50] \<and> listeners s3 = []"
  by (simp add: open_session_def open_created_def open_request_def sender_eval libssh2_store_str_def libssh2_store_u32_def libssh2_htonu32_def
    addr_open_packet_def libssh2_packet_requirev_def libssh2_packet_askv_def libssh2_packet_ask_def packet_matches_def rd8_def rdn_def cstring_def)


end
