(* ===== verification/Channel_Request.thy ===== *)
theory Channel_Request
  imports Channel Packet_Queue
begin

text \<open>
  The other requests of \<^verbatim>\<open>libssh2/src/channel.c\<close>: environment variables, terminals and their size, X11
  forwarding, tunnelled connections, and listening on ports of the other side.

  A pointer to a listener is its position in the list of the session. The locale \<open>request_protocol\<close> states how
  the answer to a channel request is treated; it is interpreted on the four requests that have one.
\<close>

abbreviation (input) "SSH_MSG_REQUEST_SUCCESS \<equiv> 81 :: byte"
abbreviation (input) "LIBSSH2_X11_RANDOM_COOKIE_LEN \<equiv> 32 :: nat"

text \<open>The start of every channel request.\<close>

definition request_head :: "channel \<Rightarrow> string \<Rightarrow> byte \<Rightarrow> byte list" where
  "request_head ch name want_reply = SSH_MSG_CHANNEL_REQUEST # libssh2_store_u32 (cd_id (ch_remote ch))
     @ libssh2_store_str (cstr name) (length name) @ [want_reply]"

section \<open>Environment variables\<close>

definition setenv_prepare :: "session \<Rightarrow> u32 \<Rightarrow> byte list \<Rightarrow> byte list \<Rightarrow> session step ub" where
  "setenv_prepare s cid varname val = do {
     ch \<leftarrow> libssh2_channel_locate s cid;
     (case libssh2_alloc s of (ok, s1) \<Rightarrow> do {
        s2 \<leftarrow> update_channel s1 cid (\<lambda>c. c\<lparr>setenv_start := 0, setenv_packet := None\<rparr>);
        if \<not> ok then Some (Inl (libssh2_error s2 LIBSSH2_ERROR_ALLOC ''Unable to allocate memeory for setenv packet''))
        else do {
          s3 \<leftarrow> update_channel s2 cid (\<lambda>c. c\<lparr>setenv_packet := Some (request_head ch ''env'' 1
                  @ libssh2_store_str varname (length varname) @ libssh2_store_str val (length val)),
                setenv_state := NB_created\<rparr>);
          Some (Inr s3) } }) }"

definition setenv_send :: "session \<Rightarrow> u32 \<Rightarrow> session step ub" where
  "setenv_send s cid = do {
     ch \<leftarrow> libssh2_channel_locate s cid;
     pkt \<leftarrow> setenv_packet ch;
     (rc, s1) \<leftarrow> libssh2_transport_send s (addr_setenv cid) pkt None;
     if rc = LIBSSH2_ERROR_EAGAIN
     then Some (Inl (libssh2_error s1 rc ''Would block sending setenv request''))
     else if rc \<noteq> 0 then do {
       s2 \<leftarrow> update_channel s1 cid (\<lambda>c. c\<lparr>setenv_packet := None, setenv_state := NB_idle\<rparr>);
       Some (Inl (libssh2_error s2 LIBSSH2_ERROR_SOCKET_SEND
         ''Unable to send channel-request packet for setenv request'')) }
     else do {
       s2 \<leftarrow> update_channel s1 cid (\<lambda>c. c\<lparr>setenv_packet := None,
               setenv_local_channel := libssh2_htonu32 (local_id c), setenv_state := NB_sent\<rparr>);
       Some (Inr s2) } }"

definition setenv_denied :: "session \<Rightarrow> u32 \<Rightarrow> (int \<times> session) ub" where
  "setenv_denied s cid = do {
     s1 \<leftarrow> update_channel s cid (\<lambda>c. c\<lparr>setenv_state := NB_idle\<rparr>);
     Some (libssh2_error s1 LIBSSH2_ERROR_CHANNEL_REQUEST_DENIED ''Unable to complete request for channel-setenv'') }"

definition setenv_answer :: "kex_exchange_fn \<Rightarrow> session \<Rightarrow> u32 \<Rightarrow> (int \<times> session) ub" where
  "setenv_answer kx s cid = do {
     ch \<leftarrow> libssh2_channel_locate s cid;
     (rc, d, start, s1) \<leftarrow> libssh2_packet_requirev kx s [SSH_MSG_CHANNEL_SUCCESS, SSH_MSG_CHANNEL_FAILURE] 1
        (Some (setenv_local_channel ch)) 4 (setenv_start ch);
     s2 \<leftarrow> update_channel s1 cid (\<lambda>c. c\<lparr>setenv_start := start\<rparr>);
     if rc = LIBSSH2_ERROR_EAGAIN then Some (rc, s2)
     else if rc \<noteq> 0 then do {
       s3 \<leftarrow> update_channel s2 cid (\<lambda>c. c\<lparr>setenv_state := NB_idle\<rparr>);
       Some (rc, s3) }
     else do {
       (data, n) \<leftarrow> d;
       code \<leftarrow> rd8 data 0;
       if code = SSH_MSG_CHANNEL_SUCCESS then do {
         s3 \<leftarrow> update_channel s2 cid (\<lambda>c. c\<lparr>setenv_state := NB_idle\<rparr>);
         Some (0, s3) }
       else setenv_denied s2 cid } }"

definition channel_setenv ::
  "kex_exchange_fn \<Rightarrow> session \<Rightarrow> u32 \<Rightarrow> byte list \<Rightarrow> byte list \<Rightarrow> (int \<times> session) ub" where
  "channel_setenv kx s cid varname val = do {
     ch \<leftarrow> libssh2_channel_locate s cid;
     r1 \<leftarrow> (if setenv_state ch = NB_idle then setenv_prepare s cid varname val else Some (Inr s));
     (case r1 of
        Inl ret \<Rightarrow> Some ret
      | Inr s1 \<Rightarrow> do {
          ch1 \<leftarrow> libssh2_channel_locate s1 cid;
          r2 \<leftarrow> (if setenv_state ch1 = NB_created then setenv_send s1 cid else Some (Inr s1));
          (case r2 of
             Inl ret \<Rightarrow> Some ret
           | Inr s2 \<Rightarrow> do {
               ch2 \<leftarrow> libssh2_channel_locate s2 cid;
               if setenv_state ch2 = NB_sent then setenv_answer kx s2 cid else setenv_denied s2 cid }) }) }"

section \<open>Terminals\<close>

text \<open>\<^verbatim>\<open>term_len\<close> and \<^verbatim>\<open>modes_len\<close> are unsigned ints, so their sum wraps around; a copy of more bytes than the
  packet buffer of 41 + 256 bytes has is undefined.\<close>

definition pty_packet :: "channel \<Rightarrow> byte list \<Rightarrow> byte list \<Rightarrow> int \<Rightarrow> int \<Rightarrow> int \<Rightarrow> int \<Rightarrow> byte list" where
  "pty_packet ch trm modes width height width_px height_px = request_head ch ''pty-req'' 1
     @ libssh2_store_str trm (length trm) @ libssh2_store_u32 (word_of_int width) @ libssh2_store_u32 (word_of_int height)
     @ libssh2_store_u32 (word_of_int width_px) @ libssh2_store_u32 (word_of_int height_px)
     @ libssh2_store_str modes (length modes)"

definition pty_prepare ::
  "session \<Rightarrow> u32 \<Rightarrow> byte list \<Rightarrow> byte list \<Rightarrow> int \<Rightarrow> int \<Rightarrow> int \<Rightarrow> int \<Rightarrow> session step ub" where
  "pty_prepare s cid trm modes width height width_px height_px =
     (if (word_of_nat (length trm) :: u32) + word_of_nat (length modes) > 256 then
        Some (Inl (libssh2_error s LIBSSH2_ERROR_INVAL ''term + mode lengths too large''))
      else if length trm + length modes > 256 then None
      else do {
        s1 \<leftarrow> update_channel s cid (\<lambda>c. c\<lparr>reqPTY_start := 0,
               reqPTY_packet := pty_packet c trm modes width height width_px height_px, reqPTY_state := NB_created\<rparr>);
        Some (Inr s1) })"

definition pty_send :: "session \<Rightarrow> u32 \<Rightarrow> session step ub" where
  "pty_send s cid = do {
     ch \<leftarrow> libssh2_channel_locate s cid;
     (rc, s1) \<leftarrow> libssh2_transport_send s (addr_reqPTY cid) (reqPTY_packet ch) None;
     if rc = LIBSSH2_ERROR_EAGAIN
     then Some (Inl (libssh2_error s1 rc ''Would block sending pty request''))
     else if rc \<noteq> 0 then do {
       s2 \<leftarrow> update_channel s1 cid (\<lambda>c. c\<lparr>reqPTY_state := NB_idle\<rparr>);
       Some (Inl (libssh2_error s2 rc ''Unable to send pty-request packet'')) }
     else do {
       s2 \<leftarrow> update_channel s1 cid (\<lambda>c. c\<lparr>reqPTY_local_channel := libssh2_htonu32 (local_id c),
               reqPTY_state := NB_sent\<rparr>);
       Some (Inr s2) } }"

definition pty_denied :: "session \<Rightarrow> int \<times> session" where
  "pty_denied s = libssh2_error s LIBSSH2_ERROR_CHANNEL_REQUEST_DENIED
     ''Unable to complete request for channel request-pty''"

definition pty_answer :: "kex_exchange_fn \<Rightarrow> session \<Rightarrow> u32 \<Rightarrow> (int \<times> session) ub" where
  "pty_answer kx s cid = do {
     ch \<leftarrow> libssh2_channel_locate s cid;
     (rc, d, start, s1) \<leftarrow> libssh2_packet_requirev kx s [SSH_MSG_CHANNEL_SUCCESS, SSH_MSG_CHANNEL_FAILURE] 1
        (Some (reqPTY_local_channel ch)) 4 (reqPTY_start ch);
     s2 \<leftarrow> update_channel s1 cid (\<lambda>c. c\<lparr>reqPTY_start := start\<rparr>);
     if rc = LIBSSH2_ERROR_EAGAIN then Some (rc, s2)
     else do {
       s3 \<leftarrow> update_channel s2 cid (\<lambda>c. c\<lparr>reqPTY_state := NB_idle\<rparr>);
       if rc \<noteq> 0 then Some (libssh2_error s3 LIBSSH2_ERROR_PROTO ''Failed to require the PTY package'')
       else do {
         (data, n) \<leftarrow> d;
         code \<leftarrow> rd8 data 0;
         if code = SSH_MSG_CHANNEL_SUCCESS then Some (0, s3) else Some (pty_denied s3) } } }"

definition channel_request_pty ::
  "kex_exchange_fn \<Rightarrow> session \<Rightarrow> u32 \<Rightarrow> byte list \<Rightarrow> byte list \<Rightarrow> int \<Rightarrow> int \<Rightarrow> int \<Rightarrow> int \<Rightarrow> (int \<times> session) ub" where
  "channel_request_pty kx s cid trm modes width height width_px height_px = do {
     ch \<leftarrow> libssh2_channel_locate s cid;
     r1 \<leftarrow> (if reqPTY_state ch = NB_idle then pty_prepare s cid trm modes width height width_px height_px
           else Some (Inr s));
     (case r1 of
        Inl ret \<Rightarrow> Some ret
      | Inr s1 \<Rightarrow> do {
          ch1 \<leftarrow> libssh2_channel_locate s1 cid;
          r2 \<leftarrow> (if reqPTY_state ch1 = NB_created then pty_send s1 cid else Some (Inr s1));
          (case r2 of
             Inl ret \<Rightarrow> Some ret
           | Inr s2 \<Rightarrow> do {
               ch2 \<leftarrow> libssh2_channel_locate s2 cid;
               if reqPTY_state ch2 = NB_sent then pty_answer kx s2 cid else Some (pty_denied s2) }) }) }"

text \<open>The change of the size shares its state with the request for a terminal.\<close>

definition channel_request_pty_size :: "session \<Rightarrow> u32 \<Rightarrow> int \<Rightarrow> int \<Rightarrow> int \<Rightarrow> int \<Rightarrow> (int \<times> session) ub" where
  "channel_request_pty_size s cid width height width_px height_px = do {
     s1 \<leftarrow> update_channel s cid (\<lambda>c. if reqPTY_state c = NB_idle then c\<lparr>reqPTY_start := 0,
            reqPTY_packet := request_head c ''window-change'' 0 @ libssh2_store_u32 (word_of_int width)
              @ libssh2_store_u32 (word_of_int height) @ libssh2_store_u32 (word_of_int width_px)
              @ libssh2_store_u32 (word_of_int height_px),
            reqPTY_state := NB_created\<rparr> else c);
     ch \<leftarrow> libssh2_channel_locate s1 cid;
     if reqPTY_state ch = NB_created then do {
       (rc, s2) \<leftarrow> libssh2_transport_send s1 (addr_reqPTY cid) (reqPTY_packet ch) None;
       if rc = LIBSSH2_ERROR_EAGAIN then Some (libssh2_error s2 rc ''Would block sending window-change request'')
       else if rc \<noteq> 0 then do {
         s3 \<leftarrow> update_channel s2 cid (\<lambda>c. c\<lparr>reqPTY_state := NB_idle\<rparr>);
         Some (libssh2_error s3 rc ''Unable to send window-change packet'') }
       else do {
         s3 \<leftarrow> update_channel s2 cid (\<lambda>c. c\<lparr>reqPTY_local_channel := libssh2_htonu32 (local_id c),
                 reqPTY_state := NB_idle\<rparr>);
         Some (LIBSSH2_ERROR_NONE, s3) } }
     else do {
       s2 \<leftarrow> update_channel s1 cid (\<lambda>c. c\<lparr>reqPTY_state := NB_idle\<rparr>);
       Some (LIBSSH2_ERROR_PROTO, s2) } }"

section \<open>X11 forwarding\<close>

text \<open>\<^verbatim>\<open>sprintf("%02X")\<close> of each byte.\<close>

definition hex_digit :: "nat \<Rightarrow> byte" where
  "hex_digit n = (if n < 10 then 48 + word_of_nat n else 55 + word_of_nat n)"

definition hex_bytes :: "byte list \<Rightarrow> byte list" where
  "hex_bytes bs = concat (map (\<lambda>b. [hex_digit (unat b div 16), hex_digit (unat b mod 16)]) bs)"

definition x11_prepare ::
  "session \<Rightarrow> u32 \<Rightarrow> bool \<Rightarrow> byte list option \<Rightarrow> byte list option \<Rightarrow> int \<Rightarrow> session step ub" where
  "x11_prepare s cid single_connection auth_proto auth_cookie screen_number = do {
     ch \<leftarrow> libssh2_channel_locate s cid;
     let proto = (case auth_proto of None \<Rightarrow> cstr ''MIT-MAGIC-COOKIE-1'' | Some p \<Rightarrow> cstring p);
     (case libssh2_alloc s of (ok, s1) \<Rightarrow> do {
        s2 \<leftarrow> update_channel s1 cid (\<lambda>c. c\<lparr>reqX11_start := 0, reqX11_packet := None\<rparr>);
        if \<not> ok then Some (Inl (libssh2_error s2 LIBSSH2_ERROR_ALLOC ''Unable to allocate memory for pty-request''))
        else (case (case auth_cookie of Some k \<Rightarrow> (cstring k, s2)
                    | None \<Rightarrow> (case libssh2_random s2 (LIBSSH2_X11_RANDOM_COOKIE_LEN div 2) of (r, s3) \<Rightarrow> (hex_bytes r, s3)))
          of (cookie, s3) \<Rightarrow> do {
          s4 \<leftarrow> update_channel s3 cid (\<lambda>c. c\<lparr>reqX11_packet := Some (request_head ch ''x11-req'' 1
                  @ [if single_connection then 1 else 0] @ libssh2_store_str proto (length proto)
                  @ libssh2_store_u32 (word_of_nat (length cookie)) @ cookie
                  @ libssh2_store_u32 (word_of_int screen_number)),
                reqX11_state := NB_created\<rparr>);
          Some (Inr s4) }) }) }"

definition x11_send :: "session \<Rightarrow> u32 \<Rightarrow> session step ub" where
  "x11_send s cid = do {
     ch \<leftarrow> libssh2_channel_locate s cid;
     pkt \<leftarrow> reqX11_packet ch;
     (rc, s1) \<leftarrow> libssh2_transport_send s (addr_reqX11 cid) pkt None;
     if rc = LIBSSH2_ERROR_EAGAIN
     then Some (Inl (libssh2_error s1 rc ''Would block sending X11-req packet''))
     else if rc \<noteq> 0 then do {
       s2 \<leftarrow> update_channel s1 cid (\<lambda>c. c\<lparr>reqX11_packet := None, reqX11_state := NB_idle\<rparr>);
       Some (Inl (libssh2_error s2 rc ''Unable to send x11-req packet'')) }
     else do {
       s2 \<leftarrow> update_channel s1 cid (\<lambda>c. c\<lparr>reqX11_packet := None,
               reqX11_local_channel := libssh2_htonu32 (local_id c), reqX11_state := NB_sent\<rparr>);
       Some (Inr s2) } }"

definition x11_denied :: "session \<Rightarrow> int \<times> session" where
  "x11_denied s = libssh2_error s LIBSSH2_ERROR_CHANNEL_REQUEST_DENIED
     ''Unable to complete request for channel x11-req''"

definition x11_answer :: "kex_exchange_fn \<Rightarrow> session \<Rightarrow> u32 \<Rightarrow> (int \<times> session) ub" where
  "x11_answer kx s cid = do {
     ch \<leftarrow> libssh2_channel_locate s cid;
     (rc, d, start, s1) \<leftarrow> libssh2_packet_requirev kx s [SSH_MSG_CHANNEL_SUCCESS, SSH_MSG_CHANNEL_FAILURE] 1
        (Some (reqX11_local_channel ch)) 4 (reqX11_start ch);
     s2 \<leftarrow> update_channel s1 cid (\<lambda>c. c\<lparr>reqX11_start := start\<rparr>);
     if rc = LIBSSH2_ERROR_EAGAIN then Some (rc, s2)
     else do {
       s3 \<leftarrow> update_channel s2 cid (\<lambda>c. c\<lparr>reqX11_state := NB_idle\<rparr>);
       if rc \<noteq> 0 then Some (libssh2_error s3 rc ''waiting for x11-req response packet'')
       else do {
         (data, n) \<leftarrow> d;
         code \<leftarrow> rd8 data 0;
         if code = SSH_MSG_CHANNEL_SUCCESS then Some (0, s3) else Some (x11_denied s3) } } }"

definition channel_x11_req ::
  "kex_exchange_fn \<Rightarrow> session \<Rightarrow> u32 \<Rightarrow> bool \<Rightarrow> byte list option \<Rightarrow> byte list option \<Rightarrow> int \<Rightarrow> (int \<times> session) ub" where
  "channel_x11_req kx s cid single_connection auth_proto auth_cookie screen_number = do {
     ch \<leftarrow> libssh2_channel_locate s cid;
     r1 \<leftarrow> (if reqX11_state ch = NB_idle
           then x11_prepare s cid single_connection auth_proto auth_cookie screen_number else Some (Inr s));
     (case r1 of
        Inl ret \<Rightarrow> Some ret
      | Inr s1 \<Rightarrow> do {
          ch1 \<leftarrow> libssh2_channel_locate s1 cid;
          r2 \<leftarrow> (if reqX11_state ch1 = NB_created then x11_send s1 cid else Some (Inr s1));
          (case r2 of
             Inl ret \<Rightarrow> Some ret
           | Inr s2 \<Rightarrow> do {
               ch2 \<leftarrow> libssh2_channel_locate s2 cid;
               if reqX11_state ch2 = NB_sent then x11_answer kx s2 cid else Some (x11_denied s2) }) }) }"

section \<open>Tunnelled connections\<close>

definition channel_direct_tcpip ::
  "kex_exchange_fn \<Rightarrow> session \<Rightarrow> byte list \<Rightarrow> int \<Rightarrow> byte list \<Rightarrow> int \<Rightarrow> (u32 option \<times> session) ub" where
  "channel_direct_tcpip kx s host port shost sport =
     (case (if direct_state s = NB_idle then
              (case libssh2_alloc s of (ok, s1) \<Rightarrow>
                 if \<not> ok then Inl (snd (libssh2_error (s1\<lparr>direct_message := None\<rparr>) LIBSSH2_ERROR_ALLOC
                                   ''Unable to allocate memory for direct-tcpip connection''))
                 else Inr (s1\<lparr>direct_message := Some (libssh2_store_str host (strlen host)
                   @ libssh2_store_u32 (word_of_int port) @ libssh2_store_str shost (strlen shost)
                   @ libssh2_store_u32 (word_of_int sport))\<rparr>))
            else Inr s) of
        Inl s1 \<Rightarrow> Some (None, s1)
      | Inr s1 \<Rightarrow> do {
          (ch, s2) \<leftarrow> libssh2_channel_open kx s1 (cstr ''direct-tcpip'') LIBSSH2_CHANNEL_WINDOW_DEFAULT
                       LIBSSH2_CHANNEL_PACKET_DEFAULT (direct_message s1);
          if ch = None \<and> err_code s2 = LIBSSH2_ERROR_EAGAIN then Some (None, s2\<lparr>direct_state := NB_created\<rparr>)
          else Some (ch, s2\<lparr>direct_state := NB_idle, direct_message := None\<rparr>) })"

section \<open>Listening on the other side\<close>

definition listen_prepare :: "session \<Rightarrow> byte list \<Rightarrow> int \<Rightarrow> session + session" where
  "listen_prepare s host port =
     (case libssh2_alloc (s\<lparr>fwdLstn_host_len := strlen host, fwdLstn_start := 0\<rparr>) of (ok, s1) \<Rightarrow>
        if \<not> ok then Inl (snd (libssh2_error (s1\<lparr>fwdLstn_packet := None\<rparr>) LIBSSH2_ERROR_ALLOC
                           ''Unable to allocate memeory for setenv packet''))
        else Inr (s1\<lparr>fwdLstn_packet := Some (SSH_MSG_GLOBAL_REQUEST
               # libssh2_store_str (cstr ''tcpip-forward'') (length ''tcpip-forward'') @ [1]
               @ libssh2_store_str host (strlen host) @ libssh2_store_u32 (word_of_int port)),
             fwdLstn_state := NB_created\<rparr>))"

definition listen_send :: "session \<Rightarrow> (session + session) ub" where
  "listen_send s = do {
     pkt \<leftarrow> fwdLstn_packet s;
     (rc, s1) \<leftarrow> libssh2_transport_send s addr_fwdLstn pkt None;
     if rc = LIBSSH2_ERROR_EAGAIN
     then Some (Inl (snd (libssh2_error s1 LIBSSH2_ERROR_EAGAIN
       ''Would block sending global-request packet for forward listen request'')))
     else if rc \<noteq> 0
     then Some (Inl ((snd (libssh2_error s1 LIBSSH2_ERROR_SOCKET_SEND
       ''Unable to send global-request packet for forward listen request''))
         \<lparr>fwdLstn_packet := None, fwdLstn_state := NB_idle\<rparr>))
     else Some (Inr (s1\<lparr>fwdLstn_packet := None, fwdLstn_state := NB_sent\<rparr>)) }"

text \<open>The new listener: its position and the port, which the caller gets through \<^verbatim>\<open>bound_port\<close>.\<close>

definition listen_add :: "session \<Rightarrow> byte list \<Rightarrow> int \<Rightarrow> int \<Rightarrow> byte list \<Rightarrow> nat \<Rightarrow> ((nat \<times> int) option \<times> session) ub" where
  "listen_add s host port maxsize data data_len =
     (case libssh2_alloc s of (ok, s1) \<Rightarrow>
        if \<not> ok then Some (None, snd (libssh2_error s1 LIBSSH2_ERROR_ALLOC
                            ''Unable to allocate memory for listener queue''))
        else case libssh2_alloc s1 of (ok2, s2) \<Rightarrow>
          if \<not> ok2 then Some (None, snd (libssh2_error s2 LIBSSH2_ERROR_ALLOC
                              ''Unable to allocate memory for listener queue''))
          else do {
            h \<leftarrow> rdn (cstring host @ [0]) 0 (fwdLstn_host_len s2);
            p \<leftarrow> (if data_len \<ge> 5 \<and> port = 0 then map_option sint (rd32 data 1) else Some port);
            Some (Some (length (listeners s2), p),
                  s2\<lparr>listeners := listeners s2 @ [\<lparr>ln_host = h, ln_port = p, ln_queue = [], queue_size = 0,
                     queue_maxsize = maxsize, chanFwdCncl_state = NB_idle, chanFwdCncl_data = None\<rparr>]\<rparr>) })"

definition listen_answer ::
  "kex_exchange_fn \<Rightarrow> session \<Rightarrow> byte list \<Rightarrow> int \<Rightarrow> int \<Rightarrow> ((nat \<times> int) option \<times> session) ub" where
  "listen_answer kx s host port maxsize = do {
     (rc, d, start, s1) \<leftarrow> libssh2_packet_requirev kx s [SSH_MSG_REQUEST_SUCCESS, SSH_MSG_REQUEST_FAILURE] 0 None 0
        (fwdLstn_start s);
     let s2 = s1\<lparr>fwdLstn_start := start\<rparr>;
     if rc = LIBSSH2_ERROR_EAGAIN
     then Some (None, snd (libssh2_error s2 LIBSSH2_ERROR_EAGAIN ''Would block''))
     else if rc \<noteq> 0
     then Some (None, (snd (libssh2_error s2 LIBSSH2_ERROR_PROTO ''Unknown''))\<lparr>fwdLstn_state := NB_idle\<rparr>)
     else do {
       (data, n) \<leftarrow> d;
       code \<leftarrow> rd8 data 0;
       if code = SSH_MSG_REQUEST_SUCCESS then do {
         (ln, s3) \<leftarrow> listen_add s2 host port maxsize data n;
         Some (ln, s3\<lparr>fwdLstn_state := NB_idle\<rparr>) }
       else Some (None, (if code = SSH_MSG_REQUEST_FAILURE
         then snd (libssh2_error s2 LIBSSH2_ERROR_REQUEST_DENIED ''Unable to complete request for forward-listen'')
         else s2)\<lparr>fwdLstn_state := NB_idle\<rparr>) } }"

definition channel_forward_listen ::
  "kex_exchange_fn \<Rightarrow> session \<Rightarrow> byte list option \<Rightarrow> int \<Rightarrow> int \<Rightarrow> ((nat \<times> int) option \<times> session) ub" where
  "channel_forward_listen kx s host_or_null port maxsize = do {
     let host = (case host_or_null of None \<Rightarrow> cstr ''0.0.0.0'' | Some h \<Rightarrow> h);
     (case (if fwdLstn_state s = NB_idle then listen_prepare s host port else Inr s) of
        Inl s1 \<Rightarrow> Some (None, s1)
      | Inr s1 \<Rightarrow> do {
          r \<leftarrow> (if fwdLstn_state s1 = NB_created then listen_send s1 else Some (Inr s1));
          (case r of
             Inl s2 \<Rightarrow> Some (None, s2)
           | Inr s2 \<Rightarrow>
               if fwdLstn_state s2 = NB_sent then listen_answer kx s2 host port maxsize
               else Some (None, s2\<lparr>fwdLstn_state := NB_idle\<rparr>)) }) }"

definition listener_at :: "session \<Rightarrow> nat \<Rightarrow> listener ub" where
  "listener_at s i = (if i < length (listeners s) then Some (listeners s ! i) else None)"

definition update_listener :: "session \<Rightarrow> nat \<Rightarrow> (listener \<Rightarrow> listener) \<Rightarrow> session ub" where
  "update_listener s i f =
     map_option (\<lambda>ln. s\<lparr>listeners := (listeners s)[i := f ln]\<rparr>) (listener_at s i)"

definition cancel_send :: "session \<Rightarrow> nat \<Rightarrow> session step ub" where
  "cancel_send s i = do {
     ln \<leftarrow> listener_at s i;
     (case (if chanFwdCncl_state ln = NB_idle then
              (case libssh2_alloc s of (ok, s1) \<Rightarrow>
                 if \<not> ok then Inl (libssh2_error s1 LIBSSH2_ERROR_ALLOC ''Unable to allocate memeory for setenv packet'')
                 else Inr (NB_created, Some (SSH_MSG_GLOBAL_REQUEST
                   # libssh2_store_str (cstr ''cancel-tcpip-forward'') (length ''cancel-tcpip-forward'') @ [0]
                   @ libssh2_store_str (ln_host ln) (strlen (ln_host ln))
                   @ libssh2_store_u32 (word_of_int (ln_port ln))), s1))
            else Inr (chanFwdCncl_state ln, chanFwdCncl_data ln, s)) of
        Inl ret \<Rightarrow> Some (Inl ret)
      | Inr (st, pkt, s1) \<Rightarrow> do {
          s2 \<leftarrow> update_listener s1 i (\<lambda>l. l\<lparr>chanFwdCncl_state := st\<rparr>);
          if st = NB_created then do {
            p \<leftarrow> pkt;
            (rc, s3) \<leftarrow> libssh2_transport_send s2 (addr_fwdCncl i) p None;
            if rc = LIBSSH2_ERROR_EAGAIN then do {
              s4 \<leftarrow> update_listener (snd (libssh2_error s3 rc ''Would block sending forward request'')) i
                     (\<lambda>l. l\<lparr>chanFwdCncl_data := Some p\<rparr>);
              Some (Inl (rc, s4)) }
            else if rc \<noteq> 0 then do {
              s4 \<leftarrow> update_listener (snd (libssh2_error s3 LIBSSH2_ERROR_SOCKET_SEND
                       ''Unable to send global-request packet for forward listen request'')) i
                     (\<lambda>l. l\<lparr>chanFwdCncl_state := NB_idle\<rparr>);
              Some (Inl (LIBSSH2_ERROR_SOCKET_SEND, s4)) }
            else do {
              s4 \<leftarrow> update_listener s3 i (\<lambda>l. l\<lparr>chanFwdCncl_state := NB_sent\<rparr>);
              Some (Inr s4) } }
          else Some (Inr s2) }) }"

text \<open>The queue is walked with the link taken before a channel is freed.\<close>

definition queue_next :: "u32 \<Rightarrow> channel list \<Rightarrow> u32 option" where
  "queue_next cid q = (case dropWhile (\<lambda>c. local_id c \<noteq> cid) q of _ # c # _ \<Rightarrow> Some (local_id c) | _ \<Rightarrow> None)"

partial_function (option) cancel_loop ::
  "kex_exchange_fn \<Rightarrow> nat \<Rightarrow> u32 option \<Rightarrow> session \<Rightarrow> (int \<times> session) option" where
  "cancel_loop kx i queued s =
     (case queued of
        None \<Rightarrow> Some (0, s)
      | Some cid \<Rightarrow>
          Option.bind (listener_at s i) (\<lambda>ln.
          Option.bind (libssh2_channel_free kx s cid) (\<lambda>(rc, s1).
            if rc = LIBSSH2_ERROR_EAGAIN then Some (rc, s1)
            else cancel_loop kx i (queue_next cid (ln_queue ln)) s1)))"

definition libssh2_channel_forward_cancel :: "kex_exchange_fn \<Rightarrow> session \<Rightarrow> nat \<Rightarrow> (int \<times> session) ub" where
  "libssh2_channel_forward_cancel kx s i = do {
     r \<leftarrow> cancel_send s i;
     (case r of
        Inl ret \<Rightarrow> Some ret
      | Inr s1 \<Rightarrow> do {
          ln \<leftarrow> listener_at s1 i;
          (rc, s2) \<leftarrow> cancel_loop kx i (case ln_queue ln of [] \<Rightarrow> None | c # _ \<Rightarrow> Some (local_id c)) s1;
          if rc = LIBSSH2_ERROR_EAGAIN then Some (rc, s2)
          else Some (0, s2\<lparr>listeners := take i (listeners s2) @ drop (Suc i) (listeners s2)\<rparr>) }) }"

definition channel_forward_accept :: "kex_exchange_fn \<Rightarrow> session \<Rightarrow> nat \<Rightarrow> (u32 option \<times> session) ub" where
  "channel_forward_accept kx s i = do {
     (rc, s1) \<leftarrow> drain kx s;
     ln \<leftarrow> listener_at s1 i;
     (case ln_queue ln of
        ch # q \<Rightarrow> do {
          s2 \<leftarrow> update_listener s1 i (\<lambda>l. l\<lparr>ln_queue := q, queue_size := queue_size l - 1\<rparr>);
          Some (Some (local_id ch), s2\<lparr>channels := channels s2 @ [ch]\<rparr>) }
      | [] \<Rightarrow>
          Some (None, snd (if rc = LIBSSH2_ERROR_EAGAIN
            then libssh2_error s1 LIBSSH2_ERROR_EAGAIN ''Would block waiting for packet''
            else libssh2_error s1 LIBSSH2_ERROR_CHANNEL_UNKNOWN ''Channel not found''))) }"

section \<open>The answer to a request\<close>

definition same_channels :: "session \<Rightarrow> session \<Rightarrow> bool" where
  "same_channels s t \<longleftrightarrow> channels s = channels t \<and> listeners s = listeners t"

lemma same_channels_simps [simp]: "same_channels s s" "same_channels (snd (libssh2_error s c m)) s"
  by (simp_all add: same_channels_def libssh2_error_def)

lemma error_same_channels [simp]: "(\<exists>s4. libssh2_error s c m = (r, s4) \<and> same_channels s4 s) \<longleftrightarrow> r = c"
  by (auto simp: libssh2_error_def same_channels_def)

definition answer_code :: "(int \<Rightarrow> int) \<Rightarrow> int \<Rightarrow> byte list \<Rightarrow> int" where
  "answer_code fail rc data = (if rc = LIBSSH2_ERROR_EAGAIN then rc else if rc \<noteq> 0 then fail rc
     else if hd data = SSH_MSG_CHANNEL_SUCCESS then 0 else LIBSSH2_ERROR_CHANNEL_REQUEST_DENIED)"

text \<open>What a request does with the answer: \<open>st\<close> is its progress, \<open>key\<close> the channel number it waits for, \<open>fail\<close> the
  code it returns for an error.\<close>

locale request_protocol =
  fixes st :: "channel \<Rightarrow> nb_state" and set_idle :: "channel \<Rightarrow> channel" and set_start :: "int \<Rightarrow> channel \<Rightarrow> channel"
    and key :: "channel \<Rightarrow> byte list" and start :: "channel \<Rightarrow> int" and fail :: "int \<Rightarrow> int"
    and call :: "kex_exchange_fn \<Rightarrow> session \<Rightarrow> u32 \<Rightarrow> (int \<times> session) ub"
  assumes st_idle: "st (set_idle c) = NB_idle" and st_start: "st (set_start t c) = st c"
    and id_idle: "local_id (set_idle c) = local_id c" and id_start: "local_id (set_start t c) = local_id c"
    and blocked: "libssh2_channel_locate s cid = Some c \<Longrightarrow> st c = NB_sent \<Longrightarrow>
      libssh2_packet_requirev kx s [SSH_MSG_CHANNEL_SUCCESS, SSH_MSG_CHANNEL_FAILURE] 1 (Some (key c)) 4 (start c) =
        Some (LIBSSH2_ERROR_EAGAIN, d, t, s1) \<Longrightarrow>
      update_channel s1 cid (set_start t) = Some s2 \<Longrightarrow> call kx s cid = Some (LIBSSH2_ERROR_EAGAIN, s2)"
    and answered: "libssh2_channel_locate s cid = Some c \<Longrightarrow> st c = NB_sent \<Longrightarrow>
      libssh2_packet_requirev kx s [SSH_MSG_CHANNEL_SUCCESS, SSH_MSG_CHANNEL_FAILURE] 1 (Some (key c)) 4 (start c) =
        Some (rc, d, t, s1) \<Longrightarrow> rc = 0 \<longrightarrow> d = Some (data, n) \<and> data \<noteq> [] \<Longrightarrow> rc \<noteq> LIBSSH2_ERROR_EAGAIN \<Longrightarrow>
      update_channel s1 cid (set_start t) = Some s2 \<Longrightarrow> update_channel s2 cid set_idle = Some s3 \<Longrightarrow>
      \<exists>s4. call kx s cid = Some (answer_code fail rc data, s4) \<and> same_channels s4 s3"
begin

lemma outcome:
  assumes c: "libssh2_channel_locate s cid = Some c" "st c = NB_sent"
    and rq: "libssh2_packet_requirev kx s [SSH_MSG_CHANNEL_SUCCESS, SSH_MSG_CHANNEL_FAILURE] 1 (Some (key c)) 4 (start c) =
        Some (rc, d, t, s1)" "rc = 0 \<longrightarrow> d = Some (data, n) \<and> data \<noteq> []" "libssh2_channel_locate s1 cid = Some c1"
  shows "\<exists>s' c'. call kx s cid = Some (answer_code fail rc data, s') \<and> libssh2_channel_locate s' cid = Some c' \<and>
     st c' = (if rc = LIBSSH2_ERROR_EAGAIN then st c1 else NB_idle)"
proof -
  have id: "local_id c1 = cid" by (rule chans.find_ident [OF rq(3)])
  obtain s2 s3 where s2: "update_channel s1 cid (set_start t) = Some s2" "libssh2_channel_locate s2 cid = Some (set_start t c1)"
    and s3: "update_channel s2 cid set_idle = Some s3" "libssh2_channel_locate s3 cid = Some (set_idle (set_start t c1))"
    by (rule chans.upd_obtains [OF rq(3), of "set_start t"], simp add: id id_start,
        rule chans.upd_obtains [of _ cid "set_start t c1" set_idle]) (auto simp: id id_start id_idle)
  show ?thesis
  proof (cases "rc = LIBSSH2_ERROR_EAGAIN")
    case True
    with blocked [OF c, of kx d t s1 s2] rq(1) s2 show ?thesis by (simp add: answer_code_def st_start)
  next
    case False
    obtain s4 where s4: "call kx s cid = Some (answer_code fail rc data, s4)" "same_channels s4 s3"
      using answered [OF c rq(1,2) False s2(1) s3(1)] by blast
    then have "libssh2_channel_locate s4 = libssh2_channel_locate s3"
      by (intro locate_cong) (simp_all add: same_channels_def)
    with s4(1) s3(2) False show ?thesis by (simp add: st_idle)
  qed
qed

end

interpretation env_request: request_protocol setenv_state "\<lambda>c. c\<lparr>setenv_state := NB_idle\<rparr>" "\<lambda>t c. c\<lparr>setenv_start := t\<rparr>"
  setenv_local_channel setenv_start "\<lambda>rc. rc" "\<lambda>kx s cid. channel_setenv kx s cid varname val" for varname val
  by unfold_locales (auto simp: channel_setenv_def setenv_answer_def setenv_denied_def answer_code_def rd8_def hd_conv_nth)

interpretation pty_request: request_protocol reqPTY_state "\<lambda>c. c\<lparr>reqPTY_state := NB_idle\<rparr>" "\<lambda>t c. c\<lparr>reqPTY_start := t\<rparr>"
  reqPTY_local_channel reqPTY_start "\<lambda>rc. LIBSSH2_ERROR_PROTO" "\<lambda>kx s cid. channel_request_pty kx s cid trm modes w h wp hp"
  for trm modes w h wp hp
  by unfold_locales (auto simp: channel_request_pty_def pty_answer_def pty_denied_def answer_code_def rd8_def hd_conv_nth)

interpretation x11_request: request_protocol reqX11_state "\<lambda>c. c\<lparr>reqX11_state := NB_idle\<rparr>" "\<lambda>t c. c\<lparr>reqX11_start := t\<rparr>"
  reqX11_local_channel reqX11_start "\<lambda>rc. rc" "\<lambda>kx s cid. channel_x11_req kx s cid single proto cookie screen"
  for single proto cookie screen
  by unfold_locales (auto simp: channel_x11_req_def x11_answer_def x11_denied_def answer_code_def rd8_def hd_conv_nth)

interpretation process_request: request_protocol process_state "\<lambda>c. c\<lparr>process_state := NB_idle\<rparr>" "\<lambda>t c. c\<lparr>process_start := t\<rparr>"
  process_local_channel process_start "\<lambda>rc. rc" "\<lambda>kx s cid. libssh2_channel_process_startup kx s cid request message"
  for request message
  by unfold_locales (auto simp: libssh2_channel_process_startup_def process_answer_def process_denied_def answer_code_def
      rd8_def hd_conv_nth)

definition reply_to :: "kex_exchange_fn \<Rightarrow> session \<Rightarrow> byte list \<Rightarrow> int \<Rightarrow> (int \<times> packet_data option \<times> int \<times> session) ub" where
  "reply_to kx s key start =
     libssh2_packet_requirev kx s [SSH_MSG_CHANNEL_SUCCESS, SSH_MSG_CHANNEL_FAILURE] 1 (Some key) 4 start"

definition request_outcome ::
  "(int \<Rightarrow> int) \<Rightarrow> (channel \<Rightarrow> nb_state) \<Rightarrow> int \<Rightarrow> byte list \<Rightarrow> u32 \<Rightarrow> channel \<Rightarrow> (int \<times> session) ub \<Rightarrow> bool" where
  "request_outcome fail st rc data cid c1 result \<longleftrightarrow>
     (\<exists>s' c'. result = Some (answer_code fail rc data, s') \<and> libssh2_channel_locate s' cid = Some c' \<and>
        st c' = (if rc = LIBSSH2_ERROR_EAGAIN then st c1 else NB_idle))"

text \<open>C13. The answer to a channel request. Starting a program, setting a variable, asking for a terminal and
  for X11 forwarding treat the answer the same way once the request is on its way: a success message
  gives 0, any other answer \<^verbatim>\<open>LIBSSH2_ERROR_CHANNEL_REQUEST_DENIED\<close>, and an error in waiting is
  returned (as \<^verbatim>\<open>LIBSSH2_ERROR_PROTO\<close> for a terminal), each with the request finished so that a new one can
  be made; when waiting would block the request stays under way.\<close>

theorem channel_requests_answered:
  assumes c: "libssh2_channel_locate s cid = Some c" "libssh2_channel_locate s1 cid = Some c1"
    and d: "rc = 0 \<longrightarrow> d = Some (data, n) \<and> data \<noteq> []"
  shows "(process_state c = NB_sent \<and> reply_to kx s (process_local_channel c) (process_start c) = Some (rc, d, t, s1) \<longrightarrow>
       request_outcome (\<lambda>e. e) process_state rc data cid c1 (libssh2_channel_process_startup kx s cid request message)) \<and>
     (setenv_state c = NB_sent \<and> reply_to kx s (setenv_local_channel c) (setenv_start c) = Some (rc, d, t, s1) \<longrightarrow>
       request_outcome (\<lambda>e. e) setenv_state rc data cid c1 (channel_setenv kx s cid varname val)) \<and>
     (reqPTY_state c = NB_sent \<and> reply_to kx s (reqPTY_local_channel c) (reqPTY_start c) = Some (rc, d, t, s1) \<longrightarrow>
       request_outcome (\<lambda>e. LIBSSH2_ERROR_PROTO) reqPTY_state rc data cid c1
         (channel_request_pty kx s cid trm modes w h wp hp)) \<and>
     (reqX11_state c = NB_sent \<and> reply_to kx s (reqX11_local_channel c) (reqX11_start c) = Some (rc, d, t, s1) \<longrightarrow>
       request_outcome (\<lambda>e. e) reqX11_state rc data cid c1 (channel_x11_req kx s cid single proto cookie screen))"
  unfolding reply_to_def request_outcome_def
  using process_request.outcome [OF c(1) _ _ d c(2), of kx t] env_request.outcome [OF c(1) _ _ d c(2), of kx t]
    pty_request.outcome [OF c(1) _ _ d c(2), of kx t] x11_request.outcome [OF c(1) _ _ d c(2), of kx t]
  by blast

section \<open>A concrete run\<close>

definition asking_channel :: channel where
  "asking_channel = demo_channel\<lparr>process_state := NB_sent, process_local_channel := [0, 0, 0, 3],
     setenv_state := NB_sent, setenv_local_channel := [0, 0, 0, 3]\<rparr>"

definition asking_session :: "byte \<Rightarrow> session" where
  "asking_session code = (demo_session [])\<lparr>channels := [asking_channel],
     packets := [\<lparr>pk_data = [code, 0, 0, 0, 3], pk_data_len = 5, pk_data_head = 0\<rparr>]\<rparr>"

lemma asking_reply:
  "code = 99 \<or> code = 100 \<Longrightarrow> reply_to kx (asking_session code) [0, 0, 0, 3] 0 =
     Some (0, Some ([code, 0, 0, 0, 3], 5), 0, (asking_session code)\<lparr>packets := []\<rparr>)"
  by (auto simp: reply_to_def asking_session_def libssh2_packet_requirev_def libssh2_packet_askv_def libssh2_packet_ask_def
      packet_matches_def rd8_def rdn_def cstring_def)

theorem channel_requests_answered_witness:
  "(\<exists>s'. libssh2_channel_process_startup (\<lambda>s. None) (asking_session 99) 3 (cstr ''shell'') None = Some (0, s')) \<and>
   (\<exists>s'. channel_setenv (\<lambda>s. None) (asking_session 100) 3 (cstr ''LANG'') (cstr ''C'') =
      Some (LIBSSH2_ERROR_CHANNEL_REQUEST_DENIED, s'))"
proof -
  have l: "libssh2_channel_locate (asking_session k) 3 = Some asking_channel"
    "libssh2_channel_locate ((asking_session k)\<lparr>packets := []\<rparr>) 3 = Some asking_channel" for k
    by (simp_all add: libssh2_channel_locate_def asking_session_def asking_channel_def demo_channel_def)
  have a: "process_state asking_channel = NB_sent" "process_local_channel asking_channel = [0, 0, 0, 3]"
    "process_start asking_channel = 0" "setenv_state asking_channel = NB_sent"
    "setenv_local_channel asking_channel = [0, 0, 0, 3]" "setenv_start asking_channel = 0"
    by (simp_all add: asking_channel_def demo_channel_def channel0_def)
  have d: "0 = 0 \<longrightarrow> Some ([k, 0, 0, 0, 3], 5) = Some ([k, 0, 0, 0, 3], 5 :: nat) \<and> [k, 0, 0, 0, 3] \<noteq> []" for k :: byte
    by simp
  let ?k = "\<lambda>s. None :: (int \<times> session) ub"
  note p = channel_requests_answered [where kx = ?k and t = 0 and message = None and request = "cstr ''shell''",
      OF l(1) [of 99] l(2) [of 99] d [of 99], THEN conjunct1, THEN mp]
  note e = channel_requests_answered [where kx = ?k and t = 0 and varname = "cstr ''LANG''" and val = "cstr ''C''",
      OF l(1) [of 100] l(2) [of 100] d [of 100], THEN conjunct2, THEN conjunct1, THEN mp]
  have "request_outcome (\<lambda>e. e) process_state 0 [99, 0, 0, 0, 3] 3 asking_channel
      (libssh2_channel_process_startup ?k (asking_session 99) 3 (cstr ''shell'') None)"
    by (rule p) (simp add: a asking_reply)
  moreover have "request_outcome (\<lambda>e. e) setenv_state 0 [100, 0, 0, 0, 3] 3 asking_channel
      (channel_setenv ?k (asking_session 100) 3 (cstr ''LANG'') (cstr ''C''))"
    by (rule e) (simp add: a asking_reply)
  ultimately show ?thesis by (auto simp: request_outcome_def answer_code_def)
qed

end
